(* ===== verification/Prelude.thy ===== *)
theory Prelude
  imports
    Main
    "HOL-Library.Word"
    "HOL-Library.Char_ord"
    "HOL-Library.List_Lexorder"
    "HOL-Library.Product_Lexorder"
    "HOL-Library.Sublist"
    "HOL-Library.AList"
    "HOL-Library.Multiset"
begin

text \<open>
  Shared vocabulary of the development.

  \<^item> Rust integers: \<open>u8\<close>, \<open>u32\<close>, \<open>u64\<close> are words of their width; \<open>i32\<close> and \<open>i64\<close> are
    \<open>int\<close>, with the saturating and the wrapping operations of the source written out;
    \<open>usize\<close> values are lengths and counts, and are \<open>nat\<close>.
  \<^item> \<open>String\<close> and \<open>&str\<close> are \<open>string\<close>: the list of the UTF-8 bytes of the text, one
    \<open>char\<close> per byte, so \<open>len()\<close> is \<open>length\<close> and \<open>chars().count()\<close> is \<open>char_count\<close>.
  \<^item> A \<open>HashMap\<close> is an association list with distinct keys, whose order stands for the
    unspecified iteration order; a \<open>BTreeSet\<close> or the key set of a \<open>BTreeMap\<close> is a sorted
    list with distinct elements.
  \<^item> A fallible operation on a state that is mutated through \<open>&self\<close> returns
    \<open>('e + 'a) \<times> 's\<close>: what was written before an early return stays written.
    \<open>bind_st\<close> is the \<open>?\<close> operator on such operations, \<open>bind_r\<close> the one on pure results.
\<close>

named_theorems key_simps \<open>injectivity, order and prefix facts of the storage keys\<close>
named_theorems arith_defs \<open>definitions of the saturating and wrapping operations\<close>

type_synonym u8 = "8 word"
type_synonym u32 = "32 word"
type_synonym u64 = "64 word"
type_synonym bytes = "8 word list"
type_synonym ('k, 'v) hashmap = "('k \<times> 'v) list"
type_synonym attributes = "(string, string) hashmap"

section \<open>Results and state\<close>

definition bind_r :: "'e + 'a \<Rightarrow> ('a \<Rightarrow> 'e + 'b) \<Rightarrow> 'e + 'b" where
  "bind_r m f = (case m of Inl e \<Rightarrow> Inl e | Inr a \<Rightarrow> f a)"

definition bind_st :: "('e + 'a) \<times> 's \<Rightarrow> ('a \<Rightarrow> 's \<Rightarrow> ('e + 'b) \<times> 's) \<Rightarrow> ('e + 'b) \<times> 's" where
  "bind_st m f = (case m of (Inl e, s) \<Rightarrow> (Inl e, s) | (Inr a, s) \<Rightarrow> f a s)"

text \<open>A pure result followed by an operation on the state \<open>s\<close>.\<close>

definition with_r :: "'e + 'a \<Rightarrow> 's \<Rightarrow> ('a \<Rightarrow> ('e + 'b) \<times> 's) \<Rightarrow> ('e + 'b) \<times> 's" where
  "with_r m s f = (case m of Inl e \<Rightarrow> (Inl e, s) | Inr a \<Rightarrow> f a)"

text \<open>\<open>ok_or_else\<close>.\<close>

definition ok_or :: "'a option \<Rightarrow> 'e \<Rightarrow> 'e + 'a" where
  "ok_or x e = (case x of None \<Rightarrow> Inl e | Some a \<Rightarrow> Inr a)"

definition is_ok :: "'e + 'a \<Rightarrow> bool" where
  "is_ok r = (case r of Inl _ \<Rightarrow> False | Inr _ \<Rightarrow> True)"

lemma bind_r_simps [simp]:
  "bind_r (Inl e) f = Inl e"
  "bind_r (Inr a) f = f a"
  by (simp_all add: bind_r_def)

lemma bind_st_simps [simp]:
  "bind_st (Inl e, s) f = (Inl e, s)"
  "bind_st (Inr a, s) f = f a s"
  by (simp_all add: bind_st_def)

lemma with_r_simps [simp]:
  "with_r (Inl e) s f = (Inl e, s)"
  "with_r (Inr a) s f = f a"
  by (simp_all add: with_r_def)

lemma ok_or_simps [simp]:
  "ok_or None e = Inl e"
  "ok_or (Some a) e = Inr a"
  by (simp_all add: ok_or_def)

lemma is_ok_simps [simp]:
  "is_ok (Inr a)"
  "\<not> is_ok (Inl e)"
  by (simp_all add: is_ok_def)

lemma bind_r_cong [fundef_cong]:
  "m = m' \<Longrightarrow> (\<And>a. m' = Inr a \<Longrightarrow> f a = f' a) \<Longrightarrow> bind_r m f = bind_r m' f'"
  by (cases m') simp_all

lemma bind_r_Inr_iff: "bind_r m f = Inr b \<longleftrightarrow> (\<exists>a. m = Inr a \<and> f a = Inr b)"
  by (cases m) simp_all

lemma bind_r_Inl_iff: "bind_r m f = Inl e \<longleftrightarrow> m = Inl e \<or> (\<exists>a. m = Inr a \<and> f a = Inl e)"
  by (cases m) simp_all

lemma bind_st_Inr_iff:
  "bind_st m f = (Inr b, s') \<longleftrightarrow> (\<exists>a s. m = (Inr a, s) \<and> f a s = (Inr b, s'))"
  by (auto simp: bind_st_def split: prod.splits sum.splits)

lemma bind_st_Inl_iff:
  "bind_st m f = (Inl e, s') \<longleftrightarrow>
     m = (Inl e, s') \<or> (\<exists>a s. m = (Inr a, s) \<and> f a s = (Inl e, s'))"
  by (auto simp: bind_st_def split: prod.splits sum.splits)

lemma with_r_Inr_iff: "with_r m s f = (Inr b, s') \<longleftrightarrow> (\<exists>a. m = Inr a \<and> f a = (Inr b, s'))"
  by (cases m) simp_all

lemma with_r_Inl_iff:
  "with_r m s f = (Inl e, s') \<longleftrightarrow> (m = Inl e \<and> s' = s) \<or> (\<exists>a. m = Inr a \<and> f a = (Inl e, s'))"
  by (cases m) auto

lemma ok_or_Inr_iff: "ok_or x e = Inr a \<longleftrightarrow> x = Some a"
  by (cases x) simp_all

lemma ok_or_Inl_iff: "ok_or x e = Inl e' \<longleftrightarrow> x = None \<and> e' = e"
  by (cases x) auto

lemmas result_iffs =
  bind_r_Inr_iff bind_r_Inl_iff bind_st_Inr_iff bind_st_Inl_iff
  with_r_Inr_iff with_r_Inl_iff ok_or_Inr_iff ok_or_Inl_iff

section \<open>Machine integers\<close>

definition i64_max :: int where "i64_max = 2 ^ 63 - 1"
definition i64_min :: int where "i64_min = - (2 ^ 63)"
definition i32_max :: int where "i32_max = 2 ^ 31 - 1"

definition sat_i64 :: "int \<Rightarrow> int" where
  "sat_i64 x = max i64_min (min i64_max x)"

text \<open>\<open>saturating_add\<close>, \<open>saturating_sub\<close>, \<open>saturating_mul\<close> on \<open>i64\<close>.\<close>

definition i64_sat_add :: "int \<Rightarrow> int \<Rightarrow> int" where
  "i64_sat_add a b = sat_i64 (a + b)"

definition i64_sat_sub :: "int \<Rightarrow> int \<Rightarrow> int" where
  "i64_sat_sub a b = sat_i64 (a - b)"

definition i64_sat_mul :: "int \<Rightarrow> int \<Rightarrow> int" where
  "i64_sat_mul a b = sat_i64 (a * b)"

text \<open>Two's complement wrap-around: a plain \<open>+\<close> or \<open>*\<close> in a release build, and \<open>as i64\<close>.\<close>

definition wrap_i64 :: "int \<Rightarrow> int" where
  "wrap_i64 x = (x + 2 ^ 63) mod 2 ^ 64 - 2 ^ 63"

definition wrap_i32 :: "int \<Rightarrow> int" where
  "wrap_i32 x = (x + 2 ^ 31) mod 2 ^ 32 - 2 ^ 31"

definition in_i64 :: "int \<Rightarrow> bool" where
  "in_i64 x \<longleftrightarrow> i64_min \<le> x \<and> x \<le> i64_max"

text \<open>\<open>saturating_add\<close> on \<open>usize\<close>.\<close>

definition usize_max :: nat where "usize_max = 2 ^ 64 - 1"

definition usize_sat_add :: "nat \<Rightarrow> nat \<Rightarrow> nat" where
  "usize_sat_add a b = min usize_max (a + b)"

text \<open>\<open>saturating_add\<close>, \<open>saturating_sub\<close> and \<open>checked_add\<close> on the unsigned types.\<close>

definition word_sat_add :: "'a::len word \<Rightarrow> 'a word \<Rightarrow> 'a word" where
  "word_sat_add a b = (if unat a + unat b < 2 ^ LENGTH('a) then a + b else - 1)"

definition word_sat_sub :: "'a::len word \<Rightarrow> 'a word \<Rightarrow> 'a word" where
  "word_sat_sub a b = (if a < b then 0 else a - b)"

definition word_checked_add :: "'a::len word \<Rightarrow> 'a word \<Rightarrow> 'a word option" where
  "word_checked_add a b = (if unat a + unat b < 2 ^ LENGTH('a) then Some (a + b) else None)"

lemmas [arith_defs] =
  i64_sat_add_def i64_sat_sub_def i64_sat_mul_def sat_i64_def i64_max_def i64_min_def

lemma sat_i64_id: "in_i64 x \<Longrightarrow> sat_i64 x = x"
  by (simp add: in_i64_def sat_i64_def)

lemma sat_i64_in_i64 [simp]: "in_i64 (sat_i64 x)"
  by (simp add: in_i64_def sat_i64_def i64_min_def i64_max_def)

lemma sat_i64_mono: "x \<le> y \<Longrightarrow> sat_i64 x \<le> sat_i64 y"
  by (auto simp: sat_i64_def max_def min_def)

lemma wrap_i64_id: "in_i64 x \<Longrightarrow> wrap_i64 x = x"
  by (simp add: wrap_i64_def in_i64_def i64_min_def i64_max_def mod_pos_pos_trivial)

lemma unat_word_sat_add:
  fixes a b :: "'a::len word"
  shows "unat (word_sat_add a b) = min (2 ^ LENGTH('a) - 1) (unat a + unat b)"
proof (cases "unat a + unat b < 2 ^ LENGTH('a)")
  case True
  then show ?thesis
    by (simp add: word_sat_add_def unat_word_ariths)
next
  case False
  then show ?thesis
    by (simp add: word_sat_add_def unsigned_minus_1_eq_mask mask_eq_exp_minus_1)
qed

lemma word_sat_add_le: "a \<le> word_sat_add a b"
proof -
  have "unat a < 2 ^ LENGTH('a)"
    by (rule unsigned_less)
  then have "unat a \<le> 2 ^ LENGTH('a) - 1"
    by linarith
  then show ?thesis
    by (simp add: word_le_nat_alt unat_word_sat_add)
qed

lemma word_sat_add_exact:
  fixes a b :: "'a::len word"
  assumes "unat a + unat b < 2 ^ LENGTH('a)"
  shows "unat (word_sat_add a b) = unat a + unat b" and "word_sat_add a b = a + b"
  using assms by (simp_all add: word_sat_add_def unat_word_ariths)

lemma unat_word_sat_sub: "unat (word_sat_sub a b) = unat a - unat b"
  by (simp add: word_sat_sub_def unat_sub word_less_nat_alt word_le_nat_alt)

section \<open>Containers\<close>

definition hm_insert :: "'k \<Rightarrow> 'v \<Rightarrow> ('k, 'v) hashmap \<Rightarrow> ('k, 'v) hashmap" where
  "hm_insert = AList.update"

definition hm_remove :: "'k \<Rightarrow> ('k, 'v) hashmap \<Rightarrow> ('k, 'v) hashmap" where
  "hm_remove = AList.delete"

abbreviation hm_wf :: "('k, 'v) hashmap \<Rightarrow> bool" where
  "hm_wf m \<equiv> distinct (map fst m)"

lemma hm_insert_code [simp]:
  "hm_insert k v [] = [(k, v)]"
  "hm_insert k v ((k', v') # m) = (if k' = k then (k', v) # m else (k', v') # hm_insert k v m)"
  by (simp_all add: hm_insert_def)

lemma hm_remove_code [simp]:
  "hm_remove k [] = []"
  "hm_remove k ((k', v') # m) = (if k' = k then hm_remove k m else (k', v') # hm_remove k m)"
  by (auto simp: hm_remove_def AList.delete_eq)

lemma map_of_hm_insert [simp]: "map_of (hm_insert k v m) = (map_of m)(k \<mapsto> v)"
  by (simp add: hm_insert_def update_conv')

lemma map_of_hm_remove [simp]: "map_of (hm_remove k m) = (map_of m)(k := None)"
  by (simp add: hm_remove_def delete_conv')

lemma hm_wf_insert [simp]: "hm_wf m \<Longrightarrow> hm_wf (hm_insert k v m)"
  by (simp add: hm_insert_def distinct_update)

lemma hm_wf_remove [simp]: "hm_wf m \<Longrightarrow> hm_wf (hm_remove k m)"
  by (simp add: hm_remove_def distinct_delete)

lemma keys_hm_remove [simp]: "fst ` set (hm_remove k m) = fst ` set m - {k}"
  by (auto simp: hm_remove_def AList.delete_eq)

text \<open>Sorted lists as ordered sets.\<close>

definition bt_insert :: "'a::linorder \<Rightarrow> 'a list \<Rightarrow> 'a list" where
  "bt_insert x xs = insort_insert x xs"

definition bt_remove :: "'a \<Rightarrow> 'a list \<Rightarrow> 'a list" where
  "bt_remove x xs = removeAll x xs"

abbreviation bt_wf :: "'a::linorder list \<Rightarrow> bool" where
  "bt_wf xs \<equiv> sorted xs \<and> distinct xs"

lemma set_bt_insert [simp]: "set (bt_insert x xs) = insert x (set xs)"
  by (simp add: bt_insert_def set_insort_insert)

lemma set_bt_remove [simp]: "set (bt_remove x xs) = set xs - {x}"
  by (simp add: bt_remove_def)

lemma bt_wf_insert [simp]: "bt_wf xs \<Longrightarrow> bt_wf (bt_insert x xs)"
  by (simp add: bt_insert_def sorted_insort_insert distinct_insort_insert)

lemma bt_wf_remove [simp]: "bt_wf xs \<Longrightarrow> bt_wf (bt_remove x xs)"
  by (simp add: bt_remove_def removeAll_filter_not_eq sorted_wrt_filter)

lemma length_bt_remove: "x \<in> set xs \<Longrightarrow> length (bt_remove x xs) < length xs"
  by (simp add: bt_remove_def length_removeAll_less)

section \<open>Text\<close>

text \<open>\<open>str::split\<close> on a one-byte separator.\<close>

fun split_on :: "char \<Rightarrow> string \<Rightarrow> string list" where
  "split_on c [] = [[]]"
| "split_on c (x # xs) =
     (if x = c then [] # split_on c xs
      else (case split_on c xs of [] \<Rightarrow> [[x]] | p # ps \<Rightarrow> (x # p) # ps))"

text \<open>\<open>str::splitn\<close>: at most \<open>n\<close> pieces, the last of which is the unsplit rest.\<close>

fun splitn :: "nat \<Rightarrow> char \<Rightarrow> string \<Rightarrow> string list" where
  "splitn 0 c s = []"
| "splitn (Suc 0) c s = [s]"
| "splitn (Suc (Suc n)) c s =
     (case dropWhile (\<lambda>x. x \<noteq> c) s of
        [] \<Rightarrow> [s]
      | _ # rest \<Rightarrow> takeWhile (\<lambda>x. x \<noteq> c) s # splitn (Suc n) c rest)"

definition strip_prefix :: "'a list \<Rightarrow> 'a list \<Rightarrow> 'a list option" where
  "strip_prefix p s = (if prefix p s then Some (drop (length p) s) else None)"

text \<open>\<open>chars().count()\<close>: the bytes of the text that are not UTF-8 continuation bytes.\<close>

definition char_count :: "string \<Rightarrow> nat" where
  "char_count s = length (filter (\<lambda>c. \<not> (128 \<le> (of_char c :: nat) \<and> (of_char c :: nat) < 192)) s)"

text \<open>\<open>to_string\<close> of an unsigned integer.\<close>

fun nat_to_string :: "nat \<Rightarrow> string" where
  "nat_to_string n =
     (if n < 10 then [char_of (48 + n)]
      else nat_to_string (n div 10) @ [char_of (48 + n mod 10)])"

declare nat_to_string.simps [simp del]

lemma split_on_nonempty [simp]: "split_on c s \<noteq> []"
  by (induction s) (auto split: list.splits)

lemma split_on_no_sep: "c \<notin> set s \<Longrightarrow> split_on c s = [s]"
  by (induction s) auto

lemma split_on_append: "c \<notin> set p \<Longrightarrow> split_on c (p @ c # s) = p # split_on c s"
  by (induction p) auto

lemma split_on_pieces: "p \<in> set (split_on c s) \<Longrightarrow> c \<notin> set p"
  by (induction s arbitrary: p) (auto split: list.splits if_splits)

lemma split_on_join: "s = concat (map (\<lambda>p. p @ [c]) (butlast (split_on c s))) @ last (split_on c s)"
proof (induction s)
  case (Cons x xs)
  then show ?case
    by (cases "split_on c xs") (auto split: if_splits)
qed simp

lemma dropWhile_upto_sep: "c \<notin> set p \<Longrightarrow> dropWhile (\<lambda>x. x \<noteq> c) (p @ c # s) = c # s"
  by (induction p) auto

lemma takeWhile_upto_sep: "c \<notin> set p \<Longrightarrow> takeWhile (\<lambda>x. x \<noteq> c) (p @ c # s) = p"
  by (induction p) auto

lemma splitn_append:
  "c \<notin> set p \<Longrightarrow> splitn (Suc (Suc n)) c (p @ c # s) = p # splitn (Suc n) c s"
  by (simp only: splitn.simps dropWhile_upto_sep takeWhile_upto_sep list.case simp_thms)

lemma strip_prefix_append [simp]: "strip_prefix p (p @ s) = Some s"
  by (simp add: strip_prefix_def)

lemma strip_prefix_Some_iff: "strip_prefix p s = Some r \<longleftrightarrow> s = p @ r"
  by (auto simp: strip_prefix_def prefix_def)

section \<open>Lists\<close>

lemma sorted_key_distinct_strict:
  "sorted (map f xs) \<Longrightarrow> distinct (map f xs) \<Longrightarrow> sorted_wrt (<) (map f xs)"
  by (simp add: strict_sorted_iff)

lemma alist_eqI:
  assumes "distinct (map fst xs)" and "map fst xs = map fst ys" and "set xs = set ys"
  shows "xs = ys"
proof (rule nth_equalityI)
  show len: "length xs = length ys"
    using assms(2) by (metis length_map)
  fix i assume i: "i < length xs"
  have key: "fst (xs ! i) = fst (ys ! i)"
    using assms(2) i len by (metis nth_map)
  have "ys ! i \<in> set xs"
    using assms(3) i len by simp
  moreover have "xs ! i \<in> set xs"
    using i by simp
  ultimately have "snd (xs ! i) = snd (ys ! i)"
    using key assms(1) by (metis eq_key_imp_eq_value prod.collapse)
  with key show "xs ! i = ys ! i"
    by (simp add: prod_eq_iff)
qed

end
