(* ===== verification/Keys.thy ===== *)
theory Keys
  imports Prelude
begin

text \<open>
  The binary storage keys, \<open>crates/open-pubusb-core/src/store/keys.rs\<close>: big-endian
  fixed-width integers behind literal prefixes. The facts proved here are the ones every
  component above relies on: builders are injective, their ranges do not overlap inside a
  keyspace, parsing inverts building, and the byte order of the keys is the numeric order
  of the numbers in them, which range scans depend on.
\<close>

section \<open>Big-endian integers\<close>

text \<open>The \<open>n\<close> base-256 digits of \<open>k\<close>, most significant first; \<open>u64::to_be_bytes\<close>.\<close>

fun be_bytes :: "nat \<Rightarrow> nat \<Rightarrow> bytes" where
  "be_bytes 0 k = []"
| "be_bytes (Suc n) k = word_of_nat (k div 256 ^ n) # be_bytes n (k mod 256 ^ n)"

definition to_be_bytes :: "u64 \<Rightarrow> bytes" where
  "to_be_bytes w = be_bytes 8 (unat w)"

fun be_value :: "nat \<Rightarrow> bytes \<Rightarrow> nat" where
  "be_value acc [] = acc"
| "be_value acc (b # bs) = be_value (acc * 256 + unat b) bs"

text \<open>\<open>u64::from_be_bytes\<close>, applied to eight bytes by every caller.\<close>

definition from_be_bytes :: "bytes \<Rightarrow> u64" where
  "from_be_bytes bs = word_of_nat (be_value 0 bs)"

text \<open>\<open>decode_u64\<close> of the topic and snapshot stores: exactly eight bytes.\<close>

definition decode_u64 :: "bytes \<Rightarrow> u64 option" where
  "decode_u64 bs = (if length bs = 8 then Some (from_be_bytes bs) else None)"

section \<open>Key builders and parsers\<close>

text \<open>\<open>s.as_bytes()\<close> of a literal or a name.\<close>

definition as_bytes :: "string \<Rightarrow> bytes" where
  "as_bytes s = map of_char s"

datatype name_kind = KTopic | KSubscription | KSnapshot

fun name_prefix :: "name_kind \<Rightarrow> string" where
  "name_prefix KTopic = ''name/t/''"
| "name_prefix KSubscription = ''name/s/''"
| "name_prefix KSnapshot = ''name/snap/''"

definition topic_key :: "u64 \<Rightarrow> bytes" where
  "topic_key topic_id = as_bytes ''t/'' @ to_be_bytes topic_id"

definition sub_key :: "u64 \<Rightarrow> bytes" where
  "sub_key sub_id = as_bytes ''s/'' @ to_be_bytes sub_id"

definition snapshot_key :: "u64 \<Rightarrow> bytes" where
  "snapshot_key snap_id = as_bytes ''snap/'' @ to_be_bytes snap_id"

definition name_key :: "name_kind \<Rightarrow> string \<Rightarrow> bytes" where
  "name_key kind name = as_bytes (name_prefix kind) @ as_bytes name"

definition id_seq_key :: bytes where
  "id_seq_key = as_bytes ''id_seq''"

definition msg_key :: "u64 \<Rightarrow> u64 \<Rightarrow> bytes" where
  "msg_key topic_id seq = to_be_bytes topic_id @ to_be_bytes seq"

definition msg_key_prefix :: "u64 \<Rightarrow> bytes" where
  "msg_key_prefix topic_id = to_be_bytes topic_id"

definition parse_msg_key :: "bytes \<Rightarrow> (u64 \<times> u64) option" where
  "parse_msg_key key =
     (if length key \<noteq> 16 then None
      else Some (from_be_bytes (take 8 key), from_be_bytes (take 8 (drop 8 key))))"

definition cursor_key :: "u64 \<Rightarrow> bytes" where
  "cursor_key sub_id = to_be_bytes sub_id"

definition delivery_key :: "u64 \<Rightarrow> u64 \<Rightarrow> bytes" where
  "delivery_key sub_id seq = to_be_bytes sub_id @ to_be_bytes seq"

definition delivery_key_prefix :: "u64 \<Rightarrow> bytes" where
  "delivery_key_prefix sub_id = to_be_bytes sub_id"

definition parse_delivery_key :: "bytes \<Rightarrow> (u64 \<times> u64) option" where
  "parse_delivery_key key =
     (if length key \<noteq> 16 then None
      else Some (from_be_bytes (take 8 key), from_be_bytes (take 8 (drop 8 key))))"

definition lane_key :: "u64 \<Rightarrow> u64 \<Rightarrow> bytes" where
  "lane_key sub_id ordering_key_hash = to_be_bytes sub_id @ to_be_bytes ordering_key_hash"

definition snapshot_state_key :: "u64 \<Rightarrow> bytes" where
  "snapshot_state_key snap_id = to_be_bytes snap_id"

definition topic_sub_idx_key :: "u64 \<Rightarrow> u64 \<Rightarrow> bytes" where
  "topic_sub_idx_key topic_id sub_id = to_be_bytes topic_id @ to_be_bytes sub_id"

definition topic_sub_idx_prefix :: "u64 \<Rightarrow> bytes" where
  "topic_sub_idx_prefix topic_id = to_be_bytes topic_id"

definition topic_seq_counter_key :: "u64 \<Rightarrow> bytes" where
  "topic_seq_counter_key topic_id = as_bytes ''t/seq/'' @ to_be_bytes topic_id"

section \<open>Facts\<close>

lemma length_be_bytes [simp]: "length (be_bytes n k) = n"
  by (induction n arbitrary: k) auto

lemma length_to_be_bytes [simp]: "length (to_be_bytes w) = 8"
  by (simp add: to_be_bytes_def)

lemma length_as_bytes [simp]: "length (as_bytes s) = length s"
  by (simp add: as_bytes_def)

lemma be_value_be_bytes: "k < 256 ^ n \<Longrightarrow> be_value acc (be_bytes n k) = acc * 256 ^ n + k"
proof (induction n arbitrary: acc k)
  case (Suc n)
  have "k div 256 ^ n < 256"
    using Suc.prems by (simp add: less_mult_imp_div_less)
  then have "unat (word_of_nat (k div 256 ^ n) :: u8) = k div 256 ^ n"
    by (simp add: unsigned_of_nat take_bit_nat_eq_self)
  then show ?case
    by (simp add: Suc.IH algebra_simps)
qed simp

lemma unat_u64_less: "unat (w :: u64) < 256 ^ 8"
proof -
  have "unat w < 2 ^ LENGTH(64)" by (rule unsigned_less)
  then show ?thesis by simp
qed

lemma from_be_bytes_to_be_bytes [simp]: "from_be_bytes (to_be_bytes w) = w"
proof -
  have "unat w < 256 ^ 8"
    by (rule unat_u64_less)
  then show ?thesis
    by (simp add: from_be_bytes_def to_be_bytes_def be_value_be_bytes)
qed

lemma decode_u64_to_be_bytes [simp]: "decode_u64 (to_be_bytes w) = Some w"
  by (simp add: decode_u64_def)

lemma be_value_append: "be_value acc bs = acc * 256 ^ length bs + be_value 0 bs"
proof (induction bs arbitrary: acc)
  case (Cons b bs)
  have "be_value acc (b # bs) = (acc * 256 + unat b) * 256 ^ length bs + be_value 0 bs"
    using Cons.IH [of "acc * 256 + unat b"] by simp
  moreover have "be_value 0 (b # bs) = unat b * 256 ^ length bs + be_value 0 bs"
    using Cons.IH [of "unat b"] by simp
  ultimately show ?case
    by (simp add: algebra_simps)
qed simp

lemma be_value_less: "be_value 0 bs < 256 ^ length bs"
proof (induction bs)
  case (Cons b bs)
  have "unat b < 2 ^ LENGTH(8)" by (rule unsigned_less)
  then have "Suc (unat b) * 256 ^ length bs \<le> 256 * 256 ^ length bs"
    by (intro mult_le_mono1) simp
  then have "unat b * 256 ^ length bs + 256 ^ length bs \<le> 256 ^ length (b # bs)"
    by (simp only: mult_Suc length_Cons power_Suc add.commute)
  with Cons.IH have "unat b * 256 ^ length bs + be_value 0 bs < 256 ^ length (b # bs)"
    by linarith
  then show ?case
    using be_value_append [of "unat b" bs] by simp
qed simp

lemma to_be_bytes_inject [simp, key_simps]: "to_be_bytes a = to_be_bytes b \<longleftrightarrow> a = b"
  by (metis from_be_bytes_to_be_bytes)

lemma be_bytes_be_value: "length bs = n \<Longrightarrow> be_bytes n (be_value 0 bs) = bs"
proof (induction bs arbitrary: n)
  case (Cons b bs)
  then obtain m where n: "n = Suc m" "length bs = m" by auto
  have less: "be_value 0 bs < 256 ^ m" using be_value_less [of bs] n by simp
  have "be_value 0 (b # bs) = unat b * 256 ^ m + be_value 0 bs"
    using be_value_append [of "unat b" bs] n by simp
  then have "be_value 0 (b # bs) div 256 ^ m = unat b" "be_value 0 (b # bs) mod 256 ^ m = be_value 0 bs"
    using less by simp_all
  then show ?case
    using Cons.IH n by (simp add: n)
qed simp

lemma to_be_bytes_from_be_bytes: "length bs = 8 \<Longrightarrow> to_be_bytes (from_be_bytes bs) = bs"
proof -
  assume len: "length bs = 8"
  then have "be_value 0 bs < 2 ^ LENGTH(64)" using be_value_less [of bs] by simp
  then have "unat (word_of_nat (be_value 0 bs) :: u64) = be_value 0 bs"
    by (simp add: unsigned_of_nat take_bit_nat_eq_self)
  then show ?thesis
    using be_bytes_be_value [OF len] by (simp add: to_be_bytes_def from_be_bytes_def)
qed

text \<open>The lexicographic byte order is the numeric order.\<close>

lemma nat_less_div_mod:
  fixes k l p :: nat
  assumes "0 < p"
  shows "k < l \<longleftrightarrow> k div p < l div p \<or> k div p = l div p \<and> k mod p < l mod p"
proof (cases "k div p = l div p")
  case True
  have "k = p * (k div p) + k mod p" "l = p * (k div p) + l mod p"
    by (simp, simp add: True)
  then have "k < l \<longleftrightarrow> k mod p < l mod p"
    by linarith
  with True show ?thesis by simp
next
  case False
  then show ?thesis
    using div_le_mono [of k l p] div_le_mono [of l k p] by linarith
qed

lemma be_bytes_less_iff:
  "k < 256 ^ n \<Longrightarrow> l < 256 ^ n \<Longrightarrow> be_bytes n k < be_bytes n l \<longleftrightarrow> k < l"
proof (induction n arbitrary: k l)
  case (Suc n)
  let ?p = "256 ^ n :: nat"
  have p: "0 < ?p" by simp
  have hi: "k div ?p < 256" "l div ?p < 256"
    using Suc.prems by (simp_all add: less_mult_imp_div_less)
  have word: "(word_of_nat (k div ?p) :: u8) < word_of_nat (l div ?p) \<longleftrightarrow> k div ?p < l div ?p"
    "(word_of_nat (k div ?p) :: u8) = word_of_nat (l div ?p) \<longleftrightarrow> k div ?p = l div ?p"
    using hi by (simp_all add: word_less_nat_alt word_unat_eq_iff unsigned_of_nat take_bit_nat_eq_self)
  have IH: "be_bytes n (k mod ?p) < be_bytes n (l mod ?p) \<longleftrightarrow> k mod ?p < l mod ?p"
    using p by (intro Suc.IH) simp_all
  show ?case
    unfolding be_bytes.simps Cons_less_Cons word IH
    by (rule nat_less_div_mod [OF p, symmetric])
qed simp

lemma to_be_bytes_less_iff [simp, key_simps]: "to_be_bytes a < to_be_bytes b \<longleftrightarrow> a < b"
  by (simp add: to_be_bytes_def be_bytes_less_iff [OF unat_u64_less unat_u64_less] word_less_nat_alt
      del: be_bytes.simps)

lemma to_be_bytes_le_iff [simp, key_simps]: "to_be_bytes a \<le> to_be_bytes b \<longleftrightarrow> a \<le> b"
  by (metis to_be_bytes_less_iff linorder_not_less)

lemma append_less_same_length:
  fixes xs ys :: "'a::linorder list"
  shows "length xs = length ys \<Longrightarrow> xs @ zs < ys @ ws \<longleftrightarrow> xs < ys \<or> xs = ys \<and> zs < ws"
  by (induction xs ys rule: list_induct2) auto

lemma msg_key_less_iff [simp, key_simps]:
  "msg_key t a < msg_key u b \<longleftrightarrow> t < u \<or> t = u \<and> a < b"
  by (simp add: msg_key_def append_less_same_length)

lemma delivery_key_less_iff [simp, key_simps]:
  "delivery_key t a < delivery_key u b \<longleftrightarrow> t < u \<or> t = u \<and> a < b"
  by (simp add: delivery_key_def append_less_same_length)

lemma msg_key_inject [simp, key_simps]: "msg_key t a = msg_key u b \<longleftrightarrow> t = u \<and> a = b"
  by (simp add: msg_key_def)

lemma delivery_key_inject [simp, key_simps]:
  "delivery_key t a = delivery_key u b \<longleftrightarrow> t = u \<and> a = b"
  by (simp add: delivery_key_def)

lemma topic_sub_idx_key_inject [simp, key_simps]:
  "topic_sub_idx_key t a = topic_sub_idx_key u b \<longleftrightarrow> t = u \<and> a = b"
  by (simp add: topic_sub_idx_key_def)

lemma cursor_key_inject [simp, key_simps]: "cursor_key a = cursor_key b \<longleftrightarrow> a = b"
  by (simp add: cursor_key_def)

lemma parse_msg_key_msg_key [simp]: "parse_msg_key (msg_key t a) = Some (t, a)"
  by (simp add: parse_msg_key_def msg_key_def)

lemma parse_delivery_key_delivery_key [simp]:
  "parse_delivery_key (delivery_key t a) = Some (t, a)"
  by (simp add: parse_delivery_key_def delivery_key_def)

lemma split_16: "length key = 16 \<Longrightarrow> take 8 key @ take 8 (drop 8 key) = key"
  by (metis add_diff_cancel_right' append_take_drop_id length_drop numeral_Bit0 take_all order_refl)

lemma parse_msg_key_iff: "parse_msg_key key = Some (t, q) \<longleftrightarrow> key = msg_key t q"
proof
  assume "parse_msg_key key = Some (t, q)"
  then have "length key = 16" "t = from_be_bytes (take 8 key)" "q = from_be_bytes (take 8 (drop 8 key))"
    by (auto simp: parse_msg_key_def split: if_splits)
  then show "key = msg_key t q"
    by (simp add: msg_key_def to_be_bytes_from_be_bytes split_16)
qed simp

lemma parse_delivery_key_iff: "parse_delivery_key key = Some (t, q) \<longleftrightarrow> key = delivery_key t q"
  using parse_msg_key_iff [of key t q]
  by (simp add: parse_msg_key_def parse_delivery_key_def msg_key_def delivery_key_def)

lemma prefix_to_be_bytes [simp, key_simps]:
  "prefix (to_be_bytes a) (to_be_bytes b @ xs) \<longleftrightarrow> a = b"
  by (auto simp: prefix_def)

lemma prefix_msg_key [simp, key_simps]: "prefix (msg_key_prefix t) (msg_key u a) \<longleftrightarrow> t = u"
  by (simp add: msg_key_prefix_def msg_key_def)

lemma prefix_delivery_key [simp, key_simps]:
  "prefix (delivery_key_prefix t) (delivery_key u a) \<longleftrightarrow> t = u"
  by (simp add: delivery_key_prefix_def delivery_key_def)

lemma prefix_topic_sub_idx_key [simp, key_simps]:
  "prefix (topic_sub_idx_prefix t) (topic_sub_idx_key u a) \<longleftrightarrow> t = u"
  by (simp add: topic_sub_idx_prefix_def topic_sub_idx_key_def)

text \<open>The keys of the \<open>meta\<close> keyspace never meet.\<close>

lemma as_bytes_append: "as_bytes (a @ b) = as_bytes a @ as_bytes b"
  by (simp add: as_bytes_def)

lemma as_bytes_inject [simp]: "as_bytes a = as_bytes b \<longleftrightarrow> a = b"
proof -
  have "inj (of_char :: char \<Rightarrow> u8)"
  proof (rule injI)
    fix x y :: char
    assume "(of_char x :: u8) = of_char y"
    then have "unat (of_char x :: u8) = unat (of_char y :: u8)" by simp
    moreover have "unat (of_char c :: u8) = (of_char c :: nat)" for c
    proof -
      have "(of_char c :: u8) = word_of_nat (of_char c)"
        by (simp add: of_nat_of_char)
      moreover have "(of_char c :: nat) < 256"
        by (rule nat_of_char_less_256)
      ultimately show ?thesis
        by (simp add: unsigned_of_nat take_bit_nat_eq_self)
    qed
    ultimately show "x = y" by simp
  qed
  then show ?thesis
    by (simp add: as_bytes_def inj_map_eq_map)
qed

lemma literal_bytes:
  "as_bytes ''t/'' = [116, 47]"
  "as_bytes ''s/'' = [115, 47]"
  "as_bytes ''snap/'' = [115, 110, 97, 112, 47]"
  "as_bytes ''id_seq'' = [105, 100, 95, 115, 101, 113]"
  "as_bytes ''t/seq/'' = [116, 47, 115, 101, 113, 47]"
  "as_bytes ''name/t/'' = [110, 97, 109, 101, 47, 116, 47]"
  "as_bytes ''name/s/'' = [110, 97, 109, 101, 47, 115, 47]"
  "as_bytes ''name/snap/'' = [110, 97, 109, 101, 47, 115, 110, 97, 112, 47]"
  by (simp_all add: as_bytes_def)

lemmas meta_key_defs =
  topic_key_def sub_key_def snapshot_key_def name_key_def id_seq_key_def topic_seq_counter_key_def
  literal_bytes

lemma topic_key_inject [simp, key_simps]: "topic_key a = topic_key b \<longleftrightarrow> a = b"
  by (simp add: topic_key_def)

lemma sub_key_inject [simp, key_simps]: "sub_key a = sub_key b \<longleftrightarrow> a = b"
  by (simp add: sub_key_def)

lemma snapshot_key_inject [simp, key_simps]: "snapshot_key a = snapshot_key b \<longleftrightarrow> a = b"
  by (simp add: snapshot_key_def)

lemma topic_seq_counter_key_inject [simp, key_simps]:
  "topic_seq_counter_key a = topic_seq_counter_key b \<longleftrightarrow> a = b"
  by (simp add: topic_seq_counter_key_def)

lemma name_key_inject [simp, key_simps]: "name_key k n = name_key l m \<longleftrightarrow> k = l \<and> n = m"
  by (cases k; cases l) (simp_all add: meta_key_defs)

lemma topic_key_neq_counter [simp, key_simps]: "topic_key a \<noteq> topic_seq_counter_key b"
proof
  assume "topic_key a = topic_seq_counter_key b"
  then have "length (topic_key a) = length (topic_seq_counter_key b)" by simp
  then show False by (simp add: topic_key_def topic_seq_counter_key_def)
qed

lemma meta_keys_distinct [simp, key_simps]:
  "topic_key a \<noteq> sub_key b" "topic_key a \<noteq> snapshot_key b" "topic_key a \<noteq> name_key k n"
  "topic_key a \<noteq> id_seq_key"
  "sub_key a \<noteq> snapshot_key b" "sub_key a \<noteq> name_key k n" "sub_key a \<noteq> id_seq_key"
  "sub_key a \<noteq> topic_seq_counter_key b"
  "snapshot_key a \<noteq> name_key k n" "snapshot_key a \<noteq> id_seq_key"
  "snapshot_key a \<noteq> topic_seq_counter_key b"
  "name_key k n \<noteq> id_seq_key" "name_key k n \<noteq> topic_seq_counter_key b"
  "id_seq_key \<noteq> topic_seq_counter_key b"
  by (cases k; simp add: meta_key_defs)+

lemmas meta_keys_distinct_sym [simp, key_simps] =
  topic_key_neq_counter [symmetric] meta_keys_distinct [symmetric]

section \<open>Properties\<close>

text \<open>
  Message keys are a faithful encoding of (topic, sequence number): decoding accepts
  exactly the encoded keys, the byte order of one topic's keys is the order of the sequence
  numbers, and a topic's prefix selects the keys of that topic and of no other.
\<close>

theorem msg_key_faithful:
  "(parse_msg_key key = Some (t, q) \<longleftrightarrow> key = msg_key t q) \<and>
   (msg_key t a < msg_key t b \<longleftrightarrow> a < b) \<and>
   (prefix (msg_key_prefix u) (msg_key t a) \<longleftrightarrow> u = t)"
  by (simp add: parse_msg_key_iff)

text \<open>
  The keys of the shared \<open>meta\<close> keyspace do not collide: rows of topics, subscriptions and
  snapshots, name-index rows, log tails and the id counter are pairwise distinct, and each kind
  of key determines what it was made from.
\<close>

theorem meta_keys_separate:
  "(topic_key a = topic_key b \<longleftrightarrow> a = b) \<and> (sub_key a = sub_key b \<longleftrightarrow> a = b) \<and>
   (snapshot_key a = snapshot_key b \<longleftrightarrow> a = b) \<and>
   (topic_seq_counter_key a = topic_seq_counter_key b \<longleftrightarrow> a = b) \<and>
   (name_key k n = name_key l m \<longleftrightarrow> k = l \<and> n = m) \<and>
   topic_key a \<noteq> sub_key b \<and> topic_key a \<noteq> snapshot_key b \<and> sub_key a \<noteq> snapshot_key b \<and>
   topic_key a \<noteq> name_key k n \<and> sub_key a \<noteq> name_key k n \<and> snapshot_key a \<noteq> name_key k n \<and>
   topic_key a \<noteq> topic_seq_counter_key b \<and> topic_seq_counter_key a \<noteq> name_key k n \<and>
   topic_key a \<noteq> id_seq_key \<and> sub_key a \<noteq> id_seq_key \<and> snapshot_key a \<noteq> id_seq_key \<and>
   name_key k n \<noteq> id_seq_key \<and> topic_seq_counter_key a \<noteq> id_seq_key"
  by simp

end
