(* ===== verification/Errors.thy ===== *)
theory Errors
  imports Prelude
begin

text \<open>
  The core error type, \<open>crates/open-pubusb-core/src/error.rs\<close>: one constructor per variant.
  A constructor carries the resource, the field or the method its variant names; the
  human-readable \<open>message\<close> of a variant is text for logs and clients that no code reads, and
  is left out of the model.
\<close>

datatype error =
    NotFound string
  | AlreadyExists string
  | InvalidArgument string
  | FailedPrecondition
  | ResourceExhausted
  | Unavailable
  | Unimplemented string
  | Internal

type_synonym 'a result = "error + 'a"
type_synonym ('s, 'a) st_result = "(error + 'a) \<times> 's"

text \<open>\<open>Error::code\<close>: the canonical status name and the HTTP status.\<close>

fun error_code :: "error \<Rightarrow> string \<times> nat" where
  "error_code (NotFound _) = (''NOT_FOUND'', 404)"
| "error_code (AlreadyExists _) = (''ALREADY_EXISTS'', 409)"
| "error_code (InvalidArgument _) = (''INVALID_ARGUMENT'', 400)"
| "error_code FailedPrecondition = (''FAILED_PRECONDITION'', 400)"
| "error_code ResourceExhausted = (''RESOURCE_EXHAUSTED'', 429)"
| "error_code Unavailable = (''UNAVAILABLE'', 503)"
| "error_code (Unimplemented _) = (''UNIMPLEMENTED'', 501)"
| "error_code Internal = (''INTERNAL'', 500)"

end
