(* ===== verification/Kv.thy ===== *)
theory Kv
  imports Errors
begin

text \<open>
  The key/value storage interface, \<open>crates/open-pubusb-core/src/store/kv.rs\<close>: the operations
  of the \<open>KvStore\<close> trait as a record of functions over a store state \<open>'s\<close> (every component
  above takes such a record, as the Rust code is generic over \<open>K: KvStore\<close>), the laws they
  rely on as the locale \<open>kv_store\<close>, the in-memory store \<open>MemKv\<close> with its interpretation, and
  the two-backend store \<open>AnyKv\<close>. A write may fail with an error; \<open>kv_reliable\<close> adds that it
  does not.
\<close>

section \<open>The trait\<close>

record 's kv_ops =
  kv_get :: "'s \<Rightarrow> string \<Rightarrow> bytes \<Rightarrow> bytes option"
  kv_put :: "'s \<Rightarrow> string \<Rightarrow> bytes \<Rightarrow> bytes \<Rightarrow> ('s, unit) st_result"
  kv_delete :: "'s \<Rightarrow> string \<Rightarrow> bytes \<Rightarrow> ('s, unit) st_result"
  kv_scan_prefix :: "'s \<Rightarrow> string \<Rightarrow> bytes \<Rightarrow> (bytes \<times> bytes) list"
  kv_approx_disk_bytes :: "'s \<Rightarrow> u64"

text \<open>The keyspaces the code uses.\<close>

definition keyspaces :: "string set" where
  "keyspaces = {''meta'', ''msg'', ''sub'', ''dlv'', ''okey'', ''snap'', ''idx''}"

text \<open>The contents of a store, as one map.\<close>

definition kv_view :: "'s kv_ops \<Rightarrow> 's \<Rightarrow> string \<times> bytes \<Rightarrow> bytes option" where
  "kv_view K s = (\<lambda>(ks, k). kv_get K s ks k)"

section \<open>The in-memory store\<close>

type_synonym mem_kv = "(string \<times> bytes, bytes) hashmap"

definition mem_new :: mem_kv where
  "mem_new = []"

definition intern_keyspace :: "string \<Rightarrow> string" where
  "intern_keyspace ks =
     (if ks = ''meta'' then ''meta''
      else if ks = ''msg'' then ''msg''
      else if ks = ''sub'' then ''sub''
      else if ks = ''dlv'' then ''dlv''
      else if ks = ''okey'' then ''okey''
      else if ks = ''snap'' then ''snap''
      else if ks = ''idx'' then ''idx''
      else ''other'')"

definition mem_get :: "mem_kv \<Rightarrow> string \<Rightarrow> bytes \<Rightarrow> bytes option" where
  "mem_get m ks key = map_option snd (List.find (\<lambda>e. fst (fst e) = ks \<and> snd (fst e) = key) m)"

definition mem_put :: "mem_kv \<Rightarrow> string \<Rightarrow> bytes \<Rightarrow> bytes \<Rightarrow> (mem_kv, unit) st_result" where
  "mem_put m ks key v = (Inr (), hm_insert (intern_keyspace ks, key) v m)"

definition mem_delete :: "mem_kv \<Rightarrow> string \<Rightarrow> bytes \<Rightarrow> (mem_kv, unit) st_result" where
  "mem_delete m ks key = (Inr (), filter (\<lambda>e. \<not> (fst (fst e) = ks \<and> snd (fst e) = key)) m)"

definition mem_scan_prefix :: "mem_kv \<Rightarrow> string \<Rightarrow> bytes \<Rightarrow> (bytes \<times> bytes) list" where
  "mem_scan_prefix m ks p =
     sort_key fst (map (\<lambda>e. (snd (fst e), snd e))
       (filter (\<lambda>e. fst (fst e) = ks \<and> prefix p (snd (fst e))) m))"

definition mem_kv_ops :: "mem_kv kv_ops" where
  "mem_kv_ops =
     \<lparr>kv_get = mem_get, kv_put = mem_put, kv_delete = mem_delete,
      kv_scan_prefix = mem_scan_prefix, kv_approx_disk_bytes = (\<lambda>_. 0)\<rparr>"

section \<open>The store chosen at startup\<close>

datatype 'f any_kv = AnyMem mem_kv | AnyFjall 'f

definition map_st :: "('s \<Rightarrow> 't) \<Rightarrow> ('s, 'a) st_result \<Rightarrow> ('t, 'a) st_result" where
  "map_st f r = (fst r, f (snd r))"

fun any_get :: "'f kv_ops \<Rightarrow> 'f any_kv \<Rightarrow> string \<Rightarrow> bytes \<Rightarrow> bytes option" where
  "any_get F (AnyMem m) ks key = mem_get m ks key"
| "any_get F (AnyFjall f) ks key = kv_get F f ks key"

fun any_put :: "'f kv_ops \<Rightarrow> 'f any_kv \<Rightarrow> string \<Rightarrow> bytes \<Rightarrow> bytes \<Rightarrow> ('f any_kv, unit) st_result" where
  "any_put F (AnyMem m) ks key v = map_st AnyMem (mem_put m ks key v)"
| "any_put F (AnyFjall f) ks key v = map_st AnyFjall (kv_put F f ks key v)"

fun any_delete :: "'f kv_ops \<Rightarrow> 'f any_kv \<Rightarrow> string \<Rightarrow> bytes \<Rightarrow> ('f any_kv, unit) st_result" where
  "any_delete F (AnyMem m) ks key = map_st AnyMem (mem_delete m ks key)"
| "any_delete F (AnyFjall f) ks key = map_st AnyFjall (kv_delete F f ks key)"

fun any_scan_prefix :: "'f kv_ops \<Rightarrow> 'f any_kv \<Rightarrow> string \<Rightarrow> bytes \<Rightarrow> (bytes \<times> bytes) list" where
  "any_scan_prefix F (AnyMem m) ks p = mem_scan_prefix m ks p"
| "any_scan_prefix F (AnyFjall f) ks p = kv_scan_prefix F f ks p"

fun any_approx_disk_bytes :: "'f kv_ops \<Rightarrow> 'f any_kv \<Rightarrow> u64" where
  "any_approx_disk_bytes F (AnyMem m) = kv_approx_disk_bytes mem_kv_ops m"
| "any_approx_disk_bytes F (AnyFjall f) = kv_approx_disk_bytes F f"

definition any_kv_ops :: "'f kv_ops \<Rightarrow> 'f any_kv kv_ops" where
  "any_kv_ops F =
     \<lparr>kv_get = any_get F, kv_put = any_put F, kv_delete = any_delete F,
      kv_scan_prefix = any_scan_prefix F, kv_approx_disk_bytes = any_approx_disk_bytes F\<rparr>"

section \<open>The contract\<close>

text \<open>
  A successful write changes one entry; a failed one leaves the store with or without it; a
  scan lists the entries of a keyspace under a prefix, once each, in key order.
\<close>

locale kv_store =
  fixes K :: "'s kv_ops" and wf :: "'s \<Rightarrow> bool"
  assumes put_ok:
    "wf s \<Longrightarrow> ks \<in> keyspaces \<Longrightarrow> kv_put K s ks k v = (Inr u, s') \<Longrightarrow>
       wf s' \<and> kv_view K s' = (kv_view K s)((ks, k) \<mapsto> v)"
    and put_err:
    "wf s \<Longrightarrow> ks \<in> keyspaces \<Longrightarrow> kv_put K s ks k v = (Inl e, s') \<Longrightarrow>
       wf s' \<and> (kv_view K s' = kv_view K s \<or> kv_view K s' = (kv_view K s)((ks, k) \<mapsto> v))"
    and delete_ok:
    "wf s \<Longrightarrow> ks \<in> keyspaces \<Longrightarrow> kv_delete K s ks k = (Inr u, s') \<Longrightarrow>
       wf s' \<and> kv_view K s' = (kv_view K s)((ks, k) := None)"
    and delete_err:
    "wf s \<Longrightarrow> ks \<in> keyspaces \<Longrightarrow> kv_delete K s ks k = (Inl e, s') \<Longrightarrow>
       wf s' \<and> (kv_view K s' = kv_view K s \<or> kv_view K s' = (kv_view K s)((ks, k) := None))"
    and scan_set:
    "wf s \<Longrightarrow> ks \<in> keyspaces \<Longrightarrow>
       set (kv_scan_prefix K s ks p) = {(k, v). kv_view K s (ks, k) = Some v \<and> prefix p k}"
    and scan_sorted:
    "wf s \<Longrightarrow> ks \<in> keyspaces \<Longrightarrow> sorted_wrt (<) (map fst (kv_scan_prefix K s ks p))"

locale kv_reliable = kv_store +
  assumes put_total: "wf s \<Longrightarrow> ks \<in> keyspaces \<Longrightarrow> \<exists>s'. kv_put K s ks k v = (Inr (), s')"
    and delete_total: "wf s \<Longrightarrow> ks \<in> keyspaces \<Longrightarrow> \<exists>s'. kv_delete K s ks k = (Inr (), s')"

lemma keyspaces_simps [simp]:
  "''meta'' \<in> keyspaces" "''msg'' \<in> keyspaces" "''sub'' \<in> keyspaces" "''dlv'' \<in> keyspaces"
  "''okey'' \<in> keyspaces" "''snap'' \<in> keyspaces" "''idx'' \<in> keyspaces"
  by (simp_all add: keyspaces_def)

lemma kv_get_view: "kv_get K s ks k = kv_view K s (ks, k)"
  by (simp add: kv_view_def)

context kv_store
begin

lemma put_wf: "wf s \<Longrightarrow> ks \<in> keyspaces \<Longrightarrow> kv_put K s ks k v = (r, s') \<Longrightarrow> wf s'"
  using put_ok [of s ks k v _ s'] put_err [of s ks k v _ s'] by (cases r) blast+

lemma delete_wf: "wf s \<Longrightarrow> ks \<in> keyspaces \<Longrightarrow> kv_delete K s ks k = (r, s') \<Longrightarrow> wf s'"
  using delete_ok [of s ks k _ s'] delete_err [of s ks k _ s'] by (cases r) blast+

lemma put_other:
  assumes "wf s" and "ks \<in> keyspaces" and "kv_put K s ks k v = (r, s')" and "p \<noteq> (ks, k)"
  shows "kv_view K s' p = kv_view K s p"
  using assms put_ok [of s ks k v _ s'] put_err [of s ks k v _ s'] by (cases r) auto

lemma delete_other:
  assumes "wf s" and "ks \<in> keyspaces" and "kv_delete K s ks k = (r, s')" and "p \<noteq> (ks, k)"
  shows "kv_view K s' p = kv_view K s p"
  using assms delete_ok [of s ks k _ s'] delete_err [of s ks k _ s'] by (cases r) auto

lemma scan_mem:
  "wf s \<Longrightarrow> ks \<in> keyspaces \<Longrightarrow>
     (k, v) \<in> set (kv_scan_prefix K s ks p) \<longleftrightarrow> kv_view K s (ks, k) = Some v \<and> prefix p k"
  using scan_set by auto

lemma scan_distinct: "wf s \<Longrightarrow> ks \<in> keyspaces \<Longrightarrow> distinct (map fst (kv_scan_prefix K s ks p))"
  using scan_sorted strict_sorted_iff by blast

text \<open>The contract leaves one possible answer to a scan.\<close>

lemma scan_unique:
  assumes "wf s" and "ks \<in> keyspaces" and "sorted_wrt (<) (map fst xs)"
    and "set xs = {(k, v). kv_view K s (ks, k) = Some v \<and> prefix p k}"
  shows "kv_scan_prefix K s ks p = xs"
proof -
  let ?ys = "kv_scan_prefix K s ks p"
  have sets: "set ?ys = set xs"
    using assms scan_set by simp
  have srt: "sorted_wrt (<) (map fst ?ys)"
    using assms(1,2) by (rule scan_sorted)
  have "map fst ?ys = map fst xs"
    using srt assms(3) sets by (intro strict_sorted_equal) (simp_all del: set_map add: set_map)
  moreover have "distinct (map fst ?ys)"
    using srt strict_sorted_iff by blast
  ultimately show ?thesis
    using sets by (intro alist_eqI)
qed

end

section \<open>\<open>MemKv\<close> meets the contract\<close>

lemma intern_keyspace_id [simp]: "ks \<in> keyspaces \<Longrightarrow> intern_keyspace ks = ks"
  by (auto simp: keyspaces_def intern_keyspace_def)

lemma find_key_map_of:
  "map_option snd (List.find (\<lambda>e. fst (fst e) = ks \<and> snd (fst e) = k) m) = map_of m (ks, k)"
  by (induction m) auto

lemma mem_get_map_of: "mem_get m ks k = map_of m (ks, k)"
  by (simp add: mem_get_def find_key_map_of)

lemma mem_kv_ops_simps [simp]:
  "kv_get mem_kv_ops = mem_get"
  "kv_put mem_kv_ops = mem_put"
  "kv_delete mem_kv_ops = mem_delete"
  "kv_scan_prefix mem_kv_ops = mem_scan_prefix"
  by (simp_all add: mem_kv_ops_def)

lemma mem_view: "kv_view mem_kv_ops m = map_of m"
  by (auto simp: kv_view_def mem_get_map_of)

lemma map_of_filter_key:
  "map_of (filter (\<lambda>e. fst (fst e) = ks \<longrightarrow> snd (fst e) \<noteq> k) m) = (map_of m)((ks, k) := None)"
  by (induction m) (auto simp: fun_eq_iff)

lemma mem_scan_set:
  "hm_wf m \<Longrightarrow> set (mem_scan_prefix m ks p) = {(k, v). map_of m (ks, k) = Some v \<and> prefix p k}"
  by (force simp: mem_scan_prefix_def)

lemma mem_scan_sorted:
  assumes "hm_wf m"
  shows "sorted_wrt (<) (map fst (mem_scan_prefix m ks p))"
proof (unfold strict_sorted_iff, intro conjI)
  show "sorted (map fst (mem_scan_prefix m ks p))"
    by (simp add: mem_scan_prefix_def)
  let ?l = "filter (\<lambda>e. fst (fst e) = ks \<and> prefix p (snd (fst e))) m"
  have "distinct (map fst ?l)"
    using assms by (rule distinct_map_filter)
  moreover have "inj_on snd (set (map fst ?l))"
    by (auto simp: inj_on_def)
  ultimately have "distinct (map snd (map fst ?l))"
    by (simp only: distinct_map simp_thms)
  then have "distinct (map fst (map (\<lambda>e. (snd (fst e), snd e)) ?l))"
    by (simp add: comp_def)
  then show "distinct (map fst (mem_scan_prefix m ks p))"
    unfolding mem_scan_prefix_def
    by (metis (no_types, lifting) mset_map mset_sort distinct_count_atmost_1 mset_eq_imp_distinct_iff)
qed

interpretation mem: kv_reliable mem_kv_ops hm_wf
proof
  fix m :: mem_kv and ks k v and u :: unit and m' p
  show "set (kv_scan_prefix mem_kv_ops m ks p) = {(k, v). kv_view mem_kv_ops m (ks, k) = Some v \<and> prefix p k}"
    if "hm_wf m" using that by (simp add: mem_view mem_scan_set)
  show "sorted_wrt (<) (map fst (kv_scan_prefix mem_kv_ops m ks p))" if "hm_wf m"
    using that by (simp add: mem_scan_sorted)
  show "hm_wf m' \<and> kv_view mem_kv_ops m' = (kv_view mem_kv_ops m)((ks, k) \<mapsto> v)"
    if "hm_wf m" "ks \<in> keyspaces" "kv_put mem_kv_ops m ks k v = (Inr u, m')"
    using that by (auto simp: mem_view mem_put_def)
  show "hm_wf m' \<and> kv_view mem_kv_ops m' = (kv_view mem_kv_ops m)((ks, k) := None)"
    if "hm_wf m" "ks \<in> keyspaces" "kv_delete mem_kv_ops m ks k = (Inr u, m')"
    using that by (auto simp: mem_view mem_delete_def map_of_filter_key distinct_map_filter)
qed (simp_all add: mem_put_def mem_delete_def)

text \<open>A store that is chosen at startup is as good as the backend it may hold.\<close>

lemma any_kv_ops_simps [simp]:
  "kv_get (any_kv_ops F) = any_get F"
  "kv_put (any_kv_ops F) = any_put F"
  "kv_delete (any_kv_ops F) = any_delete F"
  "kv_scan_prefix (any_kv_ops F) = any_scan_prefix F"
  by (simp_all add: any_kv_ops_def)

lemma any_view [simp]:
  "kv_view (any_kv_ops F) (AnyMem m) = kv_view mem_kv_ops m"
  "kv_view (any_kv_ops F) (AnyFjall f) = kv_view F f"
  by (auto simp: kv_view_def)

lemma map_st_eq_iff [simp]: "map_st f r = (x, s') \<longleftrightarrow> (\<exists>s. r = (x, s) \<and> s' = f s)"
  by (cases r) (auto simp: map_st_def)

lemma any_kv_store:
  assumes "kv_store F fwf"
  shows "kv_store (any_kv_ops F) (case_any_kv hm_wf fwf)"
proof (rule kv_store.intro)
  let ?K = "any_kv_ops F" and ?wf = "case_any_kv hm_wf fwf"
  fix s s' ks k v p e and u :: unit
  assume wf: "?wf s" and ks: "ks \<in> keyspaces"
  show "?wf s' \<and> kv_view ?K s' = (kv_view ?K s)((ks, k) \<mapsto> v)"
    if "kv_put ?K s ks k v = (Inr u, s')"
    using that wf ks mem.put_ok kv_store.put_ok [OF assms] by (cases s) auto
  show "?wf s' \<and> (kv_view ?K s' = kv_view ?K s \<or> kv_view ?K s' = (kv_view ?K s)((ks, k) \<mapsto> v))"
    if "kv_put ?K s ks k v = (Inl e, s')"
    using that wf ks mem.put_err [of _ ks k v e] kv_store.put_err [OF assms, of _ ks k v e]
    by (cases s) fastforce+
  show "?wf s' \<and> kv_view ?K s' = (kv_view ?K s)((ks, k) := None)"
    if "kv_delete ?K s ks k = (Inr u, s')"
    using that wf ks mem.delete_ok kv_store.delete_ok [OF assms] by (cases s) auto
  show "?wf s' \<and> (kv_view ?K s' = kv_view ?K s \<or> kv_view ?K s' = (kv_view ?K s)((ks, k) := None))"
    if "kv_delete ?K s ks k = (Inl e, s')"
    using that wf ks mem.delete_err [of _ ks k e] kv_store.delete_err [OF assms, of _ ks k e]
    by (cases s) fastforce+
  show "set (kv_scan_prefix ?K s ks p) = {(k, v). kv_view ?K s (ks, k) = Some v \<and> prefix p k}"
    using wf ks mem.scan_set kv_store.scan_set [OF assms] by (cases s) auto
  show "sorted_wrt (<) (map fst (kv_scan_prefix ?K s ks p))"
    using wf ks mem.scan_sorted kv_store.scan_sorted [OF assms] by (cases s) auto
qed

section \<open>Properties\<close>

text \<open>
  The in-memory store is a map. On a well-formed store and a known keyspace a write
  succeeds and changes exactly the entry it names, a delete succeeds and removes exactly that
  entry, both keep the store well-formed, and a prefix scan lists exactly the entries of the
  keyspace under the prefix, in strictly increasing key order.
\<close>

theorem mem_kv_contract:
  assumes "hm_wf m" and "ks \<in> keyspaces"
  shows "(\<exists>m'. mem_put m ks k v = (Inr (), m') \<and> hm_wf m' \<and>
      (\<forall>ks' k'. mem_get m' ks' k' = (if ks' = ks \<and> k' = k then Some v else mem_get m ks' k'))) \<and>
    (\<exists>m'. mem_delete m ks k = (Inr (), m') \<and> hm_wf m' \<and>
      (\<forall>ks' k'. mem_get m' ks' k' = (if ks' = ks \<and> k' = k then None else mem_get m ks' k'))) \<and>
    set (mem_scan_prefix m ks p) = {(k', v'). mem_get m ks k' = Some v' \<and> prefix p k'} \<and>
    sorted_wrt (<) (map fst (mem_scan_prefix m ks p))"
proof (intro conjI)
  obtain m' where put: "kv_put mem_kv_ops m ks k v = (Inr (), m')"
    using mem.put_total [OF assms] by blast
  show "\<exists>m'. mem_put m ks k v = (Inr (), m') \<and> hm_wf m' \<and>
      (\<forall>ks' k'. mem_get m' ks' k' = (if ks' = ks \<and> k' = k then Some v else mem_get m ks' k'))"
    using put mem.put_ok [OF assms put] by (auto simp: mem_view mem_get_map_of)
  obtain m'' where del: "kv_delete mem_kv_ops m ks k = (Inr (), m'')"
    using mem.delete_total [OF assms] by blast
  show "\<exists>m'. mem_delete m ks k = (Inr (), m') \<and> hm_wf m' \<and>
      (\<forall>ks' k'. mem_get m' ks' k' = (if ks' = ks \<and> k' = k then None else mem_get m ks' k'))"
    using del mem.delete_ok [OF assms del] by (auto simp: mem_view mem_get_map_of)
  show "set (mem_scan_prefix m ks p) = {(k', v'). mem_get m ks k' = Some v' \<and> prefix p k'}"
    using mem.scan_set [OF assms, of p] by (simp add: mem_view mem_get_map_of)
  show "sorted_wrt (<) (map fst (mem_scan_prefix m ks p))"
    using mem.scan_sorted [OF assms, of p] by simp
qed

theorem mem_kv_contract_witness:
  "mem_get (snd (mem_put [((''msg'', [2]), [7])] ''msg'' [1] [9])) ''msg'' [1] = Some [9] \<and>
   mem_get (snd (mem_put [((''msg'', [2]), [7])] ''msg'' [1] [9])) ''msg'' [2] = Some [7]"
  using mem_kv_contract [of "[((''msg'', [2]), [7])]" "''msg''" "[1]" "[9]" "[]"]
  by (auto simp: mem_get_map_of)

text \<open>
  The store chosen at startup obeys the contract of a key/value store whenever the
  on-disk backend it may hold does: dispatching on the variant loses nothing.
\<close>

theorem any_kv_contract:
  assumes "kv_store F fwf"
  shows "kv_store (any_kv_ops F) (case_any_kv hm_wf fwf)"
  using assms by (rule any_kv_store)

theorem any_kv_contract_witness: "kv_store (any_kv_ops mem_kv_ops) (case_any_kv hm_wf hm_wf)"
  using any_kv_contract [OF mem.kv_store_axioms] .

end
