(* ===== verification/Limits.thy ===== *)
theory Limits
  imports Errors
begin

text \<open>
  The quota table and the request validators,
  \<open>crates/open-pubusb-core/src/limits.rs\<close>. Each validator is shown to accept exactly the
  documented range; \<open>validate_message\<close> is shown equivalent to a conjunction of bounds that
  does not depend on the iteration order of the attribute map.
\<close>

section \<open>Constants\<close>

definition MAX_MESSAGE_BYTES :: nat where "MAX_MESSAGE_BYTES = 10 * 1024 * 1024"
definition MAX_PUBLISH_BATCH_MESSAGES :: nat where "MAX_PUBLISH_BATCH_MESSAGES = 1000"
definition MAX_PUBLISH_BATCH_BYTES :: nat where "MAX_PUBLISH_BATCH_BYTES = 10 * 1024 * 1024"
definition MAX_ATTRIBUTES :: nat where "MAX_ATTRIBUTES = 100"
definition MAX_ATTRIBUTE_KEY_BYTES :: nat where "MAX_ATTRIBUTE_KEY_BYTES = 256"
definition MAX_ATTRIBUTE_VALUE_BYTES :: nat where "MAX_ATTRIBUTE_VALUE_BYTES = 1024"
definition MAX_ORDERING_KEY_BYTES :: nat where "MAX_ORDERING_KEY_BYTES = 1024"
definition MIN_ACK_DEADLINE_SECS :: int where "MIN_ACK_DEADLINE_SECS = 10"
definition MAX_ACK_DEADLINE_SECS :: int where "MAX_ACK_DEADLINE_SECS = 600"
definition MIN_SUBSCRIPTION_RETENTION_SECS :: int where "MIN_SUBSCRIPTION_RETENTION_SECS = 600"
definition MAX_SUBSCRIPTION_RETENTION_SECS :: int where
  "MAX_SUBSCRIPTION_RETENTION_SECS = 7 * 24 * 3600"
definition MIN_TOPIC_RETENTION_SECS :: int where "MIN_TOPIC_RETENTION_SECS = 600"
definition MAX_TOPIC_RETENTION_SECS :: int where "MAX_TOPIC_RETENTION_SECS = 31 * 24 * 3600"
definition MAX_SNAPSHOT_LIFETIME_SECS :: int where
  "MAX_SNAPSHOT_LIFETIME_SECS = MAX_SUBSCRIPTION_RETENTION_SECS"
definition MIN_SNAPSHOT_REMAINING_LIFETIME_SECS :: int where
  "MIN_SNAPSHOT_REMAINING_LIFETIME_SECS = 3600"
definition MIN_DEAD_LETTER_MAX_ATTEMPTS :: int where "MIN_DEAD_LETTER_MAX_ATTEMPTS = 5"
definition MAX_DEAD_LETTER_MAX_ATTEMPTS :: int where "MAX_DEAD_LETTER_MAX_ATTEMPTS = 100"
definition MIN_RETRY_BACKOFF_SECS :: int where "MIN_RETRY_BACKOFF_SECS = 0"
definition MAX_RETRY_BACKOFF_SECS :: int where "MAX_RETRY_BACKOFF_SECS = 600"
definition MAX_FILTER_CHARS :: nat where "MAX_FILTER_CHARS = 256"
definition MIN_PULL_MAX_MESSAGES :: int where "MIN_PULL_MAX_MESSAGES = 1"
definition MAX_PULL_MAX_MESSAGES :: int where "MAX_PULL_MAX_MESSAGES = 1000"
definition ATTRIBUTE_KEY_FORBIDDEN_PREFIX :: string where
  "ATTRIBUTE_KEY_FORBIDDEN_PREFIX = ''goog''"

lemmas limit_defs =
  MAX_MESSAGE_BYTES_def MAX_PUBLISH_BATCH_MESSAGES_def MAX_PUBLISH_BATCH_BYTES_def
  MAX_ATTRIBUTES_def MAX_ATTRIBUTE_KEY_BYTES_def MAX_ATTRIBUTE_VALUE_BYTES_def
  MAX_ORDERING_KEY_BYTES_def MIN_ACK_DEADLINE_SECS_def MAX_ACK_DEADLINE_SECS_def
  MIN_SUBSCRIPTION_RETENTION_SECS_def MAX_SUBSCRIPTION_RETENTION_SECS_def
  MIN_TOPIC_RETENTION_SECS_def MAX_TOPIC_RETENTION_SECS_def MAX_SNAPSHOT_LIFETIME_SECS_def
  MIN_SNAPSHOT_REMAINING_LIFETIME_SECS_def MIN_DEAD_LETTER_MAX_ATTEMPTS_def
  MAX_DEAD_LETTER_MAX_ATTEMPTS_def MIN_RETRY_BACKOFF_SECS_def MAX_RETRY_BACKOFF_SECS_def
  MAX_FILTER_CHARS_def MIN_PULL_MAX_MESSAGES_def MAX_PULL_MAX_MESSAGES_def
  ATTRIBUTE_KEY_FORBIDDEN_PREFIX_def

section \<open>Validators\<close>

text \<open>The loop of \<open>validate_message\<close> over the attributes: the bytes they take, or an error.\<close>

fun validate_attributes :: "nat \<Rightarrow> attributes \<Rightarrow> nat result" where
  "validate_attributes acc [] = Inr acc"
| "validate_attributes acc ((key, value) # rest) =
     (if length key > MAX_ATTRIBUTE_KEY_BYTES then Inl (InvalidArgument ''attributes.key'')
      else if prefix ATTRIBUTE_KEY_FORBIDDEN_PREFIX key then Inl (InvalidArgument ''attributes.key'')
      else if length value > MAX_ATTRIBUTE_VALUE_BYTES then Inl (InvalidArgument ''attributes.value'')
      else validate_attributes (usize_sat_add (usize_sat_add acc (length key)) (length value)) rest)"

definition validate_message :: "nat \<Rightarrow> attributes \<Rightarrow> string \<Rightarrow> unit result" where
  "validate_message data_len attributes ordering_key =
     (if length attributes > MAX_ATTRIBUTES then Inl (InvalidArgument ''attributes'')
      else bind_r (validate_attributes 0 attributes) (\<lambda>attributes_bytes.
        let total_bytes = usize_sat_add data_len attributes_bytes in
        if total_bytes > MAX_MESSAGE_BYTES then Inl (InvalidArgument ''data'')
        else if length ordering_key > MAX_ORDERING_KEY_BYTES then Inl (InvalidArgument ''ordering_key'')
        else Inr ()))"

definition validate_publish_batch :: "nat \<Rightarrow> nat \<Rightarrow> unit result" where
  "validate_publish_batch message_count total_bytes =
     (if message_count > MAX_PUBLISH_BATCH_MESSAGES then Inl (InvalidArgument ''messages'')
      else if total_bytes > MAX_PUBLISH_BATCH_BYTES then Inl (InvalidArgument ''messages'')
      else Inr ())"

definition validate_ack_deadline_secs :: "int \<Rightarrow> unit result" where
  "validate_ack_deadline_secs v =
     (if \<not> (MIN_ACK_DEADLINE_SECS \<le> v \<and> v \<le> MAX_ACK_DEADLINE_SECS)
      then Inl (InvalidArgument ''ack_deadline_seconds'') else Inr ())"

definition validate_subscription_retention_secs :: "int \<Rightarrow> unit result" where
  "validate_subscription_retention_secs v =
     (if \<not> (MIN_SUBSCRIPTION_RETENTION_SECS \<le> v \<and> v \<le> MAX_SUBSCRIPTION_RETENTION_SECS)
      then Inl (InvalidArgument ''message_retention_duration'') else Inr ())"

definition validate_topic_retention_secs :: "int \<Rightarrow> unit result" where
  "validate_topic_retention_secs v =
     (if \<not> (MIN_TOPIC_RETENTION_SECS \<le> v \<and> v \<le> MAX_TOPIC_RETENTION_SECS)
      then Inl (InvalidArgument ''message_retention_duration'') else Inr ())"

definition validate_dead_letter_max_attempts :: "int \<Rightarrow> unit result" where
  "validate_dead_letter_max_attempts v =
     (if v \<noteq> 0 \<and> \<not> (MIN_DEAD_LETTER_MAX_ATTEMPTS \<le> v \<and> v \<le> MAX_DEAD_LETTER_MAX_ATTEMPTS)
      then Inl (InvalidArgument ''dead_letter_policy.max_delivery_attempts'') else Inr ())"

definition validate_retry_backoff_secs :: "int \<Rightarrow> unit result" where
  "validate_retry_backoff_secs v =
     (if \<not> (MIN_RETRY_BACKOFF_SECS \<le> v \<and> v \<le> MAX_RETRY_BACKOFF_SECS)
      then Inl (InvalidArgument ''retry_policy.backoff'') else Inr ())"

definition validate_filter_len :: "string \<Rightarrow> unit result" where
  "validate_filter_len flt =
     (if char_count flt > MAX_FILTER_CHARS then Inl (InvalidArgument ''filter'') else Inr ())"

definition validate_pull_max_messages :: "int \<Rightarrow> unit result" where
  "validate_pull_max_messages v =
     (if \<not> (MIN_PULL_MAX_MESSAGES \<le> v \<and> v \<le> MAX_PULL_MAX_MESSAGES)
      then Inl (InvalidArgument ''max_messages'') else Inr ())"

lemmas validate_defs =
  validate_publish_batch_def validate_ack_deadline_secs_def
  validate_subscription_retention_secs_def validate_topic_retention_secs_def
  validate_dead_letter_max_attempts_def validate_retry_backoff_secs_def
  validate_filter_len_def validate_pull_max_messages_def

section \<open>What a valid message is\<close>

definition valid_attribute :: "string \<times> string \<Rightarrow> bool" where
  "valid_attribute a \<longleftrightarrow>
     length (fst a) \<le> 256 \<and> \<not> prefix ''goog'' (fst a) \<and> length (snd a) \<le> 1024"

definition attributes_size :: "attributes \<Rightarrow> nat" where
  "attributes_size as = sum_list (map (\<lambda>a. length (fst a) + length (snd a)) as)"

definition valid_message :: "nat \<Rightarrow> attributes \<Rightarrow> string \<Rightarrow> bool" where
  "valid_message data_len attributes ordering_key \<longleftrightarrow>
     length attributes \<le> 100 \<and> (\<forall>a \<in> set attributes. valid_attribute a) \<and>
     data_len + attributes_size attributes \<le> 10485760 \<and> length ordering_key \<le> 1024"

lemma attributes_size_simps [simp]:
  "attributes_size [] = 0"
  "attributes_size (a # as) = length (fst a) + length (snd a) + attributes_size as"
  by (simp_all add: attributes_size_def)

lemma usize_sat_add_assoc_min:
  "usize_sat_add (usize_sat_add (min usize_max a) b) c = min usize_max (a + b + c)"
  by (simp add: usize_sat_add_def min_def)

lemma validate_attributes_eq:
  "validate_attributes (min usize_max acc) as = Inr n \<longleftrightarrow>
     (\<forall>a \<in> set as. valid_attribute a) \<and> n = min usize_max (acc + attributes_size as)"
proof (induction as arbitrary: acc)
  case (Cons a as)
  obtain k v where a: "a = (k, v)" by (cases a)
  have step: "validate_attributes (min usize_max acc) (a # as) =
      (if valid_attribute a then validate_attributes (min usize_max (acc + length k + length v)) as
       else validate_attributes (min usize_max acc) [a])"
    by (simp add: a usize_sat_add_assoc_min valid_attribute_def limit_defs not_less)
  have bad: "\<not> valid_attribute a \<Longrightarrow> validate_attributes (min usize_max acc) [a] \<noteq> Inr n"
    by (auto simp: a valid_attribute_def limit_defs)
  show ?case
    using bad by (simp add: step Cons.IH) (simp add: a algebra_simps)
qed auto

lemma validate_message_ok:
  "validate_message data_len attributes ordering_key = Inr () \<longleftrightarrow>
     valid_message data_len attributes ordering_key"
proof -
  have "usize_sat_add data_len (min usize_max n) \<le> 10485760 \<longleftrightarrow> data_len + n \<le> 10485760" for n
    by (auto simp: usize_sat_add_def usize_max_def min_def)
  moreover have "validate_attributes 0 attributes = Inr n \<longleftrightarrow>
      (\<forall>a \<in> set attributes. valid_attribute a) \<and> n = min usize_max (attributes_size attributes)" for n
    using validate_attributes_eq [of 0] by simp
  ultimately show ?thesis
    by (simp add: validate_message_def valid_message_def bind_r_Inr_iff limit_defs Let_def
        not_le not_less [symmetric] cong: conj_cong)
qed

text \<open>The acceptance of a message does not depend on the order its attributes are visited in.\<close>

lemma valid_message_perm:
  assumes "mset as = mset bs"
  shows "valid_message n as ok \<longleftrightarrow> valid_message n bs ok"
proof -
  have "length as = length bs" "set as = set bs"
    using assms by (auto dest: mset_eq_length mset_eq_setD)
  moreover have "attributes_size as = attributes_size bs"
    using assms by (simp add: attributes_size_def flip: sum_mset_sum_list)
  ultimately show ?thesis
    by (simp add: valid_message_def)
qed

section \<open>Properties\<close>

text \<open>
  C15: a message passes validation exactly when it has at most 100 attributes, every key is at
  most 256 bytes and does not start with \<open>goog\<close>, every value is at most 1024 bytes, payload and
  attributes together are at most 10 MiB (the saturating sum never hides an overflow) and the
  ordering key is at most 1024 bytes.
\<close>

theorem validate_message_iff:
  "validate_message data_len attributes ordering_key = Inr () \<longleftrightarrow>
     length attributes \<le> 100 \<and>
     (\<forall>a \<in> set attributes. length (fst a) \<le> 256 \<and> \<not> prefix ''goog'' (fst a) \<and> length (snd a) \<le> 1024) \<and>
     data_len + sum_list (map (\<lambda>a. length (fst a) + length (snd a)) attributes) \<le> 10485760 \<and>
     length ordering_key \<le> 1024"
  by (simp add: validate_message_ok valid_message_def valid_attribute_def attributes_size_def)

theorem validate_message_iff_witness:
  "validate_message 3 [(''k'', ''v'')] ''o'' = Inr () \<and>
   validate_message 3 [(''googk'', ''v'')] ''o'' \<noteq> Inr ()"
  by (simp add: validate_message_iff)

end
