(* ===== verification/Sub_Filter.thy ===== *)
theory Sub_Filter
  imports Limits
begin

text \<open>
  Subscription filters, \<open>crates/open-pubusb-core/src/filter/\<close>: the syntax tree
  (\<open>ast.rs\<close>), its evaluation against message attributes (\<open>eval.rs\<close>), the construction of the
  tree from the parser's pairs (\<open>parser.rs\<close>) and \<open>compile\<close> (\<open>mod.rs\<close>). The pair tree itself is
  produced by code that \<open>pest_derive\<close> generates from \<open>grammar.pest\<close>; it is a parameter
  \<open>pest\<close> here, and the facts about \<open>build_expr\<close> hold for every tree of the shape the grammar
  prescribes.
\<close>

section \<open>Syntax tree and evaluation\<close>

datatype compare_op = CmpEq | CmpNe

datatype expr =
    Compare string compare_op string
  | HasAttr string
  | HasPrefix string string
  | NotE expr
  | AndE "expr list"
  | OrE "expr list"

fun expr_matches :: "expr \<Rightarrow> attributes \<Rightarrow> bool" where
  "expr_matches (Compare attr op val) attrs =
     (case map_of attrs attr of
        None \<Rightarrow> False
      | Some actual \<Rightarrow> (case op of CmpEq \<Rightarrow> actual = val | CmpNe \<Rightarrow> actual \<noteq> val))"
| "expr_matches (HasAttr attr) attrs = (map_of attrs attr \<noteq> None)"
| "expr_matches (HasPrefix attr pre) attrs =
     (case map_of attrs attr of None \<Rightarrow> False | Some v \<Rightarrow> prefix pre v)"
| "expr_matches (NotE inner) attrs = (\<not> expr_matches inner attrs)"
| "expr_matches (AndE operands) attrs = list_all (\<lambda>e. expr_matches e attrs) operands"
| "expr_matches (OrE operands) attrs = list_ex (\<lambda>e. expr_matches e attrs) operands"

datatype compiled_filter = CompiledFilter expr

fun filter_matches :: "compiled_filter \<Rightarrow> attributes \<Rightarrow> bool" where
  "filter_matches (CompiledFilter e) attrs = expr_matches e attrs"

section \<open>Unescaping\<close>

text \<open>\<open>char::to_digit(16)\<close>.\<close>

definition hex_digit :: "char \<Rightarrow> nat option" where
  "hex_digit c =
     (if CHR ''0'' \<le> c \<and> c \<le> CHR ''9'' then Some (of_char c - 48)
      else if CHR ''a'' \<le> c \<and> c \<le> CHR ''f'' then Some (of_char c - 87)
      else if CHR ''A'' \<le> c \<and> c \<le> CHR ''F'' then Some (of_char c - 55)
      else None)"

fun hex_value :: "nat \<Rightarrow> string \<Rightarrow> nat option" where
  "hex_value acc [] = Some acc"
| "hex_value acc (c # cs) =
     (case hex_digit c of None \<Rightarrow> None | Some d \<Rightarrow> hex_value (acc * 16 + d) cs)"

text \<open>\<open>u32::from_str_radix(_, 16)\<close> on at most four characters, so it cannot overflow: a leading
  plus sign is accepted when digits follow it.\<close>

definition from_hex :: "string \<Rightarrow> nat option" where
  "from_hex s =
     (case s of
        [] \<Rightarrow> None
      | c # cs \<Rightarrow>
          if c = CHR ''+'' then (if cs = [] then None else hex_value 0 cs)
          else hex_value 0 s)"

text \<open>\<open>char::from_u32\<close> on a value below \<open>2 ^ 16\<close>, and the UTF-8 bytes \<open>String::push\<close> adds.\<close>

definition push_code :: "nat \<Rightarrow> string option" where
  "push_code n =
     (if 0xD800 \<le> n \<and> n < 0xE000 then None
      else if n < 0x80 then Some [char_of n]
      else if n < 0x800 then Some [char_of (0xC0 + n div 64), char_of (0x80 + n mod 64)]
      else Some [char_of (0xE0 + n div 4096), char_of (0x80 + (n div 64) mod 64),
                 char_of (0x80 + n mod 64)])"

definition CHR_backslash :: char where "CHR_backslash = CHR 0x5C"
definition CHR_quote :: char where "CHR_quote = CHR 0x22"

fun unescape :: "string \<Rightarrow> string result" where
  "unescape [] = Inr []"
| "unescape (c # cs) =
     (if c \<noteq> CHR_backslash then bind_r (unescape cs) (\<lambda>out. Inr (c # out))
      else (case cs of
        [] \<Rightarrow> Inl (InvalidArgument ''filter'')
      | e # rest \<Rightarrow>
          if e = CHR_quote then bind_r (unescape rest) (\<lambda>out. Inr (CHR_quote # out))
          else if e = CHR_backslash then bind_r (unescape rest) (\<lambda>out. Inr (CHR_backslash # out))
          else if e = CHR ''n'' then bind_r (unescape rest) (\<lambda>out. Inr (CHR 0x0A # out))
          else if e = CHR ''t'' then bind_r (unescape rest) (\<lambda>out. Inr (CHR 0x09 # out))
          else if e = CHR ''u'' then
            (case from_hex (take 4 rest) of
               None \<Rightarrow> Inl (InvalidArgument ''filter'')
             | Some code \<Rightarrow>
                 (case push_code code of
                    None \<Rightarrow> Inl (InvalidArgument ''filter'')
                  | Some u \<Rightarrow> bind_r (unescape (drop 4 rest)) (\<lambda>out. Inr (u @ out))))
          else Inl (InvalidArgument ''filter'')))"

section \<open>From pairs to the syntax tree\<close>

datatype rule =
    R_filter | R_EOI | R_expr | R_and_chain | R_or_chain | R_unary | R_negation | R_primary
  | R_comparison | R_compare_op | R_has_attr | R_function | R_attribute | R_key | R_identifier
  | R_string | R_string_inner

datatype pair = PestPair (as_rule: rule) (pair_str: string) (into_inner: "pair list")

abbreviation invalid :: "'a result" where
  "invalid \<equiv> Inl (InvalidArgument ''filter'')"

definition next_pair :: "pair list \<Rightarrow> pair result" where
  "next_pair ps = (case ps of [] \<Rightarrow> invalid | p # _ \<Rightarrow> Inr p)"

definition build_string :: "pair \<Rightarrow> string result" where
  "build_string p = bind_r (next_pair (into_inner p)) (\<lambda>raw. unescape (pair_str raw))"

definition build_key :: "pair \<Rightarrow> string result" where
  "build_key p = bind_r (next_pair (into_inner p)) (\<lambda>inner.
     case as_rule inner of
       R_identifier \<Rightarrow> Inr (pair_str inner)
     | R_string \<Rightarrow> build_string inner
     | _ \<Rightarrow> invalid)"

definition build_attribute :: "pair \<Rightarrow> string result" where
  "build_attribute p = bind_r (next_pair (into_inner p)) build_key"

definition build_comparison :: "pair \<Rightarrow> expr result" where
  "build_comparison p =
     (let inner = into_inner p in
      bind_r (next_pair inner) (\<lambda>a.
      bind_r (build_attribute a) (\<lambda>attr.
      bind_r (next_pair (tl inner)) (\<lambda>op_pair.
      bind_r (if pair_str op_pair = ''='' then Inr CmpEq
              else if pair_str op_pair = ''!='' then Inr CmpNe
              else invalid) (\<lambda>op.
      bind_r (next_pair (tl (tl inner))) (\<lambda>v.
      bind_r (build_string v) (\<lambda>val.
      Inr (Compare attr op val))))))))"

definition build_has_attr :: "pair \<Rightarrow> expr result" where
  "build_has_attr p = bind_r (next_pair (into_inner p)) (\<lambda>key_pair.
     bind_r (build_key key_pair) (\<lambda>attr. Inr (HasAttr attr)))"

definition build_function :: "pair \<Rightarrow> expr result" where
  "build_function p =
     (let inner = into_inner p in
      bind_r (next_pair inner) (\<lambda>a.
      bind_r (build_attribute a) (\<lambda>attr.
      bind_r (next_pair (tl inner)) (\<lambda>s.
      bind_r (build_string s) (\<lambda>pre.
      Inr (HasPrefix attr pre))))))"

text \<open>The loop of \<open>build_unary\<close>: whether a negation was seen, and the last primary.\<close>

fun unary_parts :: "bool \<Rightarrow> pair option \<Rightarrow> pair list \<Rightarrow> (bool \<times> pair option) result" where
  "unary_parts negated primary_pair [] = Inr (negated, primary_pair)"
| "unary_parts negated primary_pair (p # ps) =
     (case as_rule p of
        R_negation \<Rightarrow> unary_parts True primary_pair ps
      | R_primary \<Rightarrow> unary_parts negated (Some p) ps
      | _ \<Rightarrow> invalid)"

lemma unary_parts_mem:
  "unary_parts neg prim ps = Inr (neg', Some p) \<Longrightarrow> p \<in> set ps \<or> prim = Some p"
  by (induction ps arbitrary: neg prim) (auto split: rule.splits)

lemma pair_inner_size: "q \<in> set (into_inner p) \<Longrightarrow> size q < size p"
  by (cases p) (auto dest: size_list_estimation' [of _ _ "size q" size, OF _ order_refl])

lemma next_pair_size: "next_pair (into_inner p) = Inr q \<Longrightarrow> size q < size p"
  by (auto simp: next_pair_def pair_inner_size split: list.splits)

function (sequential) build_expr :: "pair \<Rightarrow> expr result"
  and build_unaries :: "pair list \<Rightarrow> expr list result"
  and build_unary :: "pair \<Rightarrow> expr result"
  and build_primary :: "pair \<Rightarrow> expr result" where
  "build_expr (PestPair r s []) = invalid"
| "build_expr (PestPair r s [first_unary]) = build_unary first_unary"
| "build_expr (PestPair r s (first_unary # chain # more)) =
     bind_r (build_unary first_unary) (\<lambda>first.
     bind_r (build_unaries (into_inner chain)) (\<lambda>operands.
       case as_rule chain of
         R_and_chain \<Rightarrow> Inr (AndE (first # operands))
       | R_or_chain \<Rightarrow> Inr (OrE (first # operands))
       | _ \<Rightarrow> invalid))"
| "build_unaries [] = Inr []"
| "build_unaries (p # ps) =
     bind_r (build_unary p) (\<lambda>e. bind_r (build_unaries ps) (\<lambda>es. Inr (e # es)))"
| "build_unary p =
     bind_r (unary_parts False None (into_inner p)) (\<lambda>(negated, primary_pair).
       case primary_pair of
         None \<Rightarrow> invalid
       | Some q \<Rightarrow> bind_r (build_primary q) (\<lambda>e. Inr (if negated then NotE e else e)))"
| "build_primary p = bind_r (next_pair (into_inner p)) (\<lambda>inner.
     case as_rule inner of
       R_comparison \<Rightarrow> build_comparison inner
     | R_has_attr \<Rightarrow> build_has_attr inner
     | R_function \<Rightarrow> build_function inner
     | R_expr \<Rightarrow> build_expr inner
     | _ \<Rightarrow> invalid)"
  by pat_completeness auto
termination
proof (relation "measure (case_sum (case_sum size (size_list size)) (case_sum size size))",
    goal_cases)
  case (4 s r first_unary chain more a)
  then show ?case by (cases chain) simp
next
  case (7 p x neg prim q)
  then show ?case
    using unary_parts_mem [of False None "into_inner p"] pair_inner_size [of q p] by auto
qed (auto simp: next_pair_size)

section \<open>Parsing and compiling\<close>

text \<open>\<open>pest\<close> is the generated \<open>FilterGrammar::parse(Rule::filter, _)\<close>: the pairs, or a syntax
  error.\<close>

definition filter_parse :: "(string \<Rightarrow> pair list option) \<Rightarrow> string \<Rightarrow> expr result" where
  "filter_parse pest input =
     (if char_count input > MAX_FILTER_CHARS then invalid
      else bind_r (ok_or (pest input) (InvalidArgument ''filter'')) (\<lambda>pairs.
           bind_r (next_pair pairs) (\<lambda>filter_pair.
           bind_r (ok_or (List.find (\<lambda>p. as_rule p = R_expr) (into_inner filter_pair))
                     (InvalidArgument ''filter'')) build_expr)))"

text \<open>\<open>trim().is_empty()\<close>: every character is Unicode white space, read off the UTF-8 bytes.\<close>

fun all_whitespace :: "nat list \<Rightarrow> bool" where
  "all_whitespace [] = True"
| "all_whitespace (b # bs) =
     (if (9 \<le> b \<and> b \<le> 13) \<or> b = 32 then all_whitespace bs
      else (case bs of
        b2 # bs2 \<Rightarrow>
          if b = 0xC2 \<and> (b2 = 0x85 \<or> b2 = 0xA0) then all_whitespace bs2
          else (case bs2 of
            b3 # bs3 \<Rightarrow>
              if (b = 0xE1 \<and> b2 = 0x9A \<and> b3 = 0x80)
                 \<or> (b = 0xE2 \<and> b2 = 0x80 \<and> (0x80 \<le> b3 \<and> b3 \<le> 0x8A \<or> b3 \<in> {0xA8, 0xA9, 0xAF}))
                 \<or> (b = 0xE2 \<and> b2 = 0x81 \<and> b3 = 0x9F)
                 \<or> (b = 0xE3 \<and> b2 = 0x80 \<and> b3 = 0x80)
              then all_whitespace bs3 else False
          | [] \<Rightarrow> False)
      | [] \<Rightarrow> False))"

definition filter_compile :: "(string \<Rightarrow> pair list option) \<Rightarrow> string \<Rightarrow> compiled_filter option result" where
  "filter_compile pest flt =
     (if all_whitespace (map of_char flt) then Inr None
      else bind_r (filter_parse pest flt) (\<lambda>e. Inr (Some (CompiledFilter e))))"

section \<open>What a pair tree means\<close>

text \<open>
  The trees of \<open>grammar.pest\<close>, rule by rule, with the expression each stands for. The text
  of an inner node is irrelevant; a leaf is read through \<open>unescape\<close>.
\<close>

inductive means_string :: "pair \<Rightarrow> string \<Rightarrow> bool" where
  "unescape raw = Inr s \<Longrightarrow> means_string (PestPair R_string t [PestPair R_string_inner raw []]) s"

inductive means_key :: "pair \<Rightarrow> string \<Rightarrow> bool" where
  "means_key (PestPair R_key t [PestPair R_identifier k []]) k"
| "means_string p k \<Longrightarrow> means_key (PestPair R_key t [p]) k"

inductive means_attribute :: "pair \<Rightarrow> string \<Rightarrow> bool" where
  "means_key p k \<Longrightarrow> means_attribute (PestPair R_attribute t [p]) k"

fun op_text :: "compare_op \<Rightarrow> string" where
  "op_text CmpEq = ''=''"
| "op_text CmpNe = ''!=''"

inductive means_expr :: "pair \<Rightarrow> expr \<Rightarrow> bool"
  and means_unary :: "pair \<Rightarrow> expr \<Rightarrow> bool"
  and means_unaries :: "pair list \<Rightarrow> expr list \<Rightarrow> bool"
  and means_primary :: "pair \<Rightarrow> expr \<Rightarrow> bool" where
  single: "means_unary u e \<Longrightarrow> means_expr (PestPair R_expr t [u]) e"
| conj: "means_unary u e \<Longrightarrow> means_unaries us es \<Longrightarrow> us \<noteq> [] \<Longrightarrow>
    means_expr (PestPair R_expr t [u, PestPair R_and_chain t' us]) (AndE (e # es))"
| disj: "means_unary u e \<Longrightarrow> means_unaries us es \<Longrightarrow> us \<noteq> [] \<Longrightarrow>
    means_expr (PestPair R_expr t [u, PestPair R_or_chain t' us]) (OrE (e # es))"
| nil: "means_unaries [] []"
| cons: "means_unary u e \<Longrightarrow> means_unaries us es \<Longrightarrow> means_unaries (u # us) (e # es)"
| plain: "means_primary p e \<Longrightarrow> means_unary (PestPair R_unary t [p]) e"
| neg: "means_primary p e \<Longrightarrow> means_unary (PestPair R_unary t [PestPair R_negation t' [], p]) (NotE e)"
| compare: "means_attribute a k \<Longrightarrow> means_string v s \<Longrightarrow>
    means_primary (PestPair R_primary t
      [PestPair R_comparison t' [a, PestPair R_compare_op (op_text op) [], v]]) (Compare k op s)"
| has_attr: "means_key p k \<Longrightarrow> means_primary (PestPair R_primary t [PestPair R_has_attr t' [p]]) (HasAttr k)"
| has_prefix: "means_attribute a k \<Longrightarrow> means_string v s \<Longrightarrow>
    means_primary (PestPair R_primary t [PestPair R_function t' [a, v]]) (HasPrefix k s)"
| parens: "means_expr p e \<Longrightarrow> means_primary (PestPair R_primary t [p]) e"

inductive_cases means_expr_rule: "means_expr p e"
inductive_cases means_primary_rule: "means_primary p e"
inductive_cases means_string_rule: "means_string p s"

lemma build_string_means: "means_string p s \<Longrightarrow> build_string p = Inr s"
  by (auto simp: build_string_def next_pair_def elim: means_string_rule)

lemma means_string_is_string: "means_string p s \<Longrightarrow> as_rule p = R_string"
  by (auto elim: means_string_rule)

lemma build_key_means: "means_key p k \<Longrightarrow> build_key p = Inr k"
  by (induction rule: means_key.induct)
    (simp_all add: build_key_def next_pair_def build_string_means means_string_is_string)

lemma build_attribute_means: "means_attribute p k \<Longrightarrow> build_attribute p = Inr k"
  by (induction rule: means_attribute.induct)
    (simp add: build_attribute_def next_pair_def build_key_means)

lemma build_comparison_means:
  "means_attribute a k \<Longrightarrow> means_string v s \<Longrightarrow>
     build_comparison (PestPair r t [a, PestPair r' (op_text op) ps, v]) = Inr (Compare k op s)"
  by (cases op) (simp_all add: build_comparison_def next_pair_def build_attribute_means build_string_means)

lemma means_expr_is_expr: "means_expr p e \<Longrightarrow> as_rule p = R_expr"
  by (auto elim: means_expr_rule)

lemma means_primary_is_primary: "means_primary p e \<Longrightarrow> as_rule p = R_primary"
  by (auto elim: means_primary_rule)

lemma build_means:
  "means_expr p e \<Longrightarrow> build_expr p = Inr e"
  "means_unary p e \<Longrightarrow> build_unary p = Inr e"
  "means_unaries ps es \<Longrightarrow> build_unaries ps = Inr es"
  "means_primary p e \<Longrightarrow> build_primary p = Inr e"
proof (induction rule: means_expr_means_unary_means_unaries_means_primary.inducts)
  case (compare a k v s t t' op)
  then show ?case
    by (simp add: next_pair_def build_comparison_means)
qed (auto simp: next_pair_def build_has_attr_def build_function_def build_key_means
    build_attribute_means build_string_means means_expr_is_expr means_primary_is_primary)

section \<open>Escaping\<close>

text \<open>The canonical spelling of a string literal, which every string has.\<close>

definition escape_text :: "string \<Rightarrow> string" where
  "escape_text s =
     concat (map (\<lambda>c. if c = CHR_quote \<or> c = CHR_backslash then [CHR_backslash, c] else [c]) s)"

lemma unescape_escape_text: "unescape (escape_text s) = Inr s"
  by (induction s) (auto simp: escape_text_def CHR_quote_def CHR_backslash_def)

text \<open>Evaluation reads the attributes only as a map.\<close>

lemma expr_matches_map_of: "map_of a = map_of b \<Longrightarrow> expr_matches e a \<longleftrightarrow> expr_matches e b"
  by (induction e) (auto simp: list_all_iff list_ex_iff)

section \<open>Properties\<close>

text \<open>
  C16: the builder turns every parse tree of the filter grammar into the expression the tree
  stands for: conjunctions and disjunctions keep their operands in order, a negation applies to
  its primary only, and attribute keys and string literals are read with their escapes undone.
\<close>

theorem filter_build_correct:
  assumes "means_expr p e"
  shows "build_expr p = Inr e"
  using assms by (rule build_means)

theorem filter_build_correct_witness:
  "build_expr (PestPair R_expr [] [PestPair R_unary [] [PestPair R_negation [] [],
     PestPair R_primary [] [PestPair R_has_attr [] [PestPair R_key [] [PestPair R_identifier ''a'' []]]]]])
   = Inr (NotE (HasAttr ''a''))"
  by (rule filter_build_correct)
    (intro means_expr_means_unary_means_unaries_means_primary.intros means_key.intros)

text \<open>Every string can be written as a literal, and reading it undoes the escaping.\<close>

theorem filter_literal_roundtrip: "unescape (escape_text s) = Inr s"
  by (rule unescape_escape_text)

end
