(* ===== verification/Registry.thy ===== *)
theory Registry
  imports Keys Kv Codec
begin

text \<open>
  What the topic, subscription and snapshot stores have in common: a resource has a row under
  its numeric id and an index row that maps its full name to the id, both in the \<open>meta\<close>
  keyspace, and ids come from one shared counter. The locale \<open>registry\<close> states the contract of
  such a pair of rows on the contents of a store, and its lemmas are what the create, update,
  delete and lookup lemmas of the three stores rest on. The stores' own operations are in
  \<open>Topic\<close>, \<open>Subscription\<close> and \<open>Snapshot\<close>, with one interpretation each.

  The pagination code the topic and snapshot stores share is here too.
\<close>

type_synonym view = "string \<times> bytes \<Rightarrow> bytes option"

section \<open>The shared counter\<close>

definition counter_value :: "view \<Rightarrow> bytes \<Rightarrow> u64" where
  "counter_value V k =
     (case V (''meta'', k) of
        None \<Rightarrow> 0
      | Some b \<Rightarrow> (case decode_u64 b of None \<Rightarrow> 0 | Some n \<Rightarrow> n))"

lemma counter_value_upd [simp]:
  "counter_value (V((''meta'', k) \<mapsto> to_be_bytes n)) k = n"
  by (simp add: counter_value_def)

lemma counter_value_other [simp]:
  "p \<noteq> (''meta'', k) \<Longrightarrow> counter_value (V(p := x)) k = counter_value V k"
  by (simp add: counter_value_def)

section \<open>Rows and names\<close>

definition reg_lookup ::
    "name_kind \<Rightarrow> (u64 \<Rightarrow> bytes) \<Rightarrow> (bytes \<Rightarrow> 'r option) \<Rightarrow> view \<Rightarrow> string \<Rightarrow> 'r option" where
  "reg_lookup kind row_key from_slice V n =
     (case V (''meta'', name_key kind n) of
        None \<Rightarrow> None
      | Some b \<Rightarrow>
          (case decode_u64 b of
             None \<Rightarrow> None
           | Some i \<Rightarrow>
               (case V (''meta'', row_key i) of None \<Rightarrow> None | Some v \<Rightarrow> from_slice v)))"

definition reg_wf ::
    "name_kind \<Rightarrow> (u64 \<Rightarrow> bytes) \<Rightarrow> (bytes \<Rightarrow> 'r option) \<Rightarrow> ('r \<Rightarrow> u64) \<Rightarrow> ('r \<Rightarrow> string) \<Rightarrow> view \<Rightarrow> bool"
where
  "reg_wf kind row_key from_slice id_of name_of V \<longleftrightarrow>
     (\<forall>n b. V (''meta'', name_key kind n) = Some b \<longrightarrow>
        (\<exists>i v r. b = to_be_bytes i \<and> V (''meta'', row_key i) = Some v \<and>
           from_slice v = Some r \<and> id_of r = i \<and> name_of r = n)) \<and>
     (\<forall>i v. V (''meta'', row_key i) = Some v \<longrightarrow>
        i \<le> counter_value V id_seq_key \<and>
        (\<exists>r. from_slice v = Some r \<and> id_of r = i \<and>
           V (''meta'', name_key kind (name_of r)) = Some (to_be_bytes i)))"

locale registry =
  fixes kind :: name_kind and row_key :: "u64 \<Rightarrow> bytes"
    and to_vec :: "'r \<Rightarrow> bytes option" and from_slice :: "bytes \<Rightarrow> 'r option"
    and id_of :: "'r \<Rightarrow> u64" and name_of :: "'r \<Rightarrow> string"
  assumes row_key_inject: "row_key i = row_key j \<longleftrightarrow> i = j"
    and row_key_name: "row_key i \<noteq> name_key k n"
    and row_key_counter: "row_key i \<noteq> id_seq_key"
    and row_roundtrip: "serde_roundtrip to_vec from_slice"
begin

abbreviation look :: "view \<Rightarrow> string \<Rightarrow> 'r option" where
  "look \<equiv> reg_lookup kind row_key from_slice"

abbreviation good :: "view \<Rightarrow> bool" where
  "good \<equiv> reg_wf kind row_key from_slice id_of name_of"

lemma row_bytes: "to_vec r = Some v \<Longrightarrow> from_slice v = Some r"
  using row_roundtrip by (metis option.inject serde_roundtripE)

lemmas row_neq = row_key_name row_key_name [symmetric] row_key_counter row_key_counter [symmetric]

lemma goodD_name:
  assumes "good V" and "V (''meta'', name_key kind n) = Some b"
  obtains i v r where "b = to_be_bytes i" "V (''meta'', row_key i) = Some v" "from_slice v = Some r"
    "id_of r = i" "name_of r = n" "look V n = Some r"
  using assms by (fastforce simp: reg_wf_def reg_lookup_def)

lemma goodD_row:
  assumes "good V" and "V (''meta'', row_key i) = Some v"
  obtains r where "from_slice v = Some r" "id_of r = i" "i \<le> counter_value V id_seq_key"
    "V (''meta'', name_key kind (name_of r)) = Some (to_be_bytes i)" "look V (name_of r) = Some r"
proof -
  obtain r where r: "from_slice v = Some r" "id_of r = i" "i \<le> counter_value V id_seq_key"
    "V (''meta'', name_key kind (name_of r)) = Some (to_be_bytes i)"
    using assms unfolding reg_wf_def by blast
  moreover have "look V (name_of r) = Some r"
    using r assms(2) by (simp add: reg_lookup_def)
  ultimately show thesis by (rule that)
qed

lemma look_Some:
  assumes "good V" and "look V n = Some r"
  obtains v where "V (''meta'', name_key kind n) = Some (to_be_bytes (id_of r))"
    "V (''meta'', row_key (id_of r)) = Some v" "from_slice v = Some r" "name_of r = n"
proof -
  obtain b where b: "V (''meta'', name_key kind n) = Some b"
    using assms(2) by (auto simp: reg_lookup_def split: option.splits)
  show thesis
    using assms(1) b by (rule goodD_name) (use assms(2) b in \<open>auto intro: that\<close>)
qed

lemma look_None: "good V \<Longrightarrow> look V n = None \<longleftrightarrow> V (''meta'', name_key kind n) = None"
  by (cases "V (''meta'', name_key kind n)") (auto simp: reg_lookup_def elim: goodD_name)

text \<open>Ids identify resources.\<close>

lemma look_id_inj:
  assumes "good V" and "look V n = Some r" and "look V m = Some r'" and "id_of r = id_of r'"
  shows "n = m \<and> r = r'"
  using assms by (metis look_Some option.inject)

text \<open>A new id is not in use.\<close>

lemma fresh_row: "good V \<Longrightarrow> counter_value V id_seq_key < i \<Longrightarrow> V (''meta'', row_key i) = None"
  by (metis goodD_row linorder_not_le option.exhaust)

definition rows_of :: "'r \<Rightarrow> bytes \<Rightarrow> view \<Rightarrow> view" where
  "rows_of r v V = V((''meta'', row_key (id_of r)) \<mapsto> v,
     (''meta'', name_key kind (name_of r)) \<mapsto> to_be_bytes (id_of r))"

lemma rows_of_look:
  assumes "good V" and "from_slice v = Some r"
    and owner: "\<And>r'. look V n = Some r' \<Longrightarrow> id_of r' = id_of r \<Longrightarrow> n = name_of r"
  shows "look (rows_of r v V) n = ((look V)(name_of r \<mapsto> r)) n"
proof (cases "n = name_of r")
  case True
  then show ?thesis
    using assms(2) by (simp add: reg_lookup_def rows_of_def row_neq)
next
  case False
  have "decode_u64 b \<noteq> Some (id_of r)" if "V (''meta'', name_key kind n) = Some b" for b
    using assms(1) that by (rule goodD_name) (use owner False in auto)
  with False show ?thesis
    by (auto simp: reg_lookup_def rows_of_def row_neq row_key_inject split: option.splits)
qed

lemma rows_of_good:
  assumes good: "good V" and v: "from_slice v = Some r"
    and le: "id_of r \<le> counter_value V id_seq_key"
    and owner: "\<And>n r'. look V n = Some r' \<Longrightarrow> id_of r' = id_of r \<Longrightarrow> n = name_of r"
    and holder: "\<And>r'. look V (name_of r) = Some r' \<Longrightarrow> id_of r' = id_of r"
  shows "good (rows_of r v V)"
  unfolding reg_wf_def
proof (intro conjI allI impI)
  fix n b
  assume b: "rows_of r v V (''meta'', name_key kind n) = Some b"
  show "\<exists>i v' r'. b = to_be_bytes i \<and> rows_of r v V (''meta'', row_key i) = Some v' \<and>
      from_slice v' = Some r' \<and> id_of r' = i \<and> name_of r' = n"
  proof (cases "n = name_of r")
    case True
    with b v show ?thesis by (auto simp: rows_of_def row_neq)
  next
    case False
    with b have "V (''meta'', name_key kind n) = Some b" by (simp add: rows_of_def row_neq)
    with good obtain i v' r' where "b = to_be_bytes i" "V (''meta'', row_key i) = Some v'"
      "from_slice v' = Some r'" "id_of r' = i" "name_of r' = n" "look V n = Some r'"
      by (rule goodD_name)
    with False owner show ?thesis
      by (auto simp: rows_of_def row_neq row_key_inject)
  qed
next
  fix i v'
  assume row: "rows_of r v V (''meta'', row_key i) = Some v'"
  have ctr: "counter_value (rows_of r v V) id_seq_key = counter_value V id_seq_key"
    by (simp add: rows_of_def row_neq)
  have "i \<le> counter_value V id_seq_key \<and> (\<exists>r'. from_slice v' = Some r' \<and> id_of r' = i \<and>
      rows_of r v V (''meta'', name_key kind (name_of r')) = Some (to_be_bytes i))"
  proof (cases "i = id_of r")
    case True
    with row v le show ?thesis by (simp add: rows_of_def row_neq)
  next
    case False
    with row have "V (''meta'', row_key i) = Some v'"
      by (simp add: rows_of_def row_neq row_key_inject)
    with good obtain r' where "from_slice v' = Some r'" "id_of r' = i"
      "i \<le> counter_value V id_seq_key"
      "V (''meta'', name_key kind (name_of r')) = Some (to_be_bytes i)" "look V (name_of r') = Some r'"
      by (rule goodD_row)
    with False holder show ?thesis by (auto simp: rows_of_def row_neq)
  qed
  then show "i \<le> counter_value (rows_of r v V) id_seq_key"
    and "\<exists>r'. from_slice v' = Some r' \<and> id_of r' = i \<and>
      rows_of r v V (''meta'', name_key kind (name_of r')) = Some (to_be_bytes i)"
    by (simp_all add: ctr)
qed

definition no_rows_of :: "'r \<Rightarrow> view \<Rightarrow> view" where
  "no_rows_of r V = V((''meta'', row_key (id_of r)) := None, (''meta'', name_key kind (name_of r)) := None)"

lemma no_rows_of_look:
  assumes "good V" and "look V (name_of r) = Some r"
  shows "look (no_rows_of r V) = (look V)(name_of r := None)"
proof
  fix n
  show "look (no_rows_of r V) n = ((look V)(name_of r := None)) n"
  proof (cases "n = name_of r")
    case True
    then show ?thesis by (simp add: reg_lookup_def no_rows_of_def)
  next
    case False
    have "decode_u64 b \<noteq> Some (id_of r)" if b: "V (''meta'', name_key kind n) = Some b" for b
    proof
      assume dec: "decode_u64 b = Some (id_of r)"
      obtain i v r' where "b = to_be_bytes i" "id_of r' = i" "name_of r' = n" "look V n = Some r'"
        using assms(1) b by (rule goodD_name)
      then have "n = name_of r"
        using assms dec look_id_inj [of V n r' "name_of r" r] by simp
      with False show False ..
    qed
    with False show ?thesis
      by (auto simp: reg_lookup_def no_rows_of_def row_neq row_key_inject split: option.splits)
  qed
qed

lemma no_rows_of_good:
  assumes "good V" and "look V (name_of r) = Some r"
  shows "good (no_rows_of r V)"
  unfolding reg_wf_def
proof (intro conjI allI impI)
  fix n b
  assume b: "no_rows_of r V (''meta'', name_key kind n) = Some b"
  then have n: "n \<noteq> name_of r" and b': "V (''meta'', name_key kind n) = Some b"
    by (auto simp: no_rows_of_def row_neq split: if_splits)
  obtain i v r' where r': "b = to_be_bytes i" "V (''meta'', row_key i) = Some v"
    "from_slice v = Some r'" "id_of r' = i" "name_of r' = n" "look V n = Some r'"
    using assms(1) b' by (rule goodD_name)
  then have "i \<noteq> id_of r"
    using n assms look_id_inj [of V n r' "name_of r" r] by auto
  with r' show "\<exists>i v' r'. b = to_be_bytes i \<and> no_rows_of r V (''meta'', row_key i) = Some v' \<and>
      from_slice v' = Some r' \<and> id_of r' = i \<and> name_of r' = n"
    by (auto simp: no_rows_of_def row_neq row_key_inject)
next
  fix i v
  assume row: "no_rows_of r V (''meta'', row_key i) = Some v"
  then have i: "i \<noteq> id_of r" and v: "V (''meta'', row_key i) = Some v"
    by (auto simp: no_rows_of_def row_neq row_key_inject split: if_splits)
  obtain r' where r': "from_slice v = Some r'" "id_of r' = i" "i \<le> counter_value V id_seq_key"
    "V (''meta'', name_key kind (name_of r')) = Some (to_be_bytes i)" "look V (name_of r') = Some r'"
    using assms(1) v by (rule goodD_row)
  have "name_of r' \<noteq> name_of r" using r'(2,5) assms(2) i by (metis option.inject)
  then have "no_rows_of r V (''meta'', name_key kind (name_of r')) = Some (to_be_bytes i)"
    using r'(4) by (simp add: no_rows_of_def row_neq)
  with r' show "\<exists>r'. from_slice v = Some r' \<and> id_of r' = i \<and>
      no_rows_of r V (''meta'', name_key kind (name_of r')) = Some (to_be_bytes i)"
    by blast
  show "i \<le> counter_value (no_rows_of r V) id_seq_key"
    using r'(3) by (simp add: no_rows_of_def row_neq)
qed

text \<open>The three ways the stores change a registry: create, update in place, delete.\<close>

lemma counter_look [simp]: "look (V((''meta'', id_seq_key) := x)) = look V"
  by (auto simp: reg_lookup_def row_neq fun_eq_iff split: option.splits)

lemma counter_good:
  "good V \<Longrightarrow> counter_value V id_seq_key \<le> n \<Longrightarrow> good (V((''meta'', id_seq_key) \<mapsto> to_be_bytes n))"
  by (fastforce simp: reg_wf_def row_neq intro: order_trans)

lemma create_step:
  assumes good: "good V" and below: "counter_value V id_seq_key < id_of r"
    and new: "V (''meta'', name_key kind (name_of r)) = None" and v: "to_vec r = Some v"
    and V': "V' = rows_of r v (V((''meta'', id_seq_key) \<mapsto> to_be_bytes (id_of r)))"
  shows "good V'" and "look V' = (look V)(name_of r \<mapsto> r)"
proof -
  let ?V = "V((''meta'', id_seq_key) \<mapsto> to_be_bytes (id_of r))"
  have g: "good ?V" using good below by (intro counter_good) auto
  have used: "id_of r' \<noteq> id_of r" if r': "look V n = Some r'" for n r'
  proof
    assume "id_of r' = id_of r"
    moreover obtain v' where "V (''meta'', row_key (id_of r')) = Some v'"
      using look_Some [OF good r'] by metis
    ultimately show False using fresh_row [OF good below] by simp
  qed
  have none: "look V (name_of r) = None" using new by (simp add: reg_lookup_def)
  show "good V'"
    unfolding V' using g row_bytes [OF v] none used by (intro rows_of_good) auto
  show "look V' = (look V)(name_of r \<mapsto> r)"
  proof
    fix n
    have "look (rows_of r v ?V) n = ((look ?V)(name_of r \<mapsto> r)) n"
      using g row_bytes [OF v] used by (intro rows_of_look) auto
    then show "look V' n = ((look V)(name_of r \<mapsto> r)) n" by (simp add: V')
  qed
qed

lemma update_step:
  assumes good: "good V" and old: "look V (name_of r) = Some r0" and i: "id_of r = id_of r0"
    and v: "to_vec r = Some v" and V': "V' = V((''meta'', row_key (id_of r)) \<mapsto> v)"
  shows "good V'" and "look V' = (look V)(name_of r \<mapsto> r)"
proof -
  obtain v0 where r0: "V (''meta'', name_key kind (name_of r)) = Some (to_be_bytes (id_of r0))"
    using good old by (rule look_Some)
  then have V'_rows: "V' = rows_of r v V"
    by (auto simp: V' rows_of_def i fun_eq_iff row_neq)
  have owner: "n = name_of r" if "look V n = Some r'" "id_of r' = id_of r" for n r'
    using look_id_inj [OF good that(1) old] that(2) i by simp
  have le: "id_of r \<le> counter_value V id_seq_key"
    using good old i by (metis look_Some goodD_row)
  show "good V'"
    unfolding V'_rows using good row_bytes [OF v] le owner old i by (intro rows_of_good) auto
  show "look V' = (look V)(name_of r \<mapsto> r)"
    unfolding V'_rows using good row_bytes [OF v] owner by (intro ext rows_of_look) auto
qed

lemma delete_step:
  assumes "good V" and "look V n = Some r" and "V' = no_rows_of r V"
  shows "good V'" and "look V' = (look V)(n := None)"
proof -
  have "name_of r = n" using assms(1,2) by (rule look_Some)
  with assms show "good V'" and "look V' = (look V)(n := None)"
    by (auto intro: no_rows_of_good dest: no_rows_of_look)
qed

text \<open>Writes elsewhere change neither the registry nor its consistency.\<close>

definition foreign :: "string \<times> bytes \<Rightarrow> bool" where
  "foreign p \<longleftrightarrow> (\<forall>i. p \<noteq> (''meta'', row_key i)) \<and> (\<forall>n. p \<noteq> (''meta'', name_key kind n)) \<and>
     p \<noteq> (''meta'', id_seq_key)"

lemma foreign_get:
  assumes "foreign p"
  shows "(V(p := x)) (''meta'', row_key i) = V (''meta'', row_key i)"
    and "(V(p := x)) (''meta'', name_key kind n) = V (''meta'', name_key kind n)"
    and "counter_value (V(p := x)) id_seq_key = counter_value V id_seq_key"
  using assms by (auto simp: foreign_def)

lemma foreign_look [simp]: "foreign p \<Longrightarrow> look (V(p := x)) = look V"
  by (simp only: fun_eq_iff reg_lookup_def foreign_get simp_thms)

lemma foreign_good [simp]: "foreign p \<Longrightarrow> good (V(p := x)) \<longleftrightarrow> good V"
  by (simp only: reg_wf_def foreign_get)

end

section \<open>Pages\<close>

text \<open>The page of a sorted listing after the token, and the token of the next page.\<close>

definition list_page ::
    "('r \<Rightarrow> string) \<Rightarrow> 'r list \<Rightarrow> nat \<Rightarrow> string option \<Rightarrow> 'r list \<times> string option" where
  "list_page name_of records page_size page_token =
     (let start = (case page_token of
                     Some token \<Rightarrow> length (takeWhile (\<lambda>r. name_of r \<le> token) records)
                   | None \<Rightarrow> 0);
          stop = min (usize_sat_add start page_size) (length records);
          page = take (stop - start) (drop start records);
          next_token = (if stop < length records
                        then (if page = [] then None else Some (name_of (last page)))
                        else None)
      in (page, next_token))"

lemma takeWhile_le_sorted:
  assumes "sorted_wrt (<) (map f (xs @ y # ys))"
  shows "takeWhile (\<lambda>r. f r \<le> (f y :: 'a::linorder)) (xs @ y # ys) = xs @ [y]"
proof -
  have "\<forall>x \<in> set xs. f x \<le> f y" "\<forall>x \<in> set ys. f y < f x"
    using assms by (auto simp: sorted_wrt_append intro: less_imp_le)
  then show ?thesis
    by (cases ys) auto
qed

lemma list_page_after:
  assumes sorted: "sorted_wrt (<) (map name_of rs)" and size: "0 < size_of_page"
    and fits: "length rs \<le> usize_max"
    and tok: "(tok = None \<and> xs = []) \<or> (xs \<noteq> [] \<and> tok = Some (name_of (last xs)))"
    and rs: "rs = xs @ ys"
  shows "list_page name_of rs size_of_page tok =
    (take size_of_page ys,
     if size_of_page < length ys then Some (name_of (last (take size_of_page ys))) else None)"
proof -
  let ?start = "case tok of Some token \<Rightarrow> length (takeWhile (\<lambda>r. name_of r \<le> token) rs) | None \<Rightarrow> 0"
  have start: "?start = length xs"
  proof (cases "xs = []")
    case False
    then obtain x xs' where xs: "xs = xs' @ [x]" by (metis rev_exhaust)
    have "takeWhile (\<lambda>r. name_of r \<le> name_of x) rs = xs"
      using takeWhile_le_sorted [of name_of xs' x ys] sorted by (simp add: rs xs)
    then show ?thesis using tok by (simp add: xs)
  qed (use tok in auto)
  have stop: "min (usize_sat_add (length xs) size_of_page) (length rs) =
      min (length xs + size_of_page) (length rs)"
    using fits by (simp add: usize_sat_add_def)
  have page: "take (min (length xs + size_of_page) (length rs) - length xs) (drop (length xs) rs) =
      take size_of_page ys"
    by (simp add: rs min_def)
  have less: "min (length xs + size_of_page) (length rs) < length rs \<longleftrightarrow> size_of_page < length ys"
    by (auto simp: rs min_def)
  show ?thesis
    unfolding list_page_def Let_def start stop page less using size by auto
qed

section \<open>The environment of the stores\<close>

locale store_env = kv_store K wf + ext_laws X
  for K :: "'s kv_ops" and wf :: "'s \<Rightarrow> bool" and X :: ext

locale store_env_reliable = kv_reliable K wf + ext_laws X
  for K :: "'s kv_ops" and wf :: "'s \<Rightarrow> bool" and X :: ext

sublocale store_env_reliable \<subseteq> store_env ..

end
