(* ===== verification/Names.thy ===== *)
theory Names
  imports Errors
begin

text \<open>
  Resource names, \<open>crates/open-pubusb-core/src/names.rs\<close>: one newtype per resource kind
  around the full path. Parsing accepts exactly the documented grammar (plus the
  deleted-topic sentinel for topics), keeps the text, and the accessors give back the two
  segments the grammar names.
\<close>

definition DELETED_TOPIC :: string where "DELETED_TOPIC = ''_deleted-topic_''"
definition MIN_ID_LEN :: nat where "MIN_ID_LEN = 3"
definition MAX_ID_LEN :: nat where "MAX_ID_LEN = 255"
definition FORBIDDEN_ID_PREFIX :: string where "FORBIDDEN_ID_PREFIX = ''goog''"

definition is_ascii_alphabetic :: "char \<Rightarrow> bool" where
  "is_ascii_alphabetic c \<longleftrightarrow>
     (CHR ''A'' \<le> c \<and> c \<le> CHR ''Z'') \<or> (CHR ''a'' \<le> c \<and> c \<le> CHR ''z'')"

definition is_ascii_alphanumeric :: "char \<Rightarrow> bool" where
  "is_ascii_alphanumeric c \<longleftrightarrow> is_ascii_alphabetic c \<or> (CHR ''0'' \<le> c \<and> c \<le> CHR ''9'')"

definition is_valid_id_char :: "char \<Rightarrow> bool" where
  "is_valid_id_char c \<longleftrightarrow>
     is_ascii_alphanumeric c \<or>
     c \<in> {CHR ''-'', CHR ''_'', CHR ''.'', CHR ''~'', CHR ''+'', CHR ''%''}"

definition validate_resource_id :: "string \<Rightarrow> unit result" where
  "validate_resource_id rid =
     (let len = char_count rid in
      if \<not> (MIN_ID_LEN \<le> len \<and> len \<le> MAX_ID_LEN) then Inl (InvalidArgument ''name'')
      else (case rid of
        [] \<Rightarrow> Inl (InvalidArgument ''name'')
      | first # _ \<Rightarrow>
          if \<not> is_ascii_alphabetic first then Inl (InvalidArgument ''name'')
          else if \<not> list_all is_valid_id_char rid then Inl (InvalidArgument ''name'')
          else if prefix FORBIDDEN_ID_PREFIX rid then Inl (InvalidArgument ''name'')
          else Inr ()))"

definition parse_full_name :: "string \<Rightarrow> string \<Rightarrow> string result" where
  "parse_full_name full_name kind =
     (case split_on CHR ''/'' full_name of
        [p0, project_id, p2, rid] \<Rightarrow>
          if p0 \<noteq> ''projects'' \<or> p2 \<noteq> kind then Inl (InvalidArgument ''name'')
          else if project_id = [] then Inl (InvalidArgument ''name'')
          else Inr rid
      | _ \<Rightarrow> Inl (InvalidArgument ''name''))"

definition split_full_name :: "string \<Rightarrow> string \<times> string" where
  "split_full_name full_name =
     (let parts = splitn 4 CHR ''/'' full_name in
      (if 1 < length parts then parts ! 1 else [],
       if 3 < length parts then parts ! 3 else []))"

datatype topic_name = TopicName (topic_as_str: string)
datatype subscription_name = SubscriptionName (sub_as_str: string)
datatype snapshot_name = SnapshotName (snap_as_str: string)
datatype project_name = ProjectId (project_as_str: string)

definition subscription_name_parse :: "string \<Rightarrow> subscription_name result" where
  "subscription_name_parse full_name =
     bind_r (parse_full_name full_name ''subscriptions'') (\<lambda>rid.
     bind_r (validate_resource_id rid) (\<lambda>_. Inr (SubscriptionName full_name)))"

definition subscription_project_id :: "subscription_name \<Rightarrow> string" where
  "subscription_project_id n = fst (split_full_name (sub_as_str n))"

definition subscription_resource_id :: "subscription_name \<Rightarrow> string" where
  "subscription_resource_id n = snd (split_full_name (sub_as_str n))"

definition snapshot_name_parse :: "string \<Rightarrow> snapshot_name result" where
  "snapshot_name_parse full_name =
     bind_r (parse_full_name full_name ''snapshots'') (\<lambda>rid.
     bind_r (validate_resource_id rid) (\<lambda>_. Inr (SnapshotName full_name)))"

definition snapshot_project_id :: "snapshot_name \<Rightarrow> string" where
  "snapshot_project_id n = fst (split_full_name (snap_as_str n))"

definition snapshot_resource_id :: "snapshot_name \<Rightarrow> string" where
  "snapshot_resource_id n = snd (split_full_name (snap_as_str n))"

definition topic_name_parse :: "string \<Rightarrow> topic_name result" where
  "topic_name_parse full_name =
     (if full_name = DELETED_TOPIC then Inr (TopicName full_name)
      else bind_r (parse_full_name full_name ''topics'') (\<lambda>rid.
           bind_r (validate_resource_id rid) (\<lambda>_. Inr (TopicName full_name))))"

definition is_deleted_sentinel :: "topic_name \<Rightarrow> bool" where
  "is_deleted_sentinel n \<longleftrightarrow> topic_as_str n = DELETED_TOPIC"

definition topic_project_id :: "topic_name \<Rightarrow> string" where
  "topic_project_id n = (if is_deleted_sentinel n then [] else fst (split_full_name (topic_as_str n)))"

definition topic_resource_id :: "topic_name \<Rightarrow> string" where
  "topic_resource_id n =
     (if is_deleted_sentinel n then DELETED_TOPIC else snd (split_full_name (topic_as_str n)))"

definition project_id_parse :: "string \<Rightarrow> project_name result" where
  "project_id_parse full_name =
     (case split_on CHR ''/'' full_name of
        [p0, p1] \<Rightarrow>
          if p0 \<noteq> ''projects'' then Inl (InvalidArgument ''name'')
          else if p1 = [] then Inl (InvalidArgument ''name'')
          else Inr (ProjectId full_name)
      | _ \<Rightarrow> Inl (InvalidArgument ''name''))"

definition project_project_id :: "project_name \<Rightarrow> string" where
  "project_project_id n =
     (case strip_prefix ''projects/'' (project_as_str n) of None \<Rightarrow> [] | Some p \<Rightarrow> p)"

section \<open>The grammar of names\<close>

definition valid_resource_id :: "string \<Rightarrow> bool" where
  "valid_resource_id rid \<longleftrightarrow>
     3 \<le> length rid \<and> length rid \<le> 255 \<and> is_ascii_alphabetic (hd rid) \<and>
     (\<forall>c \<in> set rid. is_valid_id_char c) \<and> \<not> prefix ''goog'' rid"

definition path_name :: "string \<Rightarrow> string \<Rightarrow> string \<Rightarrow> string" where
  "path_name project kind rid = ''projects/'' @ project @ CHR ''/'' # kind @ CHR ''/'' # rid"

definition valid_project :: "string \<Rightarrow> bool" where
  "valid_project p \<longleftrightarrow> p \<noteq> [] \<and> CHR ''/'' \<notin> set p"

lemma valid_id_char_ascii: "is_valid_id_char c \<Longrightarrow> (of_char c :: nat) < 128"
proof -
  have le: "c \<le> CHR ''z'' \<Longrightarrow> (of_char c :: nat) \<le> 122" for c
    by (simp add: less_eq_char_def)
  assume "is_valid_id_char c"
  then have "c \<le> CHR ''z'' \<or> c = CHR ''~''"
    by (auto simp: is_valid_id_char_def is_ascii_alphanumeric_def is_ascii_alphabetic_def less_eq_char_def)
  then show ?thesis using le by fastforce
qed

lemma char_count_ascii: "(\<And>c. c \<in> set s \<Longrightarrow> (of_char c :: nat) < 128) \<Longrightarrow> char_count s = length s"
proof -
  assume "\<And>c. c \<in> set s \<Longrightarrow> (of_char c :: nat) < 128"
  then have "filter (\<lambda>c. \<not> (128 \<le> (of_char c :: nat) \<and> (of_char c :: nat) < 192)) s = s"
    by (auto simp: filter_id_conv not_le [symmetric])
  then show ?thesis by (simp only: char_count_def)
qed

lemma validate_resource_id_ok: "validate_resource_id rid = Inr () \<longleftrightarrow> valid_resource_id rid"
proof (cases "\<forall>c \<in> set rid. is_valid_id_char c")
  case True
  then have "char_count rid = length rid"
    by (intro char_count_ascii valid_id_char_ascii) simp
  with True show ?thesis
    by (auto simp: validate_resource_id_def valid_resource_id_def MIN_ID_LEN_def MAX_ID_LEN_def
        FORBIDDEN_ID_PREFIX_def Let_def list_all_iff split: list.splits)
next
  case False
  then show ?thesis
    by (auto simp: validate_resource_id_def valid_resource_id_def Let_def list_all_iff
        split: list.splits)
qed

lemma valid_resource_id_no_slash: "valid_resource_id rid \<Longrightarrow> CHR ''/'' \<notin> set rid"
  by (auto simp: valid_resource_id_def is_valid_id_char_def is_ascii_alphanumeric_def
      is_ascii_alphabetic_def less_eq_char_def)

lemma split_on_path_name:
  assumes "CHR ''/'' \<notin> set p" and "CHR ''/'' \<notin> set kind" and "CHR ''/'' \<notin> set rid"
  shows "split_on CHR ''/'' (path_name p kind rid) = [''projects'', p, kind, rid]"
    and "split_full_name (path_name p kind rid) = (p, rid)"
proof -
  have s: "path_name p kind rid = ''projects'' @ CHR ''/'' # p @ CHR ''/'' # kind @ CHR ''/'' # rid"
    by (simp add: path_name_def)
  show "split_on CHR ''/'' (path_name p kind rid) = [''projects'', p, kind, rid]"
    unfolding s using assms by (subst split_on_append; simp add: split_on_append split_on_no_sep)
  have "splitn (Suc (Suc (Suc (Suc 0)))) CHR ''/'' (path_name p kind rid) = [''projects'', p, kind, rid]"
    unfolding s using assms by (subst splitn_append; simp add: splitn_append del: splitn.simps(3))
  then show "split_full_name (path_name p kind rid) = (p, rid)"
    by (simp add: split_full_name_def eval_nat_numeral)
qed

lemma split_on_four:
  "split_on CHR ''/'' s = [''projects'', p, kind, rid] \<Longrightarrow> s = path_name p kind rid"
  using split_on_join [of s "CHR ''/''"] by (simp add: path_name_def)

lemma parse_full_name_ok:
  assumes "CHR ''/'' \<notin> set kind"
  shows "parse_full_name s kind = Inr rid \<longleftrightarrow>
    (\<exists>p. valid_project p \<and> CHR ''/'' \<notin> set rid \<and> s = path_name p kind rid)"
proof
  assume "parse_full_name s kind = Inr rid"
  then obtain p where sp: "split_on CHR ''/'' s = [''projects'', p, kind, rid]" and "p \<noteq> []"
    by (auto simp: parse_full_name_def split: list.splits if_splits)
  then have "CHR ''/'' \<notin> set p" "CHR ''/'' \<notin> set rid"
    using split_on_pieces [of _ "CHR ''/''" s] by auto
  with sp \<open>p \<noteq> []\<close> show "\<exists>p. valid_project p \<and> CHR ''/'' \<notin> set rid \<and> s = path_name p kind rid"
    using split_on_four by (auto simp: valid_project_def)
next
  assume "\<exists>p. valid_project p \<and> CHR ''/'' \<notin> set rid \<and> s = path_name p kind rid"
  then show "parse_full_name s kind = Inr rid"
    using assms by (auto simp: parse_full_name_def split_on_path_name valid_project_def)
qed

lemma name_parse_iff:
  assumes "CHR ''/'' \<notin> set kind"
  shows "bind_r (parse_full_name s kind) (\<lambda>rid. bind_r (validate_resource_id rid) (\<lambda>_. Inr (C s))) = Inr n
    \<longleftrightarrow> n = C s \<and> (\<exists>p rid. valid_project p \<and> valid_resource_id rid \<and> s = path_name p kind rid)"
  by (simp add: bind_r_Inr_iff parse_full_name_ok [OF assms] validate_resource_id_ok)
    (use valid_resource_id_no_slash in blast)

lemma no_slash_kinds [simp]:
  "CHR ''/'' \<notin> set ''topics''" "CHR ''/'' \<notin> set ''subscriptions''" "CHR ''/'' \<notin> set ''snapshots''"
  by simp_all

lemma path_name_neq_deleted: "path_name p kind rid \<noteq> DELETED_TOPIC"
  by (simp add: path_name_def DELETED_TOPIC_def)

lemma topic_name_parse_ok:
  "topic_name_parse s = Inr n \<longleftrightarrow>
     n = TopicName s \<and> (s = DELETED_TOPIC \<or>
       (\<exists>p rid. valid_project p \<and> valid_resource_id rid \<and> s = path_name p ''topics'' rid))"
  using name_parse_iff [of "''topics''" s TopicName n] by (auto simp: topic_name_parse_def)

lemma subscription_name_parse_ok:
  "subscription_name_parse s = Inr n \<longleftrightarrow> n = SubscriptionName s \<and>
     (\<exists>p rid. valid_project p \<and> valid_resource_id rid \<and> s = path_name p ''subscriptions'' rid)"
  using name_parse_iff [of "''subscriptions''" s SubscriptionName n]
  by (simp only: subscription_name_parse_def no_slash_kinds simp_thms)

lemma snapshot_name_parse_ok:
  "snapshot_name_parse s = Inr n \<longleftrightarrow> n = SnapshotName s \<and>
     (\<exists>p rid. valid_project p \<and> valid_resource_id rid \<and> s = path_name p ''snapshots'' rid)"
  using name_parse_iff [of "''snapshots''" s SnapshotName n]
  by (simp only: snapshot_name_parse_def no_slash_kinds simp_thms)

section \<open>Properties\<close>

text \<open>
  A topic name is accepted exactly when it is the deleted-topic sentinel or has the form
  \<open>projects/{project}/topics/{id}\<close> with a non-empty project and a well-formed id; the accepted
  name is kept as it is, and the accessors give back the project and the id it was built from.
\<close>

theorem topic_name_grammar:
  "topic_name_parse s = Inr n \<longleftrightarrow>
     n = TopicName s \<and> (s = DELETED_TOPIC \<or>
       (\<exists>p rid. valid_project p \<and> valid_resource_id rid \<and> s = path_name p ''topics'' rid \<and>
          topic_project_id n = p \<and> topic_resource_id n = rid))"
proof -
  have "topic_project_id (TopicName (path_name p ''topics'' rid)) = p \<and>
      topic_resource_id (TopicName (path_name p ''topics'' rid)) = rid"
    if "valid_project p" "valid_resource_id rid" for p rid
    using that valid_resource_id_no_slash split_on_path_name(2) [of p "''topics''" rid]
    by (simp add: topic_project_id_def topic_resource_id_def is_deleted_sentinel_def
        path_name_neq_deleted valid_project_def)
  then show ?thesis by (auto simp: topic_name_parse_ok)
qed

text \<open>
  A subscription or snapshot name is accepted exactly when it has the form
  \<open>projects/{project}/{kind}/{id}\<close> of its kind, and the accessors give back project and id.
\<close>

theorem subscription_snapshot_name_grammar:
  "(subscription_name_parse s = Inr n \<longleftrightarrow>
     n = SubscriptionName s \<and>
     (\<exists>p rid. valid_project p \<and> valid_resource_id rid \<and> s = path_name p ''subscriptions'' rid \<and>
        subscription_project_id n = p \<and> subscription_resource_id n = rid)) \<and>
   (snapshot_name_parse s = Inr k \<longleftrightarrow>
     k = SnapshotName s \<and>
     (\<exists>p rid. valid_project p \<and> valid_resource_id rid \<and> s = path_name p ''snapshots'' rid \<and>
        snapshot_project_id k = p \<and> snapshot_resource_id k = rid))"
proof -
  have split: "split_full_name (path_name p kind rid) = (p, rid)"
    if "valid_project p" "valid_resource_id rid" "CHR ''/'' \<notin> set kind" for p rid kind
    using that valid_resource_id_no_slash split_on_path_name(2) [of p kind rid]
    by (simp add: valid_project_def)
  have sub: "subscription_project_id (SubscriptionName (path_name p ''subscriptions'' rid)) = p \<and>
      subscription_resource_id (SubscriptionName (path_name p ''subscriptions'' rid)) = rid"
    if "valid_project p" "valid_resource_id rid" for p rid
    using split [OF that, of "''subscriptions''"]
    by (simp add: subscription_project_id_def subscription_resource_id_def)
  have snap: "snapshot_project_id (SnapshotName (path_name p ''snapshots'' rid)) = p \<and>
      snapshot_resource_id (SnapshotName (path_name p ''snapshots'' rid)) = rid"
    if "valid_project p" "valid_resource_id rid" for p rid
    using split [OF that, of "''snapshots''"]
    by (simp add: snapshot_project_id_def snapshot_resource_id_def)
  show ?thesis
    unfolding subscription_name_parse_ok snapshot_name_parse_ok using sub snap by blast
qed

end
