(* ===== verification/Lease.thy ===== *)
theory Lease
  imports Codec Keys
begin

text \<open>
  The in-memory lease table, \<open>crates/open-pubusb-core/src/delivery/lease.rs\<close>: two indexes, one
  by deadline and one by \<open>(subscription, seq)\<close>, that every operation has to keep in step.
  \<open>lease_table_wf\<close> is that consistency, and \<open>lease_abs\<close> the table's meaning, a finite map
  from keys to leases; each operation preserves the first and is described on the second.
\<close>

section \<open>Model\<close>

record lease =
  l_sub_id :: u64
  l_seq :: u64
  l_deadline_ms :: int
  l_attempts :: u32
  l_generation :: u64

datatype ack_outcome = Applied lease | Unknown | StaleGeneration | Malformed

record expired_lease =
  e_sub_id :: u64
  e_seq :: u64
  e_attempts :: u32
  e_generation :: u64

record lease_table =
  by_deadline :: "(int \<times> u64 \<times> u64) list"
  by_key :: "(u64 \<times> u64, lease) hashmap"

definition lease_table_new :: lease_table where
  "lease_table_new = \<lparr>by_deadline = [], by_key = []\<rparr>"

definition lease_len :: "lease_table \<Rightarrow> nat" where
  "lease_len T = length (by_key T)"

definition encode_ack_id :: "ext \<Rightarrow> u64 \<Rightarrow> u64 \<Rightarrow> u64 \<Rightarrow> string" where
  "encode_ack_id X sub_id seq generation =
     b64_encode X (to_be_bytes sub_id @ to_be_bytes seq @ to_be_bytes generation)"

definition decode_ack_id :: "ext \<Rightarrow> string \<Rightarrow> (u64 \<times> u64 \<times> u64) option" where
  "decode_ack_id X ack_id =
     (case b64_decode X ack_id of
        None \<Rightarrow> None
      | Some bs \<Rightarrow>
          if length bs \<noteq> 24 then None
          else Some (from_be_bytes (take 8 bs), from_be_bytes (take 8 (drop 8 bs)),
                     from_be_bytes (take 8 (drop 16 bs))))"

definition lease_get :: "lease_table \<Rightarrow> u64 \<Rightarrow> u64 \<Rightarrow> lease option" where
  "lease_get T sub_id seq = map_of (by_key T) (sub_id, seq)"

definition lease_remove :: "lease_table \<Rightarrow> u64 \<Rightarrow> u64 \<Rightarrow> lease option \<times> lease_table" where
  "lease_remove T sub_id seq =
     (case map_of (by_key T) (sub_id, seq) of
        None \<Rightarrow> (None, T)
      | Some l \<Rightarrow>
          (Some l, T\<lparr>by_key := hm_remove (sub_id, seq) (by_key T),
                     by_deadline := bt_remove (l_deadline_ms l, sub_id, seq) (by_deadline T)\<rparr>))"

definition lease_insert ::
    "ext \<Rightarrow> lease_table \<Rightarrow> u64 \<Rightarrow> u64 \<Rightarrow> int \<Rightarrow> u32 \<Rightarrow> u64 \<Rightarrow> string \<times> lease_table" where
  "lease_insert X T sub_id seq deadline_ms attempts generation =
     (let key = (sub_id, seq);
          T1 = (case map_of (by_key T) key of
                  None \<Rightarrow> T
                | Some old \<Rightarrow>
                    T\<lparr>by_key := hm_remove key (by_key T),
                      by_deadline := bt_remove (l_deadline_ms old, sub_id, seq) (by_deadline T)\<rparr>);
          l = \<lparr>l_sub_id = sub_id, l_seq = seq, l_deadline_ms = deadline_ms,
               l_attempts = attempts, l_generation = generation\<rparr>;
          T2 = T1\<lparr>by_deadline := bt_insert (deadline_ms, sub_id, seq) (by_deadline T1),
                  by_key := hm_insert key l (by_key T1)\<rparr>
      in (encode_ack_id X sub_id seq generation, T2))"

definition lease_ack :: "ext \<Rightarrow> lease_table \<Rightarrow> string \<Rightarrow> ack_outcome \<times> lease_table" where
  "lease_ack X T ack_id =
     (case decode_ack_id X ack_id of
        None \<Rightarrow> (Malformed, T)
      | Some (sub_id, seq, generation) \<Rightarrow>
          (case map_of (by_key T) (sub_id, seq) of
             None \<Rightarrow> (Unknown, T)
           | Some l \<Rightarrow>
               if l_generation l \<noteq> generation then (StaleGeneration, T)
               else (case lease_remove T sub_id seq of
                       (Some l', T') \<Rightarrow> (Applied l', T')
                     | (None, T') \<Rightarrow> (Unknown, T'))))"

text \<open>Moving a deadline: shared by \<open>extend\<close> and \<open>nack_now\<close>.\<close>

definition lease_set_deadline :: "lease_table \<Rightarrow> u64 \<Rightarrow> u64 \<Rightarrow> lease \<Rightarrow> int \<Rightarrow> lease_table" where
  "lease_set_deadline T sub_id seq l new_deadline =
     T\<lparr>by_deadline := bt_insert (new_deadline, sub_id, seq)
                        (bt_remove (l_deadline_ms l, sub_id, seq) (by_deadline T)),
       by_key := hm_insert (sub_id, seq) (l\<lparr>l_deadline_ms := new_deadline\<rparr>) (by_key T)\<rparr>"

definition lease_extend :: "ext \<Rightarrow> lease_table \<Rightarrow> string \<Rightarrow> int \<Rightarrow> int \<Rightarrow> ack_outcome \<times> lease_table" where
  "lease_extend X T ack_id now_ms secs =
     (case decode_ack_id X ack_id of
        None \<Rightarrow> (Malformed, T)
      | Some (sub_id, seq, generation) \<Rightarrow>
          (case map_of (by_key T) (sub_id, seq) of
             None \<Rightarrow> (Unknown, T)
           | Some l \<Rightarrow>
               if l_generation l \<noteq> generation then (StaleGeneration, T)
               else
                 let new_deadline = (if secs \<le> 0 then now_ms else wrap_i64 (now_ms + secs * 1000))
                 in (Applied (l\<lparr>l_deadline_ms := new_deadline\<rparr>),
                     lease_set_deadline T sub_id seq l new_deadline)))"

definition lease_nack_now :: "lease_table \<Rightarrow> u64 \<Rightarrow> u64 \<Rightarrow> int \<Rightarrow> lease option \<times> lease_table" where
  "lease_nack_now T sub_id seq now_ms =
     (case map_of (by_key T) (sub_id, seq) of
        None \<Rightarrow> (None, T)
      | Some l \<Rightarrow>
          (Some (l\<lparr>l_deadline_ms := now_ms\<rparr>), lease_set_deadline T sub_id seq l now_ms))"

text \<open>The loop of \<open>expire_up_to\<close> over the collected deadline keys.\<close>

fun expire_keys ::
    "(int \<times> u64 \<times> u64) list \<Rightarrow> lease_table \<Rightarrow> expired_lease list \<times> lease_table" where
  "expire_keys [] T = ([], T)"
| "expire_keys ((d, sub_id, seq) # ks) T =
     (let T1 = T\<lparr>by_deadline := bt_remove (d, sub_id, seq) (by_deadline T)\<rparr> in
      case map_of (by_key T1) (sub_id, seq) of
        None \<Rightarrow> expire_keys ks T1
      | Some l \<Rightarrow>
          (let T2 = T1\<lparr>by_key := hm_remove (sub_id, seq) (by_key T1)\<rparr>;
               (out, T3) = expire_keys ks T2
           in (\<lparr>e_sub_id = sub_id, e_seq = seq, e_attempts = l_attempts l,
                e_generation = l_generation l\<rparr> # out, T3)))"

definition lease_expire_up_to :: "lease_table \<Rightarrow> int \<Rightarrow> expired_lease list \<times> lease_table" where
  "lease_expire_up_to T now_ms =
     expire_keys (filter (\<lambda>k. k \<le> (now_ms, - 1, - 1)) (by_deadline T)) T"

fun remove_seqs :: "u64 \<Rightarrow> u64 list \<Rightarrow> lease_table \<Rightarrow> lease_table" where
  "remove_seqs sub_id [] T = T"
| "remove_seqs sub_id (seq # seqs) T = remove_seqs sub_id seqs (snd (lease_remove T sub_id seq))"

definition lease_remove_all_for_subscription :: "lease_table \<Rightarrow> u64 \<Rightarrow> u64 list \<times> lease_table" where
  "lease_remove_all_for_subscription T sub_id =
     (let seqs = map snd (filter (\<lambda>k. fst k = sub_id) (map fst (by_key T)))
      in (seqs, remove_seqs sub_id seqs T))"

section \<open>Acknowledgement ids\<close>

lemma decode_encode_ack_id_gen:
  assumes "\<And>b. b64_decode X (b64_encode X b) = Some b"
  shows "decode_ack_id X (encode_ack_id X s q g) = Some (s, q, g)"
  by (simp add: decode_ack_id_def encode_ack_id_def assms)

context ext_laws
begin

lemma decode_encode_ack_id [simp]: "decode_ack_id X (encode_ack_id X s q g) = Some (s, q, g)"
  by (rule decode_encode_ack_id_gen) (rule b64_rt)

lemma encode_ack_id_inject:
  "encode_ack_id X s q g = encode_ack_id X s' q' g' \<longleftrightarrow> s = s' \<and> q = q' \<and> g = g'"
  by (metis decode_encode_ack_id option.inject prod.inject)

end

section \<open>Consistency of the two indexes\<close>

abbreviation lease_abs :: "lease_table \<Rightarrow> u64 \<times> u64 \<Rightarrow> lease option" where
  "lease_abs T \<equiv> map_of (by_key T)"

definition lease_table_wf :: "lease_table \<Rightarrow> bool" where
  "lease_table_wf T \<longleftrightarrow>
     hm_wf (by_key T) \<and> bt_wf (by_deadline T) \<and>
     (\<forall>s q l. lease_abs T (s, q) = Some l \<longrightarrow> l_sub_id l = s \<and> l_seq l = q) \<and>
     (\<forall>d s q. (d, s, q) \<in> set (by_deadline T) \<longleftrightarrow>
        (\<exists>l. lease_abs T (s, q) = Some l \<and> l_deadline_ms l = d))"

lemma wf_new: "lease_table_wf lease_table_new"
  by (simp add: lease_table_wf_def lease_table_new_def)

lemma bt_sorted [simp]: "bt_wf xs \<Longrightarrow> sorted (bt_insert x xs)" "bt_wf xs \<Longrightarrow> distinct (bt_insert x xs)"
  "bt_wf xs \<Longrightarrow> sorted (bt_remove x xs)" "bt_wf xs \<Longrightarrow> distinct (bt_remove x xs)"
  using bt_wf_insert bt_wf_remove by blast+

lemma remove_abs: "lease_abs (snd (lease_remove T s q)) = (lease_abs T)((s, q) := None)"
  by (auto simp: lease_remove_def split: option.splits)

lemma remove_result: "fst (lease_remove T s q) = lease_abs T (s, q)"
  by (simp add: lease_remove_def split: option.splits)

lemma remove_wf: "lease_table_wf T \<Longrightarrow> lease_table_wf (snd (lease_remove T s q))"
  by (auto simp: lease_remove_def lease_table_wf_def split: option.splits simp del: map_of_eq_Some_iff)

lemma insert_abs:
  "lease_abs (snd (lease_insert X T s q d a g)) = (lease_abs T)((s, q) \<mapsto>
     \<lparr>l_sub_id = s, l_seq = q, l_deadline_ms = d, l_attempts = a, l_generation = g\<rparr>)"
  by (auto simp: lease_insert_def Let_def split: option.splits)

lemma insert_wf: "lease_table_wf T \<Longrightarrow> lease_table_wf (snd (lease_insert X T s q d a g))"
  by (auto simp: lease_insert_def lease_table_wf_def Let_def split: option.splits simp del: map_of_eq_Some_iff)

lemma set_deadline_wf:
  "lease_table_wf T \<Longrightarrow> lease_abs T (s, q) = Some l \<Longrightarrow> lease_table_wf (lease_set_deadline T s q l d)"
  by (auto simp: lease_set_deadline_def lease_table_wf_def simp del: map_of_eq_Some_iff)

lemma set_deadline_abs:
  "lease_abs (lease_set_deadline T s q l d) = (lease_abs T)((s, q) \<mapsto> l\<lparr>l_deadline_ms := d\<rparr>)"
  by (simp add: lease_set_deadline_def)

lemma ack_cases:
  obtains (malformed) "decode_ack_id X i = None" "lease_ack X T i = (Malformed, T)"
    "lease_extend X T i now secs = (Malformed, T)"
  | (unknown) s q g where "decode_ack_id X i = Some (s, q, g)" "lease_abs T (s, q) = None"
      "lease_ack X T i = (Unknown, T)" "lease_extend X T i now secs = (Unknown, T)"
  | (stale) s q g l where "decode_ack_id X i = Some (s, q, g)" "lease_abs T (s, q) = Some l"
      "l_generation l \<noteq> g" "lease_ack X T i = (StaleGeneration, T)"
      "lease_extend X T i now secs = (StaleGeneration, T)"
  | (applied) s q l where "decode_ack_id X i = Some (s, q, l_generation l)"
      "lease_abs T (s, q) = Some l" "lease_ack X T i = (Applied l, snd (lease_remove T s q))"
      "lease_extend X T i now secs =
         (Applied (l\<lparr>l_deadline_ms := if secs \<le> 0 then now else wrap_i64 (now + secs * 1000)\<rparr>),
          lease_set_deadline T s q l (if secs \<le> 0 then now else wrap_i64 (now + secs * 1000)))"
proof -
  show thesis
  proof (cases "decode_ack_id X i")
    case None
    then show ?thesis
      by (intro malformed) (simp_all add: lease_ack_def lease_extend_def)
  next
    case (Some p)
    then obtain s q g where p: "decode_ack_id X i = Some (s, q, g)" by (cases p) auto
    show ?thesis
    proof (cases "lease_abs T (s, q)")
      case None
      with p show ?thesis
        by (intro unknown) (simp_all add: lease_ack_def lease_extend_def)
    next
      case l: (Some l)
      show ?thesis
      proof (cases "l_generation l = g")
        case True
        have "lease_ack X T i = (Applied l, snd (lease_remove T s q))"
          using p l True by (simp add: lease_ack_def) (simp add: lease_remove_def)
        with p l True show ?thesis
          by (intro applied) (simp_all add: lease_extend_def Let_def)
      next
        case False
        with p l show ?thesis
          by (intro stale) (simp_all add: lease_ack_def lease_extend_def)
      qed
    qed
  qed
qed

lemma ack_wf: "lease_table_wf T \<Longrightarrow> lease_table_wf (snd (lease_ack X T i))"
  by (cases rule: ack_cases [of X i T]) (simp_all add: remove_wf)

lemma extend_wf: "lease_table_wf T \<Longrightarrow> lease_table_wf (snd (lease_extend X T i now secs))"
  by (cases rule: ack_cases [of X i T now secs]) (simp_all add: set_deadline_wf)

lemma nack_now_wf: "lease_table_wf T \<Longrightarrow> lease_table_wf (snd (lease_nack_now T s q now))"
  by (simp add: lease_nack_now_def set_deadline_wf split: option.splits)

section \<open>Expiry\<close>

definition expired_of :: "lease \<Rightarrow> expired_lease" where
  "expired_of l = \<lparr>e_sub_id = l_sub_id l, e_seq = l_seq l, e_attempts = l_attempts l,
     e_generation = l_generation l\<rparr>"

lemma expire_keys_step:
  assumes "lease_table_wf T" and "lease_abs T (s, q) = Some l" and "l_deadline_ms l = d"
  shows "expire_keys ((d, s, q) # ks) T =
    (let (out, T') = expire_keys ks (snd (lease_remove T s q)) in (expired_of l # out, T'))"
proof -
  have "l_sub_id l = s" "l_seq l = q"
    using assms(1,2) by (auto simp: lease_table_wf_def simp del: map_of_eq_Some_iff)
  moreover have "T\<lparr>by_deadline := bt_remove (d, s, q) (by_deadline T), by_key := hm_remove (s, q) (by_key T)\<rparr>
      = snd (lease_remove T s q)"
    using assms(2,3) by (simp add: lease_remove_def)
  ultimately show ?thesis
    using assms(2) by (simp add: Let_def expired_of_def)
qed

lemma expire_keys_spec:
  assumes "lease_table_wf T" and "distinct ks" and "set ks \<subseteq> set (by_deadline T)"
    and "expire_keys ks T = (out, T')"
  shows "lease_table_wf T' \<and>
    lease_abs T' = (\<lambda>k. if k \<in> snd ` set ks then None else lease_abs T k) \<and>
    out = map (\<lambda>k. expired_of (the (lease_abs T (snd k)))) ks"
  using assms
proof (induction ks arbitrary: T out)
  case (Cons k ks)
  obtain d s q where k: "k = (d, s, q)" by (cases k) auto
  then obtain l where l: "lease_abs T (s, q) = Some l" "l_deadline_ms l = d"
    using Cons.prems(1,3) by (auto simp: lease_table_wf_def simp del: map_of_eq_Some_iff)
  let ?T = "snd (lease_remove T s q)"
  obtain out2 where out: "expire_keys ks ?T = (out2, T')" "out = expired_of l # out2"
    using Cons.prems(4) unfolding k expire_keys_step [OF Cons.prems(1) l]
    by (auto split: prod.splits)
  have only: "snd j \<noteq> (s, q)" if "j \<in> set ks" for j
  proof
    assume "snd j = (s, q)"
    moreover have "j \<in> set (by_deadline T)"
      using that Cons.prems(3) by auto
    ultimately have "j = (d, s, q)"
      using Cons.prems(1) l by (cases j) (auto simp: lease_table_wf_def simp del: map_of_eq_Some_iff)
    with that Cons.prems(2) k show False by simp
  qed
  have "set ks \<subseteq> set (by_deadline ?T)"
  proof
    fix j assume j: "j \<in> set ks"
    then have "j \<in> set (by_deadline T)" "j \<noteq> (d, s, q)"
      using Cons.prems(3) only [OF j] by auto
    then show "j \<in> set (by_deadline ?T)"
      using l by (simp add: lease_remove_def)
  qed
  then have IH: "lease_table_wf T' \<and>
      lease_abs T' = (\<lambda>k. if k \<in> snd ` set ks then None else lease_abs ?T k) \<and>
      out2 = map (\<lambda>k. expired_of (the (lease_abs ?T (snd k)))) ks"
    using Cons.IH [of ?T out2] Cons.prems(1,2) out(1) remove_wf [of T s q] by simp
  moreover have "map (\<lambda>k. expired_of (the (lease_abs ?T (snd k)))) ks =
      map (\<lambda>k. expired_of (the (lease_abs T (snd k)))) ks"
    using only by (simp add: remove_abs)
  ultimately show ?case
    using l(1) by (auto simp: k out(2) remove_abs fun_eq_iff)
qed simp

lemma max_u64 [simp]: "(x :: u64) \<le> - 1"
  by (simp add: word_order.extremum)

lemma expiry_range: "((d, s, q) :: int \<times> u64 \<times> u64) \<le> (now, - 1, - 1) \<longleftrightarrow> d \<le> now"
  by (auto simp: less_eq_prod_def)

lemma expire_spec:
  assumes "lease_table_wf T" and "lease_expire_up_to T now = (out, T')"
  shows "lease_table_wf T'"
    and "lease_abs T' k =
      (case lease_abs T k of None \<Rightarrow> None | Some l \<Rightarrow> if l_deadline_ms l \<le> now then None else Some l)"
    and "set out = expired_of ` {l. \<exists>k. lease_abs T k = Some l \<and> l_deadline_ms l \<le> now}"
proof -
  let ?ks = "filter (\<lambda>k. k \<le> (now, - 1, - 1)) (by_deadline T)"
  have spec: "lease_table_wf T' \<and>
    lease_abs T' = (\<lambda>k. if k \<in> snd ` set ?ks then None else lease_abs T k) \<and>
    out = map (\<lambda>k. expired_of (the (lease_abs T (snd k)))) ?ks"
    by (rule expire_keys_spec) (use assms in \<open>auto simp: lease_expire_up_to_def lease_table_wf_def\<close>)
  have mem: "(s, q) \<in> snd ` set ?ks \<longleftrightarrow> (\<exists>l. lease_abs T (s, q) = Some l \<and> l_deadline_ms l \<le> now)" for s q
    using assms(1) by (force simp: lease_table_wf_def expiry_range image_iff simp del: map_of_eq_Some_iff)
  show "lease_table_wf T'"
    using spec by simp
  show "lease_abs T' k =
      (case lease_abs T k of None \<Rightarrow> None | Some l \<Rightarrow> if l_deadline_ms l \<le> now then None else Some l)"
    using spec mem [of "fst k" "snd k"] by (auto split: option.splits)
  have "set out = (\<lambda>k. expired_of (the (lease_abs T k))) ` (snd ` set ?ks)"
    using spec by (auto simp: image_image)
  also have "\<dots> = expired_of ` {l. \<exists>k. lease_abs T k = Some l \<and> l_deadline_ms l \<le> now}"
  proof -
    have "snd ` set ?ks = {k. \<exists>l. lease_abs T k = Some l \<and> l_deadline_ms l \<le> now}"
      using mem by (auto simp del: set_filter)
    moreover have "(\<lambda>k. f (the (m k))) ` {k. \<exists>l. m k = Some l \<and> P l} = f ` {l. \<exists>k. m k = Some l \<and> P l}"
      for f and m :: "u64 \<times> u64 \<Rightarrow> lease option" and P
      by force
    ultimately show ?thesis
      by simp
  qed
  finally show "set out = expired_of ` {l. \<exists>k. lease_abs T k = Some l \<and> l_deadline_ms l \<le> now}" .
qed

section \<open>Dropping a subscription\<close>

lemma remove_seqs_spec:
  "lease_table_wf T \<Longrightarrow> lease_table_wf (remove_seqs s qs T) \<and>
     lease_abs (remove_seqs s qs T) = (\<lambda>k. if fst k = s \<and> snd k \<in> set qs then None else lease_abs T k)"
  by (induction qs arbitrary: T) (auto simp: remove_wf remove_abs fun_eq_iff)

lemma remove_all_spec:
  assumes "lease_table_wf T" and "lease_remove_all_for_subscription T s = (qs, T')"
  shows "lease_table_wf T'"
    and "lease_abs T' k = (if fst k = s then None else lease_abs T k)"
    and "set qs = {q. lease_abs T (s, q) \<noteq> None}"
proof -
  have qs: "qs = map snd (filter (\<lambda>k. fst k = s) (map fst (by_key T)))" "T' = remove_seqs s qs T"
    using assms(2) by (auto simp: lease_remove_all_for_subscription_def Let_def)
  show "set qs = {q. lease_abs T (s, q) \<noteq> None}"
  proof -
    have "set qs = {q. (s, q) \<in> fst ` set (by_key T)}"
      by (force simp: qs(1))
    then show ?thesis
      by (simp add: map_of_eq_None_iff)
  qed
  then show "lease_abs T' k = (if fst k = s then None else lease_abs T k)"
    using remove_seqs_spec [OF assms(1), of s qs] by (cases k) (auto simp: qs(2))
  show "lease_table_wf T'"
    using remove_seqs_spec [OF assms(1), of s qs] by (simp add: qs(2))
qed

end
