(* ===== verification/Topic.thy ===== *)
theory Topic
  imports Registry Names Limits Lease
begin

text \<open>
  The topic store, \<open>crates/open-pubusb-core/src/topic.rs\<close>: topic rows with their name index,
  the per-topic sequence counter and the append-only message log. The operations are generic
  in the key/value store \<open>K\<close> and the third-party code \<open>X\<close>, as the source is generic in
  \<open>K: KvStore\<close>; an operation that returns \<open>Err\<close> keeps what it had written before.
\<close>

section \<open>Rows\<close>

definition topic_load_record :: "'s kv_ops \<Rightarrow> ext \<Rightarrow> 's \<Rightarrow> u64 \<Rightarrow> topic_record result" where
  "topic_load_record K X s i =
     bind_r (ok_or (kv_get K s ''meta'' (topic_key i)) Internal) (\<lambda>b.
       ok_or (topic_from_slice X b) Internal)"

definition topic_put_record :: "'s kv_ops \<Rightarrow> ext \<Rightarrow> 's \<Rightarrow> topic_record \<Rightarrow> ('s, unit) st_result" where
  "topic_put_record K X s r =
     with_r (ok_or (topic_to_vec X r) Internal) s (\<lambda>b. kv_put K s ''meta'' (topic_key (tr_id r)) b)"

definition topic_resolve_id :: "'s kv_ops \<Rightarrow> 's \<Rightarrow> string \<Rightarrow> u64 result" where
  "topic_resolve_id K s full_name =
     bind_r (topic_name_parse full_name) (\<lambda>_.
     bind_r (ok_or (kv_get K s ''meta'' (name_key KTopic full_name)) (NotFound full_name)) (\<lambda>id_bytes.
       ok_or (decode_u64 id_bytes) Internal))"

definition read_counter :: "'s kv_ops \<Rightarrow> 's \<Rightarrow> bytes \<Rightarrow> u64" where
  "read_counter K s key =
     (case kv_get K s ''meta'' key of
        None \<Rightarrow> 0
      | Some b \<Rightarrow> (case decode_u64 b of None \<Rightarrow> 0 | Some n \<Rightarrow> n))"

definition topic_next_id :: "'s kv_ops \<Rightarrow> 's \<Rightarrow> ('s, u64) st_result" where
  "topic_next_id K s =
     (let next = word_sat_add (read_counter K s id_seq_key) 1
      in bind_st (kv_put K s ''meta'' id_seq_key (to_be_bytes next)) (\<lambda>_ s. (Inr next, s)))"

definition next_seq :: "'s kv_ops \<Rightarrow> 's \<Rightarrow> u64 \<Rightarrow> ('s, u64) st_result" where
  "next_seq K s topic_id =
     (let key = topic_seq_counter_key topic_id;
          seq = word_sat_add (read_counter K s key) 1
      in bind_st (kv_put K s ''meta'' key (to_be_bytes seq)) (\<lambda>_ s. (Inr seq, s)))"

definition current_tail :: "'s kv_ops \<Rightarrow> 's \<Rightarrow> u64 \<Rightarrow> u64" where
  "current_tail K s topic_id = read_counter K s (topic_seq_counter_key topic_id)"

section \<open>Operations\<close>

definition topic_create ::
    "'s kv_ops \<Rightarrow> ext \<Rightarrow> 's \<Rightarrow> string \<Rightarrow> attributes \<Rightarrow> int option \<Rightarrow> string option \<Rightarrow> bool \<Rightarrow> bool \<Rightarrow>
     ('s, topic_record) st_result" where
  "topic_create K X s full_name labels message_retention_secs kms_key_name
      has_schema_settings has_ingestion_settings =
     with_r (topic_name_parse full_name) s (\<lambda>_.
       if has_schema_settings then (Inl (InvalidArgument ''schema_settings''), s)
       else if has_ingestion_settings then (Inl (InvalidArgument ''ingestion_data_source_settings''), s)
       else with_r (case message_retention_secs of
                      Some secs \<Rightarrow> validate_topic_retention_secs secs
                    | None \<Rightarrow> Inr ()) s (\<lambda>_.
         if kv_get K s ''meta'' (name_key KTopic full_name) \<noteq> None
         then (Inl (AlreadyExists full_name), s)
         else bind_st (topic_next_id K s) (\<lambda>i s.
           let r = \<lparr>tr_id = i, tr_name = full_name, tr_labels = labels,
                    tr_message_retention_secs =
                      (case message_retention_secs of Some secs \<Rightarrow> secs | None \<Rightarrow> 0),
                    tr_kms_key_name = kms_key_name\<rparr>
           in bind_st (topic_put_record K X s r) (\<lambda>_ s.
              bind_st (kv_put K s ''meta'' (name_key KTopic full_name) (to_be_bytes i)) (\<lambda>_ s.
              (Inr r, s))))))"

definition topic_get :: "'s kv_ops \<Rightarrow> ext \<Rightarrow> 's \<Rightarrow> string \<Rightarrow> topic_record result" where
  "topic_get K X s full_name = bind_r (topic_resolve_id K s full_name) (topic_load_record K X s)"

definition topic_list_all :: "'s kv_ops \<Rightarrow> ext \<Rightarrow> 's \<Rightarrow> topic_record list" where
  "topic_list_all K X s =
     List.map_filter (\<lambda>(_, v). topic_from_slice X v) (kv_scan_prefix K s ''meta'' (as_bytes ''t/''))"

text \<open>The loop of \<open>list\<close> that loads the records of the index rows.\<close>

fun topic_load_all :: "'s kv_ops \<Rightarrow> ext \<Rightarrow> 's \<Rightarrow> (bytes \<times> bytes) list \<Rightarrow> topic_record list result" where
  "topic_load_all K X s [] = Inr []"
| "topic_load_all K X s ((_, v) # rows) =
     (case decode_u64 v of
        None \<Rightarrow> topic_load_all K X s rows
      | Some i \<Rightarrow>
          bind_r (topic_load_record K X s i) (\<lambda>r.
          bind_r (topic_load_all K X s rows) (\<lambda>rs. Inr (r # rs))))"

definition topic_list ::
    "'s kv_ops \<Rightarrow> ext \<Rightarrow> 's \<Rightarrow> string \<Rightarrow> nat \<Rightarrow> string option \<Rightarrow>
     (topic_record list \<times> string option) result" where
  "topic_list K X s project_id page_size page_token =
     (let scan_prefix = name_key KTopic (''projects/'' @ project_id @ ''/topics/'')
      in bind_r (topic_load_all K X s (kv_scan_prefix K s ''meta'' scan_prefix)) (\<lambda>records.
         Inr (list_page tr_name (sort_key tr_name records) page_size page_token)))"

text \<open>The field assignments of \<open>update\<close>, the retention validated on the way.\<close>

definition topic_patch ::
    "attributes option \<Rightarrow> int option option \<Rightarrow> string option option \<Rightarrow> topic_record \<Rightarrow> topic_record result"
where
  "topic_patch labels message_retention_secs kms_key_name r =
     (let r = (case labels of Some l \<Rightarrow> r\<lparr>tr_labels := l\<rparr> | None \<Rightarrow> r) in
      bind_r (case message_retention_secs of
                Some retention \<Rightarrow>
                  (case retention of
                     Some secs \<Rightarrow>
                       bind_r (validate_topic_retention_secs secs) (\<lambda>_.
                         Inr (r\<lparr>tr_message_retention_secs := secs\<rparr>))
                   | None \<Rightarrow> Inr (r\<lparr>tr_message_retention_secs := 0\<rparr>))
              | None \<Rightarrow> Inr r) (\<lambda>r.
        Inr (case kms_key_name of Some kms \<Rightarrow> r\<lparr>tr_kms_key_name := kms\<rparr> | None \<Rightarrow> r)))"

definition topic_update ::
    "'s kv_ops \<Rightarrow> ext \<Rightarrow> 's \<Rightarrow> string \<Rightarrow> attributes option \<Rightarrow> int option option \<Rightarrow>
     string option option \<Rightarrow> ('s, topic_record) st_result" where
  "topic_update K X s full_name labels message_retention_secs kms_key_name =
     with_r (topic_get K X s full_name) s (\<lambda>r.
     with_r (topic_patch labels message_retention_secs kms_key_name r) s (\<lambda>r.
       bind_st (topic_put_record K X s r) (\<lambda>_ s. (Inr r, s))))"

definition topic_delete :: "'s kv_ops \<Rightarrow> 's \<Rightarrow> string \<Rightarrow> ('s, unit) st_result" where
  "topic_delete K s full_name =
     with_r (topic_resolve_id K s full_name) s (\<lambda>i.
       bind_st (kv_delete K s ''meta'' (topic_key i)) (\<lambda>_ s.
       bind_st (kv_delete K s ''meta'' (name_key KTopic full_name)) (\<lambda>_ s.
       (Inr (), s))))"

type_synonym new_message = "bytes \<times> attributes \<times> string"

text \<open>The validation loop of \<open>append\<close>: the bytes of the batch, or the first error.\<close>

fun attribute_bytes :: "nat \<Rightarrow> attributes \<Rightarrow> nat" where
  "attribute_bytes acc [] = acc"
| "attribute_bytes acc ((k, v) # as) =
     attribute_bytes (usize_sat_add (usize_sat_add acc (length k)) (length v)) as"

fun append_validate :: "nat \<Rightarrow> new_message list \<Rightarrow> nat result" where
  "append_validate tot [] = Inr tot"
| "append_validate tot ((payload, attributes, ordering_key) # ms) =
     bind_r (validate_message (length payload) attributes ordering_key) (\<lambda>_.
       append_validate (attribute_bytes (usize_sat_add tot (length payload)) attributes) ms)"

text \<open>The writing loop of \<open>append\<close>.\<close>

fun append_write ::
    "'s kv_ops \<Rightarrow> ext \<Rightarrow> u64 \<Rightarrow> int \<Rightarrow> int \<Rightarrow> 's \<Rightarrow> new_message list \<Rightarrow> ('s, u64 list) st_result" where
  "append_write K X topic_id now_ms expire_at_ms s [] = (Inr [], s)"
| "append_write K X topic_id now_ms expire_at_ms s ((payload, attributes, ordering_key) # ms) =
     bind_st (next_seq K s topic_id) (\<lambda>seq s.
       let r = \<lparr>mr_publish_ts_ms = now_ms, mr_ordering_key = ordering_key,
                mr_attributes = attributes, mr_payload = payload,
                mr_expire_at_ms = expire_at_ms\<rparr>
       in bind_st (kv_put K s ''msg'' (msg_key topic_id seq) (message_encode X r)) (\<lambda>_ s.
          bind_st (append_write K X topic_id now_ms expire_at_ms s ms) (\<lambda>seqs s.
          (Inr (seq # seqs), s))))"

definition topic_append ::
    "'s kv_ops \<Rightarrow> ext \<Rightarrow> 's \<Rightarrow> u64 \<Rightarrow> new_message list \<Rightarrow> int \<Rightarrow> int \<Rightarrow> ('s, u64 list) st_result" where
  "topic_append K X s topic_id messages now_ms retention_secs =
     with_r (append_validate 0 messages) s (\<lambda>total_bytes.
     with_r (validate_publish_batch (length messages) total_bytes) s (\<lambda>_.
       let expire_at_ms = i64_sat_add now_ms (i64_sat_mul retention_secs 1000)
       in append_write K X topic_id now_ms expire_at_ms s messages))"

section \<open>Binary search by publish time\<close>

lemma word_mid_bounds:
  fixes lo hi :: u64
  assumes "lo < hi"
  shows "lo \<le> lo + (hi - lo) div 2" and "lo + (hi - lo) div 2 < hi"
    and "unat (lo + (hi - lo) div 2) = unat lo + (unat hi - unat lo) div 2"
proof -
  have d: "unat (hi - lo) = unat hi - unat lo"
    using assms by (simp add: unat_sub order_less_imp_le)
  have "unat lo + (unat hi - unat lo) div 2 < unat hi"
    using assms by (simp add: word_less_nat_alt)
  moreover have "unat hi < 2 ^ LENGTH(64)" by (rule unsigned_less)
  ultimately show u: "unat (lo + (hi - lo) div 2) = unat lo + (unat hi - unat lo) div 2"
    by (simp add: unat_word_ariths unat_div d)
  show "lo \<le> lo + (hi - lo) div 2" "lo + (hi - lo) div 2 < hi"
    using assms unfolding word_le_nat_alt word_less_nat_alt u by auto
qed

lemma unat_Suc_less:
  fixes a b :: u64
  assumes "a < b"
  shows "unat (a + 1) = Suc (unat a)"
proof -
  have "unat a < unat b" using assms by (simp add: word_less_nat_alt)
  moreover have "unat b < 2 ^ LENGTH(64)" by (rule unsigned_less)
  ultimately show ?thesis by (simp add: unat_word_ariths)
qed

function seq_search :: "(u64 \<Rightarrow> int) \<Rightarrow> int \<Rightarrow> u64 \<Rightarrow> u64 \<Rightarrow> u64" where
  "seq_search ts target lo hi =
     (if lo < hi then
        let mid = lo + (hi - lo) div 2
        in if ts mid < target then seq_search ts target (mid + 1) hi
           else seq_search ts target lo mid
      else lo)"
  by pat_completeness auto
termination
proof (relation "measure (\<lambda>(ts, target, lo, hi). unat hi - unat lo)", goal_cases)
  case (2 ts target lo hi mid)
  then have "lo \<le> mid" "mid < hi" using word_mid_bounds [of lo hi] by simp_all
  then show ?case
    by (simp add: unat_Suc_less [of mid hi] word_le_nat_alt word_less_nat_alt)
next
  case (3 ts target lo hi mid)
  then have "lo \<le> mid" "mid < hi" using word_mid_bounds [of lo hi] by simp_all
  then show ?case
    by (simp add: word_le_nat_alt word_less_nat_alt)
qed simp

declare seq_search.simps [simp del]

text \<open>The time the search reads at a position: a missing or unreadable row counts as oldest.\<close>

definition publish_ts_at :: "'s kv_ops \<Rightarrow> ext \<Rightarrow> 's \<Rightarrow> u64 \<Rightarrow> u64 \<Rightarrow> int" where
  "publish_ts_at K X s topic_id mid =
     (case kv_get K s ''msg'' (msg_key topic_id mid) of
        None \<Rightarrow> i64_min
      | Some b \<Rightarrow> (case message_decode X b of None \<Rightarrow> i64_min | Some m \<Rightarrow> mr_publish_ts_ms m))"

definition seq_boundary_for_time :: "'s kv_ops \<Rightarrow> ext \<Rightarrow> 's \<Rightarrow> u64 \<Rightarrow> int \<Rightarrow> u64" where
  "seq_boundary_for_time K X s topic_id target_ts_ms =
     (let tail = current_tail K s topic_id
      in seq_search (publish_ts_at K X s topic_id) target_ts_ms 1 (word_sat_add tail 1))"

section \<open>The topic registry\<close>

sublocale ext_laws \<subseteq> topics: registry KTopic topic_key "topic_to_vec X" "topic_from_slice X" tr_id tr_name
  by unfold_locales (auto simp: topic_rt)

lemma read_counter_view: "read_counter K s k = counter_value (kv_view K s) k"
  by (simp add: read_counter_def counter_value_def kv_get_view)

lemma word_sat_add_one: "(n :: u64) < - 1 \<Longrightarrow> word_sat_add n 1 = n + 1"
  by (intro word_sat_add_exact) (simp add: word_less_nat_alt unsigned_minus_1_eq_mask mask_eq_exp_minus_1)

lemma less_word_sat_add_one: "(n :: u64) < - 1 \<Longrightarrow> n < word_sat_add n 1"
  by (simp add: word_less_nat_alt unat_word_sat_add unsigned_minus_1_eq_mask mask_eq_exp_minus_1)

lemma topic_patch_ok:
  "topic_patch labels ret kms r0 = Inr r \<Longrightarrow>
     r = \<lparr>tr_id = tr_id r0, tr_name = tr_name r0,
         tr_labels = (case labels of Some l \<Rightarrow> l | None \<Rightarrow> tr_labels r0),
         tr_message_retention_secs =
           (case ret of Some (Some secs) \<Rightarrow> secs | Some None \<Rightarrow> 0 | None \<Rightarrow> tr_message_retention_secs r0),
         tr_kms_key_name = (case kms of Some k \<Rightarrow> k | None \<Rightarrow> tr_kms_key_name r0)\<rparr>"
  by (cases labels; cases kms; cases ret; cases "the ret"; cases r0)
    (auto simp: topic_patch_def result_iffs)

context store_env
begin

abbreviation V :: "'s \<Rightarrow> view" where "V \<equiv> kv_view K"

lemma put_ok':
  "kv_put K s ks k v = (Inr u, s') \<Longrightarrow> wf s \<Longrightarrow> ks \<in> keyspaces \<Longrightarrow>
     wf s' \<and> V s' = (V s)((ks, k) \<mapsto> v)"
  using put_ok by blast

lemma delete_ok':
  "kv_delete K s ks k = (Inr u, s') \<Longrightarrow> wf s \<Longrightarrow> ks \<in> keyspaces \<Longrightarrow>
     wf s' \<and> V s' = (V s)((ks, k) := None)"
  using delete_ok by blast

lemma topic_next_id_ok:
  assumes "wf s" and "topic_next_id K s = (Inr i, s')"
  shows "wf s' \<and> i = word_sat_add (counter_value (V s) id_seq_key) 1 \<and>
    V s' = (V s)((''meta'', id_seq_key) \<mapsto> to_be_bytes i)"
  using assms by (auto simp: topic_next_id_def Let_def result_iffs read_counter_view dest!: put_ok')

lemma topic_put_record_ok:
  assumes "wf s" and "topic_put_record K X s r = (Inr u, s')"
  shows "\<exists>v. topic_to_vec X r = Some v \<and> wf s' \<and> V s' = (V s)((''meta'', topic_key (tr_id r)) \<mapsto> v)"
  using assms by (auto simp: topic_put_record_def result_iffs dest!: put_ok')

lemma topic_create_ok:
  assumes "wf s" and "topic_create K X s n labels ret kms schema ingest = (Inr r, s')"
  shows "\<exists>v. topic_to_vec X r = Some v \<and> wf s' \<and> is_ok (topic_name_parse n) \<and>
    V s (''meta'', name_key KTopic n) = None \<and>
    tr_name r = n \<and> tr_labels r = labels \<and> tr_kms_key_name r = kms \<and>
    tr_message_retention_secs r = (case ret of Some secs \<Rightarrow> secs | None \<Rightarrow> 0) \<and>
    tr_id r = word_sat_add (counter_value (V s) id_seq_key) 1 \<and>
    V s' = topics.rows_of r v ((V s)((''meta'', id_seq_key) \<mapsto> to_be_bytes (tr_id r)))"
proof -
  obtain i s1 s2 where guards: "is_ok (topic_name_parse n)" "V s (''meta'', name_key KTopic n) = None"
    and r: "r = \<lparr>tr_id = i, tr_name = n, tr_labels = labels, tr_message_retention_secs =
      (case ret of Some secs \<Rightarrow> secs | None \<Rightarrow> 0), tr_kms_key_name = kms\<rparr>"
    and steps: "topic_next_id K s = (Inr i, s1)" "topic_put_record K X s1 r = (Inr (), s2)"
    "kv_put K s2 ''meta'' (name_key KTopic n) (to_be_bytes i) = (Inr (), s')"
    using assms(2) by (auto simp: topic_create_def result_iffs Let_def kv_get_view split: if_splits)
  have 1: "wf s1" "i = word_sat_add (counter_value (V s) id_seq_key) 1"
    "V s1 = (V s)((''meta'', id_seq_key) \<mapsto> to_be_bytes i)"
    using topic_next_id_ok [OF assms(1) steps(1)] by simp_all
  obtain v where 2: "topic_to_vec X r = Some v" "wf s2" "V s2 = (V s1)((''meta'', topic_key (tr_id r)) \<mapsto> v)"
    using topic_put_record_ok [OF 1(1) steps(2)] by blast
  have "wf s'" "V s' = (V s2)((''meta'', name_key KTopic n) \<mapsto> to_be_bytes i)"
    using put_ok' [OF steps(3) 2(2)] by simp_all
  with guards 1 2 show ?thesis
    by (intro exI [of _ v]) (simp add: r topics.rows_of_def)
qed

lemma topic_create_refines:
  assumes "wf s" and "topics.good (V s)" and "counter_value (V s) id_seq_key < - 1"
    and "topic_create K X s n labels ret kms schema ingest = (Inr r, s')"
  shows "topics.look (V s) n = None" and "topics.look (V s') = (topics.look (V s))(n \<mapsto> r)"
    and "topics.good (V s')" and "wf s'"
proof -
  obtain v where c: "topic_to_vec X r = Some v" "wf s'" "V s (''meta'', name_key KTopic n) = None"
    "tr_name r = n" "tr_id r = word_sat_add (counter_value (V s) id_seq_key) 1"
    "V s' = topics.rows_of r v ((V s)((''meta'', id_seq_key) \<mapsto> to_be_bytes (tr_id r)))"
    using topic_create_ok [OF assms(1,4)] by blast
  have "counter_value (V s) id_seq_key < tr_id r"
    using assms(3) by (simp add: c(5) less_word_sat_add_one)
  then show "topics.look (V s') = (topics.look (V s))(n \<mapsto> r)" and "topics.good (V s')"
    using topics.create_step [of "V s" r v "V s'"] assms(2) c by simp_all
  show "topics.look (V s) n = None" using c(3) by (simp add: reg_lookup_def)
  show "wf s'" by (rule c)
qed

lemma topic_resolve_ok:
  "topics.good (V s) \<Longrightarrow> topic_resolve_id K s n = Inr i \<longleftrightarrow>
     is_ok (topic_name_parse n) \<and> (\<exists>r. topics.look (V s) n = Some r \<and> tr_id r = i)"
  by (cases "topic_name_parse n"; cases "V s (''meta'', name_key KTopic n)")
    (auto simp: topic_resolve_id_def kv_get_view ok_or_Inr_iff reg_lookup_def elim!: topics.goodD_name)

lemma topic_get_ok:
  assumes "topics.good (V s)" and "is_ok (topic_name_parse n)"
  shows "topic_get K X s n = ok_or (topics.look (V s) n) (NotFound n)"
proof (cases "V s (''meta'', name_key KTopic n)")
  case None
  then show ?thesis
    using assms(2) by (cases "topic_name_parse n")
      (auto simp: topic_get_def topic_resolve_id_def kv_get_view reg_lookup_def)
next
  case (Some b)
  with assms(1) obtain i v r where "b = to_be_bytes i" "V s (''meta'', topic_key i) = Some v"
    "topic_from_slice X v = Some r" "topics.look (V s) n = Some r"
    by (rule topics.goodD_name)
  then show ?thesis
    using Some assms(2) by (cases "topic_name_parse n")
      (auto simp: topic_get_def topic_resolve_id_def topic_load_record_def kv_get_view)
qed

lemma topic_delete_refines:
  assumes "wf s" and "topics.good (V s)" and "topic_delete K s n = (Inr (), s')"
  shows "topics.look (V s) n \<noteq> None" and "topics.look (V s') = (topics.look (V s))(n := None)"
    and "topics.good (V s')" and "wf s'"
proof -
  obtain r where r: "topics.look (V s) n = Some r"
    and V': "wf s' \<and> V s' = (V s)((''meta'', topic_key (tr_id r)) := None, (''meta'', name_key KTopic n) := None)"
    using assms by (auto simp: topic_delete_def result_iffs topic_resolve_ok dest!: delete_ok')
  have n: "tr_name r = n" using assms(2) r by (rule topics.look_Some)
  show "topics.look (V s') = (topics.look (V s))(n := None)" and "topics.good (V s')"
    using topics.delete_step [OF assms(2) r] V' n by (simp_all add: topics.no_rows_of_def)
  show "topics.look (V s) n \<noteq> None" "wf s'" using r V' by simp_all
qed

lemma topic_update_refines:
  assumes "wf s" and "topics.good (V s)" and "topic_update K X s n labels ret kms = (Inr r, s')"
  shows "\<exists>r0. topics.look (V s) n = Some r0 \<and>
    r = \<lparr>tr_id = tr_id r0, tr_name = n,
         tr_labels = (case labels of Some l \<Rightarrow> l | None \<Rightarrow> tr_labels r0),
         tr_message_retention_secs =
           (case ret of Some (Some secs) \<Rightarrow> secs | Some None \<Rightarrow> 0 | None \<Rightarrow> tr_message_retention_secs r0),
         tr_kms_key_name = (case kms of Some k \<Rightarrow> k | None \<Rightarrow> tr_kms_key_name r0)\<rparr> \<and>
    topics.look (V s') = (topics.look (V s))(n \<mapsto> r) \<and> topics.good (V s') \<and> wf s'"
proof -
  have "is_ok (topic_name_parse n)"
    using assms(3) by (auto simp: topic_update_def topic_get_def topic_resolve_id_def result_iffs)
  then obtain r0 where r0: "topics.look (V s) n = Some r0"
    and put: "topic_put_record K X s r = (Inr (), s')"
    and r: "topic_patch labels ret kms r0 = Inr r"
    using assms(3) topic_get_ok [OF assms(2)]
    by (auto simp: topic_update_def result_iffs)
  have n: "tr_name r0 = n" using assms(2) r0 by (rule topics.look_Some)
  obtain v where "topic_to_vec X r = Some v" "wf s'" "V s' = (V s)((''meta'', topic_key (tr_id r)) \<mapsto> v)"
    using topic_put_record_ok [OF assms(1) put] by blast
  then show ?thesis
    using topics.update_step [of "V s" r r0 v "V s'"] assms(2) r0 n
    by (simp add: topic_patch_ok [OF r])
qed

end

section \<open>The message log\<close>

abbreviation log_tail :: "view \<Rightarrow> u64 \<Rightarrow> u64" where
  "log_tail V t \<equiv> counter_value V (topic_seq_counter_key t)"

lemma current_tail_view: "current_tail K s t = log_tail (kv_view K s) t"
  by (simp add: current_tail_def read_counter_view)

definition new_record :: "int \<Rightarrow> int \<Rightarrow> new_message \<Rightarrow> message_record" where
  "new_record now expire m =
     (case m of (payload, attributes, ordering_key) \<Rightarrow>
        \<lparr>mr_publish_ts_ms = now, mr_ordering_key = ordering_key, mr_attributes = attributes,
         mr_payload = payload, mr_expire_at_ms = expire\<rparr>)"

definition message_size :: "new_message \<Rightarrow> nat" where
  "message_size m = length (fst m) + attributes_size (fst (snd m))"

definition valid_batch :: "new_message list \<Rightarrow> bool" where
  "valid_batch ms \<longleftrightarrow>
     (\<forall>(payload, attributes, ordering_key) \<in> set ms. valid_message (length payload) attributes ordering_key) \<and>
     length ms \<le> 1000 \<and> sum_list (map message_size ms) \<le> 10485760"

lemma attribute_bytes_eq:
  "attribute_bytes (min usize_max acc) as = min usize_max (acc + attributes_size as)"
proof (induction as arbitrary: acc)
  case (Cons a as)
  then show ?case
    by (cases a) (simp add: usize_sat_add_assoc_min Cons.IH add.assoc)
qed simp

lemma append_validate_eq:
  "append_validate (min usize_max t) ms = Inr n \<longleftrightarrow>
     (\<forall>(payload, attributes, ordering_key) \<in> set ms.
        valid_message (length payload) attributes ordering_key) \<and>
     n = min usize_max (t + sum_list (map message_size ms))"
proof (induction ms arbitrary: t)
  case (Cons m ms)
  obtain p as ok where m: "m = (p, as, ok)" by (cases m) auto
  have "attribute_bytes (usize_sat_add (min usize_max t) (length p)) as =
      min usize_max (t + message_size m)"
  proof -
    have "usize_sat_add (min usize_max t) (length p) = min usize_max (t + length p)"
      by (simp add: usize_sat_add_def min_def)
    then show ?thesis by (simp add: attribute_bytes_eq m message_size_def add.assoc)
  qed
  then show ?case
    using validate_message_ok [of "length p" as ok]
    by (simp add: m bind_r_Inr_iff Cons.IH add.assoc conj_assoc)
qed auto

lemma batch_valid_iff:
  "(\<exists>n. append_validate 0 ms = Inr n \<and> validate_publish_batch (length ms) n = Inr ()) \<longleftrightarrow> valid_batch ms"
proof -
  have "append_validate 0 ms = Inr n \<longleftrightarrow>
      (\<forall>(payload, attributes, ordering_key) \<in> set ms.
        valid_message (length payload) attributes ordering_key) \<and>
      n = min usize_max (sum_list (map message_size ms))" for n
    using append_validate_eq [of 0] by simp
  then show ?thesis
    by (auto simp: valid_batch_def validate_publish_batch_def limit_defs usize_max_def min_def
        split: if_splits)
qed

context store_env
begin

lemma next_seq_ok:
  assumes "wf s" and "next_seq K s t = (Inr q, s')"
  shows "wf s' \<and> q = word_sat_add (log_tail (V s) t) 1 \<and>
    V s' = (V s)((''meta'', topic_seq_counter_key t) \<mapsto> to_be_bytes q)"
  using assms by (auto simp: next_seq_def Let_def result_iffs read_counter_view dest!: put_ok')

lemma append_write_ok:
  assumes "wf s" and "append_write K X t now expire s ms = (Inr qs, s')"
    and "unat (log_tail (V s) t) + length ms < 2 ^ 64"
  shows "wf s' \<and> qs = map (\<lambda>i. log_tail (V s) t + of_nat (Suc i)) [0..<length ms] \<and>
    log_tail (V s') t = log_tail (V s) t + of_nat (length ms) \<and>
    (\<forall>i < length ms. V s' (''msg'', msg_key t (log_tail (V s) t + of_nat (Suc i))) =
       Some (message_encode X (new_record now expire (ms ! i)))) \<and>
    (\<forall>p. p \<noteq> (''meta'', topic_seq_counter_key t) \<longrightarrow>
       (\<forall>i < length ms. p \<noteq> (''msg'', msg_key t (log_tail (V s) t + of_nat (Suc i)))) \<longrightarrow>
       V s' p = V s p)"
  using assms
proof (induction ms arbitrary: s qs)
  case (Cons m ms)
  obtain p as ok where m: "m = (p, as, ok)" by (cases m) auto
  let ?n = "log_tail (V s) t"
  obtain q s1 s2 qs2 where steps: "next_seq K s t = (Inr q, s1)"
    "kv_put K s1 ''msg'' (msg_key t q) (message_encode X (new_record now expire m)) = (Inr (), s2)"
    "append_write K X t now expire s2 ms = (Inr qs2, s')" and qs: "qs = q # qs2"
    using Cons.prems(2) by (auto simp: m result_iffs Let_def new_record_def)
  have 1: "wf s1" "V s1 = (V s)((''meta'', topic_seq_counter_key t) \<mapsto> to_be_bytes q)"
    using next_seq_ok [OF Cons.prems(1) steps(1)] by simp_all
  have q: "q = ?n + 1"
    using next_seq_ok [OF Cons.prems(1) steps(1)] Cons.prems(3)
    by (simp add: word_sat_add_exact)
  have 2: "wf s2" "V s2 = (V s1)((''msg'', msg_key t q) \<mapsto> message_encode X (new_record now expire m))"
    using put_ok' [OF steps(2) 1(1)] by simp_all
  have tail: "log_tail (V s2) t = ?n + 1"
    by (simp add: 1 2 q)
  have room: "unat (?n + 1) + length ms < 2 ^ 64" "unat (?n + 1) = Suc (unat ?n)"
    using Cons.prems(3) by (simp_all add: unat_word_ariths)
  have later: "?n + 1 + of_nat (Suc i) \<noteq> ?n + 1" if "i < length ms" for i
  proof -
    have "Suc i < 2 ^ 64" using that Cons.prems(3) by simp
    then have "unat (of_nat (Suc i) :: u64) = Suc i"
      by (simp add: unsigned_of_nat take_bit_nat_eq_self del: of_nat_Suc)
    then show ?thesis by (metis add_cancel_right_right nat.simps(3) unsigned_0)
  qed
  note IH = Cons.IH [OF 2(1) steps(3), unfolded tail, OF room(1)]
  have first: "V s' (''msg'', msg_key t (?n + 1)) = V s2 (''msg'', msg_key t (?n + 1))"
    using IH later by fastforce
  have shift: "?n + 1 + of_nat i = ?n + of_nat (Suc i)" for i
    by simp
  show ?case
  proof (intro conjI allI impI)
    show "wf s'" using IH by simp
    show "qs = map (\<lambda>i. ?n + of_nat (Suc i)) [0..<length (m # ms)]"
    proof -
      have "[0..<length (m # ms)] = 0 # map Suc [0..<length ms]"
        by (simp add: map_Suc_upt upt_conv_Cons del: upt_Suc)
      moreover have "qs2 = map (\<lambda>i. ?n + 1 + of_nat (Suc i)) [0..<length ms]"
        using IH by simp
      ultimately show ?thesis by (simp add: qs q shift comp_def)
    qed
    show "log_tail (V s') t = ?n + of_nat (length (m # ms))"
      using IH by simp
    fix i assume i: "i < length (m # ms)"
    show "V s' (''msg'', msg_key t (?n + of_nat (Suc i))) =
        Some (message_encode X (new_record now expire ((m # ms) ! i)))"
    proof (cases i)
      case 0
      then show ?thesis using first by (simp add: 2 q)
    next
      case (Suc j)
      then show ?thesis using IH i by (simp add: add.assoc)
    qed
  next
    fix p assume p: "p \<noteq> (''meta'', topic_seq_counter_key t)"
      "\<forall>i < length (m # ms). p \<noteq> (''msg'', msg_key t (?n + of_nat (Suc i)))"
    then have "p \<noteq> (''msg'', msg_key t (?n + 1))"
      "\<forall>i < length ms. p \<noteq> (''msg'', msg_key t (?n + 1 + of_nat (Suc i)))"
      unfolding shift by force+
    moreover have "V s' p = V s2 p"
      using IH p(1) calculation(2) by blast
    ultimately show "V s' p = V s p"
      using p(1) by (simp add: 1 2 q)
  qed
qed simp

end

lemma seq_search_correct:
  assumes "lo \<le> hi" and "\<And>p q. lo \<le> p \<Longrightarrow> p \<le> q \<Longrightarrow> q < hi \<Longrightarrow> ts p \<le> ts q"
  shows "lo \<le> seq_search ts target lo hi \<and> seq_search ts target lo hi \<le> hi \<and>
    (\<forall>q. lo \<le> q \<and> q < seq_search ts target lo hi \<longrightarrow> ts q < target) \<and>
    (\<forall>q. seq_search ts target lo hi \<le> q \<and> q < hi \<longrightarrow> target \<le> ts q)"
  using assms
proof (induction ts target lo hi rule: seq_search.induct)
  case (1 ts target lo hi)
  show ?case
  proof (cases "lo < hi")
    case True
    let ?mid = "lo + (hi - lo) div 2"
    note mid = word_mid_bounds [OF True]
    have Suc: "?mid < q \<longleftrightarrow> ?mid + 1 \<le> q" for q
      using unat_Suc_less [OF mid(2)] by (simp add: word_less_nat_alt word_le_nat_alt Suc_le_eq)
    show ?thesis
    proof (cases "ts ?mid < target")
      case small: True
      have step: "seq_search ts target lo hi = seq_search ts target (?mid + 1) hi"
        using True small by (subst seq_search.simps) (simp add: Let_def)
      have below: "ts q < target" if "lo \<le> q" "q \<le> ?mid" for q
        using "1.prems"(2) [OF that mid(2)] small by simp
      have IH: "?mid + 1 \<le> seq_search ts target (?mid + 1) hi \<and> seq_search ts target (?mid + 1) hi \<le> hi \<and>
          (\<forall>q. ?mid + 1 \<le> q \<and> q < seq_search ts target (?mid + 1) hi \<longrightarrow> ts q < target) \<and>
          (\<forall>q. seq_search ts target (?mid + 1) hi \<le> q \<and> q < hi \<longrightarrow> target \<le> ts q)"
      proof (rule "1.IH"(1) [OF True refl small])
        show "?mid + 1 \<le> hi" using mid(2) Suc by simp
        fix p q assume "?mid + 1 \<le> p" "p \<le> q" "q < hi"
        moreover from this(1) have "lo \<le> p" using mid(1) Suc [of p] by simp
        ultimately show "ts p \<le> ts q" using "1.prems"(2) by blast
      qed
      then have "lo \<le> seq_search ts target (?mid + 1) hi"
        using mid(1) Suc [of "seq_search ts target (?mid + 1) hi"] by simp
      moreover have "ts q < target" if "lo \<le> q" "q < seq_search ts target (?mid + 1) hi" for q
        using IH that below [of q] Suc [of q] by (cases "q \<le> ?mid") auto
      ultimately show ?thesis using IH unfolding step by blast
    next
      case False
      have step: "seq_search ts target lo hi = seq_search ts target lo ?mid"
        using True False by (subst seq_search.simps) (simp add: Let_def)
      have above: "target \<le> ts q" if "?mid \<le> q" "q < hi" for q
        using "1.prems"(2) [OF mid(1) that] False by simp
      have IH: "lo \<le> seq_search ts target lo ?mid \<and> seq_search ts target lo ?mid \<le> ?mid \<and>
          (\<forall>q. lo \<le> q \<and> q < seq_search ts target lo ?mid \<longrightarrow> ts q < target) \<and>
          (\<forall>q. seq_search ts target lo ?mid \<le> q \<and> q < ?mid \<longrightarrow> target \<le> ts q)"
      proof (rule "1.IH"(2) [OF True refl False])
        show "lo \<le> ?mid" by (rule mid)
        fix p q assume "lo \<le> p" "p \<le> q" "q < ?mid"
        moreover from this(3) have "q < hi" using mid(2) by simp
        ultimately show "ts p \<le> ts q" using "1.prems"(2) by blast
      qed
      then have "target \<le> ts q" if "seq_search ts target lo ?mid \<le> q" "q < hi" for q
        using that above [of q] by (cases "q < ?mid") auto
      moreover have "seq_search ts target lo ?mid \<le> hi"
        using IH less_imp_le [OF mid(2)] by (blast intro: order_trans)
      ultimately show ?thesis using IH unfolding step by blast
    qed
  next
    case False
    with "1.prems"(1) have "lo = hi" by simp
    then show ?thesis by (subst (1 2 3 4) seq_search.simps) auto
  qed
qed

end
