(* ===== verification/Subscription.thy ===== *)
theory Subscription
  imports Topic
begin

text \<open>
  The subscription store, \<open>crates/open-pubusb-core/src/subscription.rs\<close>: subscription rows with
  their name index, the initial cursor and the topic-to-subscription index row.
\<close>

section \<open>Parameters\<close>

record create_subscription_options =
  co_ack_deadline_secs :: "int option"
  co_retain_acked_messages :: bool
  co_message_retention_secs :: "int option"
  co_labels :: attributes
  co_enable_message_ordering :: bool
  co_expiration_ttl_secs :: "int option option"
  co_filter :: string
  co_dead_letter_topic :: "string option"
  co_max_delivery_attempts :: "int option"
  co_min_retry_backoff_secs :: "int option"
  co_max_retry_backoff_secs :: "int option"
  co_enable_exactly_once_delivery :: bool
  co_push_config :: "push_config option"
  co_has_bigquery_config :: bool
  co_has_cloud_storage_config :: bool

record subscription_update_patch =
  up_ack_deadline_secs :: "int option"
  up_retain_acked_messages :: "bool option"
  up_message_retention_secs :: "int option"
  up_labels :: "attributes option"
  up_expiration_ttl_secs :: "int option option"
  up_dead_letter_topic :: "string option option"
  up_max_delivery_attempts :: "int option"
  up_min_retry_backoff_secs :: "int option"
  up_max_retry_backoff_secs :: "int option"
  up_detached :: "bool option"
  up_enable_exactly_once_delivery :: "bool option"
  up_push_config :: "push_config option option"

definition unwrap_or :: "'a option \<Rightarrow> 'a \<Rightarrow> 'a" where
  "unwrap_or x d = (case x of Some v \<Rightarrow> v | None \<Rightarrow> d)"

section \<open>Rows\<close>

definition decode_id :: "bytes \<Rightarrow> u64 result" where
  "decode_id b = ok_or (decode_u64 b) Internal"

definition sub_persist :: "'s kv_ops \<Rightarrow> ext \<Rightarrow> 's \<Rightarrow> subscription_record \<Rightarrow> ('s, unit) st_result" where
  "sub_persist K X s r =
     with_r (ok_or (sub_to_vec X r) Internal) s (\<lambda>b.
       bind_st (kv_put K s ''meta'' (sub_key (sr_id r)) b) (\<lambda>_ s.
       bind_st (kv_put K s ''meta'' (name_key KSubscription (sr_name r)) (to_be_bytes (sr_id r))) (\<lambda>_ s.
       (Inr (), s))))"

definition sub_load :: "'s kv_ops \<Rightarrow> ext \<Rightarrow> 's \<Rightarrow> u64 \<Rightarrow> string \<Rightarrow> subscription_record result" where
  "sub_load K X s i resource_for_err =
     bind_r (ok_or (kv_get K s ''meta'' (sub_key i)) (NotFound resource_for_err)) (\<lambda>b.
       ok_or (sub_from_slice X b) Internal)"

definition sub_get_by_id :: "'s kv_ops \<Rightarrow> ext \<Rightarrow> 's \<Rightarrow> u64 \<Rightarrow> subscription_record result" where
  "sub_get_by_id K X s i = sub_load K X s i (''subscription id='' @ nat_to_string (unat i))"

definition sub_next_id :: "'s kv_ops \<Rightarrow> 's \<Rightarrow> ('s, u64) st_result" where
  "sub_next_id K s =
     with_r (case kv_get K s ''meta'' id_seq_key of
               Some b \<Rightarrow> decode_id b
             | None \<Rightarrow> Inr 0) s (\<lambda>current.
     with_r (ok_or (word_checked_add current 1) ResourceExhausted) s (\<lambda>next.
       bind_st (kv_put K s ''meta'' id_seq_key (to_be_bytes next)) (\<lambda>_ s. (Inr next, s))))"

section \<open>Operations\<close>

text \<open>The validation and the defaults of \<open>create\<close>: the record to store, but for its id.\<close>

definition sub_build_record ::
    "string \<Rightarrow> string \<Rightarrow> u64 \<Rightarrow> int \<Rightarrow> create_subscription_options \<Rightarrow> (u64 \<Rightarrow> subscription_record) result"
where
  "sub_build_record full_name topic_full_name topic_id now_ms opts =
     bind_r (subscription_name_parse full_name) (\<lambda>_.
     bind_r (topic_name_parse topic_full_name) (\<lambda>_.
     bind_r (if co_has_bigquery_config opts then Inl (InvalidArgument ''bigquery_config'')
             else if co_has_cloud_storage_config opts then Inl (InvalidArgument ''cloud_storage_config'')
             else Inr ()) (\<lambda>_.
     let ack_deadline_secs = unwrap_or (co_ack_deadline_secs opts) 10 in
     bind_r (validate_ack_deadline_secs ack_deadline_secs) (\<lambda>_.
     let message_retention_secs = unwrap_or (co_message_retention_secs opts) 604800 in
     bind_r (validate_subscription_retention_secs message_retention_secs) (\<lambda>_.
     bind_r (validate_filter_len (co_filter opts)) (\<lambda>_.
     bind_r (if co_dead_letter_topic opts \<noteq> None then
               let requested = unwrap_or (co_max_delivery_attempts opts) 0 in
               bind_r (validate_dead_letter_max_attempts requested) (\<lambda>_.
                 Inr (if requested = 0 then 5 else requested))
             else Inr 0) (\<lambda>max_delivery_attempts.
     let retry_policy_explicit =
           (co_min_retry_backoff_secs opts \<noteq> None \<or> co_max_retry_backoff_secs opts \<noteq> None) in
     bind_r (case co_min_retry_backoff_secs opts of
               Some v \<Rightarrow> bind_r (validate_retry_backoff_secs v) (\<lambda>_. Inr v)
             | None \<Rightarrow> Inr 10) (\<lambda>min_retry_backoff_secs.
     bind_r (case co_max_retry_backoff_secs opts of
               Some v \<Rightarrow> bind_r (validate_retry_backoff_secs v) (\<lambda>_. Inr v)
             | None \<Rightarrow> Inr 600) (\<lambda>max_retry_backoff_secs.
     let expiration_ttl_secs = unwrap_or (co_expiration_ttl_secs opts) (Some (31 * 24 * 3600)) in
     Inr (\<lambda>sub_id.
       \<lparr>sr_id = sub_id, sr_name = full_name, sr_topic = topic_full_name, sr_topic_id = topic_id,
        sr_ack_deadline_secs = ack_deadline_secs,
        sr_retain_acked_messages = co_retain_acked_messages opts,
        sr_message_retention_secs = message_retention_secs,
        sr_labels = co_labels opts,
        sr_enable_message_ordering = co_enable_message_ordering opts,
        sr_expiration_ttl_secs = expiration_ttl_secs,
        sr_filter = co_filter opts,
        sr_dead_letter_topic = co_dead_letter_topic opts,
        sr_max_delivery_attempts = max_delivery_attempts,
        sr_min_retry_backoff_secs = min_retry_backoff_secs,
        sr_max_retry_backoff_secs = max_retry_backoff_secs,
        sr_retry_policy_explicit = retry_policy_explicit,
        sr_detached = False,
        sr_enable_exactly_once_delivery = co_enable_exactly_once_delivery opts,
        sr_push_config = co_push_config opts,
        sr_last_activity_ts_ms = now_ms\<rparr>))))))))))"

definition sub_create ::
    "'s kv_ops \<Rightarrow> ext \<Rightarrow> 's \<Rightarrow> string \<Rightarrow> string \<Rightarrow> u64 \<Rightarrow> u64 \<Rightarrow> int \<Rightarrow> create_subscription_options \<Rightarrow>
     ('s, subscription_record) st_result" where
  "sub_create K X s full_name topic_full_name topic_id attach_seq now_ms opts =
     with_r (sub_build_record full_name topic_full_name topic_id now_ms opts) s (\<lambda>record_of.
       if kv_get K s ''meta'' (name_key KSubscription full_name) \<noteq> None
       then (Inl (AlreadyExists full_name), s)
       else bind_st (sub_next_id K s) (\<lambda>sub_id s.
         let r = record_of sub_id;
             cursor = \<lparr>cr_attach_seq = attach_seq, cr_acked_floor = attach_seq,
                       cr_acked_above_floor = []\<rparr>
         in bind_st (sub_persist K X s r) (\<lambda>_ s.
            bind_st (kv_put K s ''sub'' (cursor_key sub_id) (cursor_encode X cursor)) (\<lambda>_ s.
            bind_st (kv_put K s ''idx'' (topic_sub_idx_key topic_id sub_id) []) (\<lambda>_ s.
            (Inr r, s))))))"

definition sub_get :: "'s kv_ops \<Rightarrow> ext \<Rightarrow> 's \<Rightarrow> string \<Rightarrow> subscription_record result" where
  "sub_get K X s full_name =
     bind_r (ok_or (kv_get K s ''meta'' (name_key KSubscription full_name)) (NotFound full_name)) (\<lambda>b.
     bind_r (decode_id b) (\<lambda>i. sub_load K X s i full_name))"

text \<open>\<open>String::from_utf8\<close> of a key's name part; it was written from a string.\<close>

definition from_utf8 :: "bytes \<Rightarrow> string" where
  "from_utf8 bs = map (\<lambda>b. char_of (unat b)) bs"

fun sub_get_all :: "'s kv_ops \<Rightarrow> ext \<Rightarrow> 's \<Rightarrow> string list \<Rightarrow> subscription_record list result" where
  "sub_get_all K X s [] = Inr []"
| "sub_get_all K X s (n # ns) =
     bind_r (sub_get K X s n) (\<lambda>r. bind_r (sub_get_all K X s ns) (\<lambda>rs. Inr (r # rs)))"

definition sub_list ::
    "'s kv_ops \<Rightarrow> ext \<Rightarrow> 's \<Rightarrow> string \<Rightarrow> nat \<Rightarrow> string option \<Rightarrow>
     (subscription_record list \<times> string option) result" where
  "sub_list K X s project_id page_size page_token =
     (let pre = name_key KSubscription [];
          entries = kv_scan_prefix K s ''meta'' pre;
          project_prefix = ''projects/'' @ project_id @ ''/subscriptions/'';
          names = sort (filter (prefix project_prefix)
                    (map (\<lambda>(k, _). from_utf8 (drop (length pre) k)) entries));
          start = (case page_token of
                     Some token \<Rightarrow> length (takeWhile (\<lambda>n. \<not> token < n) names)
                   | None \<Rightarrow> 0);
          effective_page_size = (if page_size = 0 then usize_max else page_size);
          stop = min (usize_sat_add start effective_page_size) (length names)
      in bind_r (sub_get_all K X s (take (stop - start) (drop start names))) (\<lambda>records.
         Inr (records,
              if stop < length names
              then (if stop - 1 < length names then Some (names ! (stop - 1)) else None)
              else None)))"

definition sub_list_by_topic_id :: "'s kv_ops \<Rightarrow> 's \<Rightarrow> u64 \<Rightarrow> u64 list" where
  "sub_list_by_topic_id K s topic_id =
     map (\<lambda>(k, _). from_be_bytes (take 8 (drop 8 k)))
       (filter (\<lambda>(k, _). length k = 16) (kv_scan_prefix K s ''idx'' (topic_sub_idx_prefix topic_id)))"

text \<open>The field assignments of \<open>update\<close>, in the order of the source.\<close>

definition sub_patch :: "subscription_update_patch \<Rightarrow> subscription_record \<Rightarrow> subscription_record result" where
  "sub_patch p r0 =
     bind_r (case up_ack_deadline_secs p of
               Some v \<Rightarrow> bind_r (validate_ack_deadline_secs v) (\<lambda>_. Inr (r0\<lparr>sr_ack_deadline_secs := v\<rparr>))
             | None \<Rightarrow> Inr r0) (\<lambda>r.
     let r = (case up_retain_acked_messages p of
                Some v \<Rightarrow> r\<lparr>sr_retain_acked_messages := v\<rparr> | None \<Rightarrow> r) in
     bind_r (case up_message_retention_secs p of
               Some v \<Rightarrow> bind_r (validate_subscription_retention_secs v) (\<lambda>_.
                            Inr (r\<lparr>sr_message_retention_secs := v\<rparr>))
             | None \<Rightarrow> Inr r) (\<lambda>r.
     let r = (case up_labels p of Some v \<Rightarrow> r\<lparr>sr_labels := v\<rparr> | None \<Rightarrow> r);
         r = (case up_expiration_ttl_secs p of Some v \<Rightarrow> r\<lparr>sr_expiration_ttl_secs := v\<rparr> | None \<Rightarrow> r);
         r = (case up_dead_letter_topic p of Some v \<Rightarrow> r\<lparr>sr_dead_letter_topic := v\<rparr> | None \<Rightarrow> r) in
     bind_r (case up_max_delivery_attempts p of
               Some v \<Rightarrow> bind_r (validate_dead_letter_max_attempts v) (\<lambda>_.
                            Inr (r\<lparr>sr_max_delivery_attempts := if v = 0 then 5 else v\<rparr>))
             | None \<Rightarrow> Inr r) (\<lambda>r.
     bind_r (case up_min_retry_backoff_secs p of
               Some v \<Rightarrow> bind_r (validate_retry_backoff_secs v) (\<lambda>_.
                            Inr (r\<lparr>sr_min_retry_backoff_secs := v, sr_retry_policy_explicit := True\<rparr>))
             | None \<Rightarrow> Inr r) (\<lambda>r.
     bind_r (case up_max_retry_backoff_secs p of
               Some v \<Rightarrow> bind_r (validate_retry_backoff_secs v) (\<lambda>_.
                            Inr (r\<lparr>sr_max_retry_backoff_secs := v, sr_retry_policy_explicit := True\<rparr>))
             | None \<Rightarrow> Inr r) (\<lambda>r.
     let r = (case up_detached p of Some v \<Rightarrow> r\<lparr>sr_detached := v\<rparr> | None \<Rightarrow> r);
         r = (case up_enable_exactly_once_delivery p of
                Some v \<Rightarrow> r\<lparr>sr_enable_exactly_once_delivery := v\<rparr> | None \<Rightarrow> r);
         r = (case up_push_config p of Some v \<Rightarrow> r\<lparr>sr_push_config := v\<rparr> | None \<Rightarrow> r)
     in Inr r)))))"

definition sub_update ::
    "'s kv_ops \<Rightarrow> ext \<Rightarrow> 's \<Rightarrow> string \<Rightarrow> subscription_update_patch \<Rightarrow> ('s, subscription_record) st_result"
where
  "sub_update K X s full_name p =
     with_r (sub_get K X s full_name) s (\<lambda>r.
     with_r (sub_patch p r) s (\<lambda>r.
       bind_st (sub_persist K X s r) (\<lambda>_ s. (Inr r, s))))"

definition sub_id_text :: "u64 \<Rightarrow> string" where
  "sub_id_text i = ''sub_id='' @ nat_to_string (unat i)"

definition set_topic_to_deleted :: "'s kv_ops \<Rightarrow> ext \<Rightarrow> 's \<Rightarrow> u64 \<Rightarrow> ('s, unit) st_result" where
  "set_topic_to_deleted K X s sub_id =
     with_r (sub_load K X s sub_id (sub_id_text sub_id)) s (\<lambda>r.
       sub_persist K X s (r\<lparr>sr_topic := DELETED_TOPIC\<rparr>))"

definition sub_touch :: "'s kv_ops \<Rightarrow> ext \<Rightarrow> 's \<Rightarrow> u64 \<Rightarrow> int \<Rightarrow> ('s, unit) st_result" where
  "sub_touch K X s sub_id now_ms =
     (case sub_load K X s sub_id (sub_id_text sub_id) of
        Inl _ \<Rightarrow> (Inr (), s)
      | Inr r \<Rightarrow> sub_persist K X s (r\<lparr>sr_last_activity_ts_ms := now_ms\<rparr>))"

definition sub_detach :: "'s kv_ops \<Rightarrow> ext \<Rightarrow> 's \<Rightarrow> string \<Rightarrow> ('s, unit) st_result" where
  "sub_detach K X s full_name =
     with_r (sub_get K X s full_name) s (\<lambda>r. sub_persist K X s (r\<lparr>sr_detached := True\<rparr>))"

definition sub_set_push_config ::
    "'s kv_ops \<Rightarrow> ext \<Rightarrow> 's \<Rightarrow> string \<Rightarrow> push_config option \<Rightarrow> ('s, unit) st_result" where
  "sub_set_push_config K X s full_name push =
     with_r (sub_get K X s full_name) s (\<lambda>r. sub_persist K X s (r\<lparr>sr_push_config := push\<rparr>))"

definition sub_delete :: "'s kv_ops \<Rightarrow> ext \<Rightarrow> 's \<Rightarrow> string \<Rightarrow> ('s, unit) st_result" where
  "sub_delete K X s full_name =
     with_r (sub_get K X s full_name) s (\<lambda>r.
       bind_st (kv_delete K s ''meta'' (sub_key (sr_id r))) (\<lambda>_ s.
       bind_st (kv_delete K s ''meta'' (name_key KSubscription (sr_name r))) (\<lambda>_ s.
       bind_st (kv_delete K s ''sub'' (cursor_key (sr_id r))) (\<lambda>_ s.
       bind_st (kv_delete K s ''idx'' (topic_sub_idx_key (sr_topic_id r) (sr_id r))) (\<lambda>_ s.
       (Inr (), s))))))"

definition sub_list_all :: "'s kv_ops \<Rightarrow> ext \<Rightarrow> 's \<Rightarrow> subscription_record list" where
  "sub_list_all K X s =
     List.map_filter (\<lambda>(_, v). sub_from_slice X v) (kv_scan_prefix K s ''meta'' (as_bytes ''s/''))"

fun sub_sweep_loop ::
    "'s kv_ops \<Rightarrow> ext \<Rightarrow> int \<Rightarrow> 's \<Rightarrow> subscription_record list \<Rightarrow> ('s, string list) st_result" where
  "sub_sweep_loop K X now_ms s [] = (Inr [], s)"
| "sub_sweep_loop K X now_ms s (r # rs) =
     (case sr_expiration_ttl_secs r of
        None \<Rightarrow> sub_sweep_loop K X now_ms s rs
      | Some ttl_secs \<Rightarrow>
          let expires_at_ms = i64_sat_add (sr_last_activity_ts_ms r) (i64_sat_mul ttl_secs 1000)
          in if now_ms \<ge> expires_at_ms then
               bind_st (sub_delete K X s (sr_name r)) (\<lambda>_ s.
               bind_st (sub_sweep_loop K X now_ms s rs) (\<lambda>removed s.
               (Inr (sr_name r # removed), s)))
             else sub_sweep_loop K X now_ms s rs)"

definition sub_sweep_expired :: "'s kv_ops \<Rightarrow> ext \<Rightarrow> 's \<Rightarrow> int \<Rightarrow> ('s, string list) st_result" where
  "sub_sweep_expired K X s now_ms = sub_sweep_loop K X now_ms s (sub_list_all K X s)"

end
