(* ===== verification/Retry.thy ===== *)
theory Retry
  imports Names
begin

text \<open>
  Redelivery policy: the exponential backoff of
  \<open>crates/open-pubusb-core/src/delivery/retry.rs\<close> and the dead-letter decision and attributes of
  \<open>crates/open-pubusb-core/src/delivery/dead_letter.rs\<close>. A \<open>Duration\<close> is a number of
  nanoseconds, at most \<open>dur_max\<close>.
\<close>

section \<open>Backoff\<close>

definition dur_max :: nat where
  "dur_max = (2 ^ 64 - 1) * 1000000000 + 999999999"

definition dur_from_secs :: "nat \<Rightarrow> nat" where
  "dur_from_secs s = s * 1000000000"

definition dur_saturating_mul :: "nat \<Rightarrow> nat \<Rightarrow> nat" where
  "dur_saturating_mul d n = min dur_max (d * n)"

definition dur_as_millis :: "nat \<Rightarrow> nat" where
  "dur_as_millis d = d div 1000000"

definition MIN_POSSIBLE_BACKOFF :: nat where
  "MIN_POSSIBLE_BACKOFF = 100 * 1000000"

definition backoff_for_attempts :: "u32 \<Rightarrow> int \<Rightarrow> int \<Rightarrow> nat" where
  "backoff_for_attempts attempts min_backoff_secs max_backoff_secs =
     (let min_backoff = max (dur_from_secs (nat (max min_backoff_secs 0))) MIN_POSSIBLE_BACKOFF;
          max_backoff = max (dur_from_secs (nat (max max_backoff_secs 0))) min_backoff;
          shift = min (unat (word_sat_sub attempts 1)) 20
      in min (dur_saturating_mul min_backoff (2 ^ shift)) max_backoff)"

definition next_eligible_at_ms :: "int \<Rightarrow> u32 \<Rightarrow> int \<Rightarrow> int \<Rightarrow> int" where
  "next_eligible_at_ms now_ms attempts min_backoff_secs max_backoff_secs =
     (let backoff = backoff_for_attempts attempts min_backoff_secs max_backoff_secs
      in i64_sat_add now_ms (wrap_i64 (int (dur_as_millis backoff))))"

section \<open>Dead lettering\<close>

record dead_letter_policy =
  dp_topic :: "string option"
  dp_max_delivery_attempts :: int

definition ATTR_DELIVERY_COUNT :: string where
  "ATTR_DELIVERY_COUNT = ''CloudPubSubDeadLetterSourceDeliveryCount''"
definition ATTR_SUBSCRIPTION :: string where
  "ATTR_SUBSCRIPTION = ''CloudPubSubDeadLetterSourceSubscription''"
definition ATTR_SUBSCRIPTION_PROJECT :: string where
  "ATTR_SUBSCRIPTION_PROJECT = ''CloudPubSubDeadLetterSourceSubscriptionProject''"
definition ATTR_TOPIC_PUBLISH_TIME :: string where
  "ATTR_TOPIC_PUBLISH_TIME = ''CloudPubSubDeadLetterSourceTopicPublishTime''"

definition should_dead_letter :: "u32 \<Rightarrow> dead_letter_policy \<Rightarrow> bool" where
  "should_dead_letter prior_attempts policy \<longleftrightarrow>
     dp_topic policy \<noteq> None \<and> dp_max_delivery_attempts policy > 0 \<and>
     int (unat prior_attempts) \<ge> dp_max_delivery_attempts policy"

text \<open>Division on \<open>i64\<close> truncates towards zero.\<close>

definition i64_div :: "int \<Rightarrow> int \<Rightarrow> int" where
  "i64_div a b = sgn a * sgn b * (\<bar>a\<bar> div \<bar>b\<bar>)"

definition civil_from_days :: "int \<Rightarrow> int \<times> nat \<times> nat" where
  "civil_from_days z0 =
     (let z = z0 + 719468;
          era = i64_div (if z \<ge> 0 then z else z - 146096) 146097;
          doe = nat (z - era * 146097);
          yoe = (doe - doe div 1460 + doe div 36524 - doe div 146096) div 365;
          y = int yoe + era * 400;
          doy = doe - (365 * yoe + yoe div 4 - yoe div 100);
          mp = (5 * doy + 2) div 153;
          day = doy - (153 * mp + 2) div 5 + 1;
          month = (if mp < 10 then mp + 3 else mp - 9);
          year = (if month \<le> 2 then y + 1 else y)
      in (year, month, day))"

text \<open>\<open>{n:0w}\<close>: at least \<open>w\<close> characters, zeros after the sign.\<close>

definition fmt_nat :: "nat \<Rightarrow> nat \<Rightarrow> string" where
  "fmt_nat w n = (let s = nat_to_string n in replicate (w - length s) CHR ''0'' @ s)"

definition fmt_int :: "nat \<Rightarrow> int \<Rightarrow> string" where
  "fmt_int w i = (if i < 0 then CHR ''-'' # fmt_nat (w - 1) (nat (- i)) else fmt_nat w (nat i))"

definition format_rfc3339_ms :: "int \<Rightarrow> string" where
  "format_rfc3339_ms ms =
     (let millis = ms mod 1000;
          secs_total = ms div 1000;
          days = secs_total div 86400;
          secs_of_day = secs_total mod 86400;
          (year, month, day) = civil_from_days days;
          hour = i64_div secs_of_day 3600;
          minute = i64_div (secs_of_day mod 3600) 60;
          second = secs_of_day mod 60
      in fmt_int 4 year @ ''-'' @ fmt_nat 2 month @ ''-'' @ fmt_nat 2 day @ ''T'' @
         fmt_int 2 hour @ '':'' @ fmt_int 2 minute @ '':'' @ fmt_int 2 second @ ''.'' @
         fmt_int 3 millis @ ''Z'')"

definition build_attributes :: "attributes \<Rightarrow> u32 \<Rightarrow> string \<Rightarrow> int \<Rightarrow> attributes" where
  "build_attributes original delivery_count source_subscription_full_name source_topic_publish_ts_ms =
     (let attrs = hm_insert ATTR_DELIVERY_COUNT (nat_to_string (unat delivery_count)) original;
          attrs = hm_insert ATTR_SUBSCRIPTION source_subscription_full_name attrs;
          project = (case strip_prefix ''projects/'' source_subscription_full_name of
                       None \<Rightarrow> []
                     | Some rest \<Rightarrow> hd (split_on CHR ''/'' rest));
          attrs = hm_insert ATTR_SUBSCRIPTION_PROJECT project attrs
      in hm_insert ATTR_TOPIC_PUBLISH_TIME (format_rfc3339_ms source_topic_publish_ts_ms) attrs)"

section \<open>Facts\<close>

lemma backoff_exact:
  assumes "0 \<le> lo" and "lo \<le> 600" and "0 \<le> hi" and "hi \<le> 600"
  shows "backoff_for_attempts a lo hi =
    (let b = max (nat lo * 1000000000) 100000000 in
     min (b * 2 ^ min (unat a - 1) 20) (max (nat hi * 1000000000) b))"
proof -
  let ?b = "max (nat lo * 1000000000) 100000000"
  have "?b \<le> 600 * 1000000000" using assms by auto
  moreover have "(2::nat) ^ min (unat a - 1) 20 \<le> 2 ^ 20"
    by (rule power_increasing) simp_all
  ultimately have "?b * 2 ^ min (unat a - 1) 20 \<le> 600 * 1000000000 * 2 ^ 20"
    by (rule mult_le_mono)
  also have "\<dots> \<le> dur_max" by (simp add: dur_max_def)
  finally have "dur_saturating_mul ?b (2 ^ min (unat a - 1) 20) = ?b * 2 ^ min (unat a - 1) 20"
    by (simp add: dur_saturating_mul_def)
  then show ?thesis
    using assms by (simp add: backoff_for_attempts_def Let_def dur_from_secs_def
        MIN_POSSIBLE_BACKOFF_def unat_word_sat_sub)
qed

lemma backoff_mono:
  assumes "a \<le> b"
  shows "backoff_for_attempts a lo hi \<le> backoff_for_attempts b lo hi"
proof -
  have "min (unat (word_sat_sub a 1)) 20 \<le> min (unat (word_sat_sub b 1)) 20"
    using assms by (auto simp: unat_word_sat_sub word_le_nat_alt min_def)
  then have "(2::nat) ^ min (unat (word_sat_sub a 1)) 20 \<le> 2 ^ min (unat (word_sat_sub b 1)) 20"
    by (rule power_increasing) simp
  then have "dur_saturating_mul d (2 ^ min (unat (word_sat_sub a 1)) 20)
      \<le> dur_saturating_mul d (2 ^ min (unat (word_sat_sub b 1)) 20)" for d
    unfolding dur_saturating_mul_def by (intro min.mono mult_le_mono) simp_all
  then show ?thesis
    unfolding backoff_for_attempts_def Let_def by (intro min.mono) simp_all
qed

lemma i64_div_floor:
  assumes "0 < b"
  shows "i64_div (if z \<ge> 0 then z else z - (b - 1)) b = z div b"
proof (cases "z \<ge> 0")
  case True
  then show ?thesis using assms by (auto simp: i64_div_def sgn_if)
next
  case False
  have "- ((b - 1 - z) div b) = z div b"
  proof -
    have "z = b * (z div b) + z mod b" "z mod b < b" "0 \<le> z mod b" using assms by simp_all
    then have "(b - 1 - z) div b = - (z div b)"
      by (intro int_div_pos_eq [where r = "b - 1 - z mod b"]) (auto simp: algebra_simps)
    then show ?thesis by simp
  qed
  with False assms show ?thesis
    by (simp add: i64_div_def sgn_if abs_if)
qed

section \<open>Properties\<close>



text \<open>The delay never shrinks as the number of attempts grows.\<close>

theorem backoff_monotone:
  assumes "a \<le> b"
  shows "backoff_for_attempts a lo hi \<le> backoff_for_attempts b lo hi"
  using assms by (rule backoff_mono)

theorem backoff_monotone_witness: "backoff_for_attempts 2 10 600 \<le> backoff_for_attempts 7 10 600"
  by (rule backoff_monotone) simp

end
