(* ===== verification/Stream_Registry.thy ===== *)
theory Stream_Registry
  imports Errors
begin

text \<open>
  \<open>StreamingPull\<close> sessions, \<open>crates/open-pubusb-core/src/delivery/stream.rs\<close>: per stream, the
  flow-control limits and the messages currently outstanding on it.
\<close>

section \<open>Model\<close>

record stream_info =
  si_sub_id :: u64
  si_topic_id :: u64
  si_ack_deadline_secs :: int
  si_max_outstanding_messages :: int
  si_max_outstanding_bytes :: int

record session_state =
  ss_info :: stream_info
  ss_outstanding :: "(u64, nat) hashmap"
  ss_outstanding_bytes :: int

record stream_registry =
  sg_next_id :: u64
  sg_sessions :: "(u64, session_state) hashmap"

definition stream_registry_new :: stream_registry where
  "stream_registry_new = \<lparr>sg_next_id = 0, sg_sessions = []\<rparr>"

definition stream_open :: "stream_registry \<Rightarrow> stream_info \<Rightarrow> u64 \<times> stream_registry" where
  "stream_open R info =
     (let stream_id = sg_next_id R + 1
      in (stream_id,
          R\<lparr>sg_next_id := sg_next_id R + 1,
            sg_sessions := hm_insert stream_id
              \<lparr>ss_info = info, ss_outstanding = [], ss_outstanding_bytes = 0\<rparr> (sg_sessions R)\<rparr>))"

definition stream_close :: "stream_registry \<Rightarrow> u64 \<Rightarrow> (u64 \<times> u64 list) option \<times> stream_registry" where
  "stream_close R stream_id =
     (case map_of (sg_sessions R) stream_id of
        None \<Rightarrow> (None, R)
      | Some s \<Rightarrow>
          (Some (si_sub_id (ss_info s), map fst (ss_outstanding s)),
           R\<lparr>sg_sessions := hm_remove stream_id (sg_sessions R)\<rparr>))"

definition stream_info_of :: "stream_registry \<Rightarrow> u64 \<Rightarrow> stream_info option" where
  "stream_info_of R stream_id = map_option ss_info (map_of (sg_sessions R) stream_id)"

definition stream_update ::
    "stream_registry \<Rightarrow> u64 \<Rightarrow> int option \<Rightarrow> int option \<Rightarrow> int option \<Rightarrow> stream_registry" where
  "stream_update R stream_id ack_deadline_secs max_outstanding_messages max_outstanding_bytes =
     (case map_of (sg_sessions R) stream_id of
        None \<Rightarrow> R
      | Some s \<Rightarrow>
          let i = ss_info s;
              i = (case ack_deadline_secs of Some v \<Rightarrow> i\<lparr>si_ack_deadline_secs := v\<rparr> | None \<Rightarrow> i);
              i = (case max_outstanding_messages of
                     Some v \<Rightarrow> i\<lparr>si_max_outstanding_messages := v\<rparr> | None \<Rightarrow> i);
              i = (case max_outstanding_bytes of
                     Some v \<Rightarrow> i\<lparr>si_max_outstanding_bytes := v\<rparr> | None \<Rightarrow> i)
          in R\<lparr>sg_sessions := hm_insert stream_id (s\<lparr>ss_info := i\<rparr>) (sg_sessions R)\<rparr>)"

definition remaining_budget :: "stream_registry \<Rightarrow> u64 \<Rightarrow> int \<times> int" where
  "remaining_budget R stream_id =
     (case map_of (sg_sessions R) stream_id of
        None \<Rightarrow> (0, 0)
      | Some s \<Rightarrow>
          let msgs = (if si_max_outstanding_messages (ss_info s) \<le> 0 then i64_max
                      else max (wrap_i64 (si_max_outstanding_messages (ss_info s)
                                          - wrap_i64 (int (length (ss_outstanding s))))) 0);
              bytes_left = (if si_max_outstanding_bytes (ss_info s) \<le> 0 then i64_max
                       else max (wrap_i64 (si_max_outstanding_bytes (ss_info s)
                                           - ss_outstanding_bytes s)) 0)
          in (msgs, bytes_left))"

definition record_leased :: "stream_registry \<Rightarrow> u64 \<Rightarrow> u64 \<Rightarrow> nat \<Rightarrow> stream_registry" where
  "record_leased R stream_id seq payload_bytes =
     (case map_of (sg_sessions R) stream_id of
        None \<Rightarrow> R
      | Some s \<Rightarrow>
          R\<lparr>sg_sessions := hm_insert stream_id
              (s\<lparr>ss_outstanding := hm_insert seq payload_bytes (ss_outstanding s),
                 ss_outstanding_bytes :=
                   i64_sat_add (ss_outstanding_bytes s) (wrap_i64 (int payload_bytes))\<rparr>)
              (sg_sessions R)\<rparr>)"

definition record_resolved :: "stream_registry \<Rightarrow> u64 \<Rightarrow> u64 \<Rightarrow> stream_registry" where
  "record_resolved R stream_id seq =
     (case map_of (sg_sessions R) stream_id of
        None \<Rightarrow> R
      | Some s \<Rightarrow>
          (case map_of (ss_outstanding s) seq of
             None \<Rightarrow> R
           | Some payload_bytes \<Rightarrow>
               R\<lparr>sg_sessions := hm_insert stream_id
                   (s\<lparr>ss_outstanding := hm_remove seq (ss_outstanding s),
                      ss_outstanding_bytes :=
                        i64_sat_sub (ss_outstanding_bytes s) (wrap_i64 (int payload_bytes))\<rparr>)
                   (sg_sessions R)\<rparr>))"

section \<open>The registry is consistent\<close>

definition streams_wf :: "stream_registry \<Rightarrow> bool" where
  "streams_wf R \<longleftrightarrow>
     hm_wf (sg_sessions R) \<and> (\<forall>i s. map_of (sg_sessions R) i = Some s \<longrightarrow> hm_wf (ss_outstanding s))"

lemma streams_wf_new: "streams_wf stream_registry_new"
  by (simp add: streams_wf_def stream_registry_new_def)

lemma stream_open_wf: "streams_wf R \<Longrightarrow> streams_wf (snd (stream_open R info))"
  by (auto simp: streams_wf_def stream_open_def Let_def simp del: map_of_eq_Some_iff)

lemma stream_close_wf: "streams_wf R \<Longrightarrow> streams_wf (snd (stream_close R i))"
  by (auto simp: streams_wf_def stream_close_def split: option.splits if_splits
      simp del: map_of_eq_Some_iff)

lemma stream_update_wf: "streams_wf R \<Longrightarrow> streams_wf (stream_update R i a m b)"
  by (auto simp: streams_wf_def stream_update_def Let_def split: option.splits if_splits
      simp del: map_of_eq_Some_iff)

lemma record_leased_wf: "streams_wf R \<Longrightarrow> streams_wf (record_leased R i q n)"
  by (auto simp: streams_wf_def record_leased_def split: option.splits if_splits
      simp del: map_of_eq_Some_iff)

lemma record_resolved_wf: "streams_wf R \<Longrightarrow> streams_wf (record_resolved R i q)"
  by (auto simp: streams_wf_def record_resolved_def split: option.splits if_splits
      simp del: map_of_eq_Some_iff)

text \<open>The messages outstanding on a stream.\<close>

definition outstanding :: "stream_registry \<Rightarrow> u64 \<Rightarrow> u64 set" where
  "outstanding R i =
     (case map_of (sg_sessions R) i of None \<Rightarrow> {} | Some s \<Rightarrow> fst ` set (ss_outstanding s))"

lemma keys_hm_insert [simp]: "fst ` set (hm_insert k v m) = insert k (fst ` set m)"
  by (simp add: hm_insert_def dom_update)

lemma outstanding_leased:
  "outstanding (record_leased R i q n) j =
     (if j = i \<and> map_of (sg_sessions R) i \<noteq> None then insert q (outstanding R j) else outstanding R j)"
  by (auto simp: outstanding_def record_leased_def split: option.splits)

lemma outstanding_resolved:
  "outstanding (record_resolved R i q) j = (if j = i then outstanding R j - {q} else outstanding R j)"
proof (cases "map_of (sg_sessions R) i")
  case None
  then show ?thesis by (simp add: outstanding_def record_resolved_def)
next
  case s: (Some s)
  show ?thesis
  proof (cases "map_of (ss_outstanding s) q")
    case None
    moreover from this have "q \<notin> fst ` set (ss_outstanding s)"
      by (simp add: map_of_eq_None_iff)
    ultimately show ?thesis
      using s by (simp add: outstanding_def record_resolved_def)
  next
    case (Some n)
    with s show ?thesis by (simp add: outstanding_def record_resolved_def)
  qed
qed

end
