(* ===== verification/Engine.thy ===== *)
theory Engine
  imports Subscription Retry Stream_Registry
begin

text \<open>
  The delivery engine, \<open>crates/open-pubusb-core/src/delivery/engine.rs\<close>: leasing messages out of
  a topic's log to a subscription, acknowledging them, and the streaming sessions on top. The
  state is the store, the lease table, the stream sessions, the cache of compiled filters and
  the per-subscription notifiers, of which the number of wake-ups is kept.

  The body of \<open>lease_next\<close>'s scan is \<open>lease_step\<close>; its treatment of an entry that was delivered
  before (still in flight, held back by the retry policy, dead-lettered or deliverable again)
  is \<open>reclaim\<close>.
\<close>

section \<open>State\<close>

record delivered =
  d_seq :: u64
  d_ack_id :: string
  d_message :: message_record
  d_delivery_attempt :: u32

record reclaim_policy =
  rp_subscription_full_name :: string
  rp_min_retry_backoff_secs :: int
  rp_max_retry_backoff_secs :: int
  rp_retry_policy_explicit :: bool
  rp_dead_letter :: dead_letter_policy

record 's engine =
  eng_kv :: 's
  eng_leases :: lease_table
  eng_waiters :: "(u64, nat) hashmap"
  eng_streams :: stream_registry
  eng_filters :: "(u64, compiled_filter option) hashmap"

definition engine_new :: "'s \<Rightarrow> 's engine" where
  "engine_new kv =
     \<lparr>eng_kv = kv, eng_leases = lease_table_new, eng_waiters = [],
      eng_streams = stream_registry_new, eng_filters = []\<rparr>"

text \<open>An operation on the store, run inside the engine.\<close>

definition on_kv :: "'s engine \<Rightarrow> ('s \<Rightarrow> ('s, 'a) st_result) \<Rightarrow> ('s engine, 'a) st_result" where
  "on_kv e f = (case f (eng_kv e) of (r, s) \<Rightarrow> (r, e\<lparr>eng_kv := s\<rparr>))"

section \<open>Cursors\<close>

function advance_floor :: "u64 \<Rightarrow> u64 list \<Rightarrow> u64 \<times> u64 list" where
  "advance_floor fl ab =
     (if fl + 1 \<in> set ab then advance_floor (fl + 1) (bt_remove (fl + 1) ab)
      else (fl, ab))"
  by pat_completeness auto
termination
  by (relation "measure (\<lambda>(fl, ab). length ab)") (simp_all add: length_bt_remove)

declare advance_floor.simps [simp del]

definition mark_done :: "cursor_record \<Rightarrow> u64 \<Rightarrow> cursor_record" where
  "mark_done cursor seq =
     (if seq \<le> cr_acked_floor cursor then cursor
      else if seq = cr_acked_floor cursor + 1 then
        (case advance_floor (cr_acked_floor cursor + 1) (cr_acked_above_floor cursor) of
           (fl, ab) \<Rightarrow> cursor\<lparr>cr_acked_floor := fl, cr_acked_above_floor := ab\<rparr>)
      else cursor\<lparr>cr_acked_above_floor := bt_insert seq (cr_acked_above_floor cursor)\<rparr>)"

definition load_cursor :: "'s kv_ops \<Rightarrow> ext \<Rightarrow> 's \<Rightarrow> u64 \<Rightarrow> cursor_record result" where
  "load_cursor K X s sub_id =
     bind_r (ok_or (kv_get K s ''sub'' (cursor_key sub_id))
        (NotFound (''subscription cursor for id '' @ nat_to_string (unat sub_id)))) (\<lambda>b.
       ok_or (cursor_decode X b) Internal)"

definition save_cursor :: "'s kv_ops \<Rightarrow> ext \<Rightarrow> 's \<Rightarrow> u64 \<Rightarrow> cursor_record \<Rightarrow> ('s, unit) st_result" where
  "save_cursor K X s sub_id cursor = kv_put K s ''sub'' (cursor_key sub_id) (cursor_encode X cursor)"

definition cursor_snapshot :: "'s kv_ops \<Rightarrow> ext \<Rightarrow> 's engine \<Rightarrow> u64 \<Rightarrow> cursor_record result" where
  "cursor_snapshot K X e sub_id = load_cursor K X (eng_kv e) sub_id"

definition persisted_delivery_record ::
    "'s kv_ops \<Rightarrow> ext \<Rightarrow> 's \<Rightarrow> u64 \<Rightarrow> u64 \<Rightarrow> delivery_record option" where
  "persisted_delivery_record K X s sub_id seq =
     Option.bind (kv_get K s ''dlv'' (delivery_key sub_id seq)) (delivery_decode X)"

section \<open>Policies\<close>

definition sub_record_of :: "'s kv_ops \<Rightarrow> ext \<Rightarrow> 's \<Rightarrow> u64 \<Rightarrow> subscription_record option" where
  "sub_record_of K X s sub_id = Option.bind (kv_get K s ''meta'' (sub_key sub_id)) (sub_from_slice X)"

definition compiled_filter ::
    "'s kv_ops \<Rightarrow> ext \<Rightarrow> 's engine \<Rightarrow> u64 \<Rightarrow> compiled_filter option \<times> 's engine" where
  "compiled_filter K X e sub_id =
     (case map_of (eng_filters e) sub_id of
        Some cached \<Rightarrow> (cached, e)
      | None \<Rightarrow>
          let filter_str = (case sub_record_of K X (eng_kv e) sub_id of
                              Some r \<Rightarrow> sr_filter r | None \<Rightarrow> []);
              compiled = (case filter_compile (pest_filter X) filter_str of
                            Inr c \<Rightarrow> c | Inl _ \<Rightarrow> None)
          in (compiled, e\<lparr>eng_filters := hm_insert sub_id compiled (eng_filters e)\<rparr>))"

definition reclaim_policy_of :: "'s kv_ops \<Rightarrow> ext \<Rightarrow> 's \<Rightarrow> u64 \<Rightarrow> reclaim_policy" where
  "reclaim_policy_of K X s sub_id =
     (case sub_record_of K X s sub_id of
        Some r \<Rightarrow>
          \<lparr>rp_subscription_full_name = sr_name r,
           rp_min_retry_backoff_secs = sr_min_retry_backoff_secs r,
           rp_max_retry_backoff_secs = sr_max_retry_backoff_secs r,
           rp_retry_policy_explicit = sr_retry_policy_explicit r,
           rp_dead_letter =
             \<lparr>dp_topic = sr_dead_letter_topic r,
              dp_max_delivery_attempts = sr_max_delivery_attempts r\<rparr>\<rparr>
      | None \<Rightarrow>
          \<lparr>rp_subscription_full_name = [],
           rp_min_retry_backoff_secs = 10,
           rp_max_retry_backoff_secs = 600,
           rp_retry_policy_explicit = False,
           rp_dead_letter = \<lparr>dp_topic = None, dp_max_delivery_attempts = 0\<rparr>\<rparr>)"

definition forward_to_dead_letter_topic ::
    "'s kv_ops \<Rightarrow> ext \<Rightarrow> 's \<Rightarrow> string \<Rightarrow> message_record \<Rightarrow> reclaim_policy \<Rightarrow> u32 \<Rightarrow> int \<Rightarrow> ('s, bool) st_result"
where
  "forward_to_dead_letter_topic K X s dead_letter_topic_name message policy delivery_count now_ms =
     (case topic_get K X s dead_letter_topic_name of
        Inl (NotFound _) \<Rightarrow> (Inr False, s)
      | Inl e \<Rightarrow> (Inl e, s)
      | Inr dlq \<Rightarrow>
          let attrs = build_attributes (mr_attributes message) delivery_count
                        (rp_subscription_full_name policy) (mr_publish_ts_ms message);
              retention_secs = (if tr_message_retention_secs dlq > 0 then tr_message_retention_secs dlq
                                else MAX_TOPIC_RETENTION_SECS)
          in bind_st (topic_append K X s (tr_id dlq)
                [(mr_payload message, attrs, mr_ordering_key message)] now_ms retention_secs)
               (\<lambda>_ s. (Inr True, s)))"

section \<open>Leasing\<close>

datatype reclaim_outcome = HoldBack | DeadLettered | Deliverable u32

text \<open>Whether the retry policy still holds a message back whose deadline has passed.\<close>

definition in_backoff :: "reclaim_policy \<Rightarrow> u32 \<Rightarrow> int \<Rightarrow> int \<Rightarrow> bool" where
  "in_backoff policy attempts deadline_ms now_ms \<longleftrightarrow>
     rp_retry_policy_explicit policy \<and>
     now_ms < i64_sat_add deadline_ms
       (wrap_i64 (int (dur_as_millis (backoff_for_attempts attempts
          (rp_min_retry_backoff_secs policy) (rp_max_retry_backoff_secs policy)))))"

definition try_dead_letter ::
    "'s kv_ops \<Rightarrow> ext \<Rightarrow> 's engine \<Rightarrow> message_record \<Rightarrow> reclaim_policy \<Rightarrow> u32 \<Rightarrow> int \<Rightarrow> ('s engine, bool) st_result"
where
  "try_dead_letter K X e message policy attempts now_ms =
     (if should_dead_letter attempts (rp_dead_letter policy) then
        let dlq_topic = unwrap_or (dp_topic (rp_dead_letter policy)) []
        in on_kv e (\<lambda>s. forward_to_dead_letter_topic K X s dlq_topic message policy attempts now_ms)
      else (Inr False, e))"

definition reclaim ::
    "'s kv_ops \<Rightarrow> ext \<Rightarrow> 's engine \<Rightarrow> u64 \<Rightarrow> u64 \<Rightarrow> message_record \<Rightarrow> int \<Rightarrow> ('s engine, reclaim_outcome) st_result"
where
  "reclaim K X e sub_id seq message now_ms =
     (case lease_get (eng_leases e) sub_id seq of
        Some lease \<Rightarrow>
          if l_deadline_ms lease > now_ms then (Inr HoldBack, e)
          else
            let policy = reclaim_policy_of K X (eng_kv e) sub_id in
            if in_backoff policy (l_attempts lease) (l_deadline_ms lease) now_ms then (Inr HoldBack, e)
            else bind_st (try_dead_letter K X e message policy (l_attempts lease) now_ms) (\<lambda>forwarded e.
              let e = e\<lparr>eng_leases := snd (lease_remove (eng_leases e) sub_id seq)\<rparr> in
              if forwarded then
                bind_st (on_kv e (\<lambda>s. kv_delete K s ''dlv'' (delivery_key sub_id seq))) (\<lambda>_ e.
                (Inr DeadLettered, e))
              else (Inr (Deliverable (l_attempts lease)), e))
      | None \<Rightarrow>
          (case persisted_delivery_record K X (eng_kv e) sub_id seq of
             Some persisted \<Rightarrow>
               let policy = reclaim_policy_of K X (eng_kv e) sub_id in
               if in_backoff policy (dr_attempts persisted) (dr_deadline_ms persisted) now_ms
               then (Inr HoldBack, e)
               else bind_st (try_dead_letter K X e message policy (dr_attempts persisted) now_ms)
                 (\<lambda>forwarded e.
                   if forwarded then
                     bind_st (on_kv e (\<lambda>s. kv_delete K s ''dlv'' (delivery_key sub_id seq))) (\<lambda>_ e.
                     (Inr DeadLettered, e))
                   else (Inr (Deliverable (dr_attempts persisted)), e))
           | None \<Rightarrow> (Inr (Deliverable 0), e)))"

definition grant ::
    "'s kv_ops \<Rightarrow> ext \<Rightarrow> 's engine \<Rightarrow> u64 \<Rightarrow> u64 \<Rightarrow> message_record \<Rightarrow> u32 \<Rightarrow> int \<Rightarrow> int \<Rightarrow> ('s engine, delivered) st_result"
where
  "grant K X e sub_id seq message prior_attempts now_ms ack_deadline_secs =
     (let attempts = word_sat_add prior_attempts 1;
          deadline_ms = i64_sat_add now_ms (max ack_deadline_secs 0 * 1000);
          (ack_id, leases) = lease_insert X (eng_leases e) sub_id seq deadline_ms attempts (ucast attempts);
          e = e\<lparr>eng_leases := leases\<rparr>
      in bind_st (on_kv e (\<lambda>s. kv_put K s ''dlv'' (delivery_key sub_id seq)
                    (delivery_encode X \<lparr>dr_deadline_ms = deadline_ms, dr_attempts = attempts,
                                        dr_generation = ucast attempts\<rparr>))) (\<lambda>_ e.
         (Inr \<lparr>d_seq = seq, d_ack_id = ack_id, d_message = message,
               d_delivery_attempt = attempts\<rparr>, e)))"

text \<open>The variables of the scan: the cursor, whether it changed, and what was leased.\<close>

type_synonym scan_state = "cursor_record \<times> bool \<times> delivered list"

definition lease_step ::
    "'s kv_ops \<Rightarrow> ext \<Rightarrow> u64 \<Rightarrow> int \<Rightarrow> int \<Rightarrow> compiled_filter option \<Rightarrow> bytes \<times> bytes \<Rightarrow>
     scan_state \<Rightarrow> 's engine \<Rightarrow> ('s engine, scan_state) st_result"
where
  "lease_step K X sub_id now_ms ack_deadline_secs flt entry st e =
     (case st of (cursor, cursor_changed, out) \<Rightarrow>
      case parse_msg_key (fst entry) of
        None \<Rightarrow> (Inr st, e)
      | Some (_, seq) \<Rightarrow>
          if seq \<le> cr_acked_floor cursor \<or> seq \<in> set (cr_acked_above_floor cursor) then (Inr st, e)
          else (case message_decode X (snd entry) of
            None \<Rightarrow> (Inr st, e)
          | Some message \<Rightarrow>
              if (case flt of None \<Rightarrow> False | Some f \<Rightarrow> \<not> filter_matches f (mr_attributes message))
              then (Inr (mark_done cursor seq, True, out), e)
              else bind_st (reclaim K X e sub_id seq message now_ms) (\<lambda>outcome e.
                case outcome of
                  HoldBack \<Rightarrow> (Inr st, e)
                | DeadLettered \<Rightarrow> (Inr (mark_done cursor seq, True, out), e)
                | Deliverable prior_attempts \<Rightarrow>
                    bind_st (grant K X e sub_id seq message prior_attempts now_ms ack_deadline_secs)
                      (\<lambda>d e. (Inr (cursor, cursor_changed, out @ [d]), e)))))"

fun lease_scan ::
    "'s kv_ops \<Rightarrow> ext \<Rightarrow> u64 \<Rightarrow> int \<Rightarrow> int \<Rightarrow> compiled_filter option \<Rightarrow> nat \<Rightarrow> (bytes \<times> bytes) list \<Rightarrow>
     scan_state \<Rightarrow> 's engine \<Rightarrow> ('s engine, scan_state) st_result"
where
  "lease_scan K X sub_id now_ms ack_deadline_secs flt max_messages [] st e = (Inr st, e)"
| "lease_scan K X sub_id now_ms ack_deadline_secs flt max_messages (entry # entries) st e =
     (if length (snd (snd st)) \<ge> max_messages then (Inr st, e)
      else bind_st (lease_step K X sub_id now_ms ack_deadline_secs flt entry st e)
        (lease_scan K X sub_id now_ms ack_deadline_secs flt max_messages entries))"

definition lease_next ::
    "'s kv_ops \<Rightarrow> ext \<Rightarrow> 's engine \<Rightarrow> u64 \<Rightarrow> u64 \<Rightarrow> int \<Rightarrow> int \<Rightarrow> int \<Rightarrow> ('s engine, delivered list) st_result"
where
  "lease_next K X e sub_id topic_id max_messages now_ms ack_deadline_secs =
     (let max_messages = nat (max max_messages 0) in
      if max_messages = 0 then (Inr [], e)
      else with_r (load_cursor K X (eng_kv e) sub_id) e (\<lambda>cursor.
        let (flt, e) = compiled_filter K X e sub_id;
            entries = kv_scan_prefix K (eng_kv e) ''msg'' (msg_key_prefix topic_id)
        in bind_st (lease_scan K X sub_id now_ms ack_deadline_secs flt max_messages entries
                      (cursor, False, []) e) (\<lambda>(cursor, cursor_changed, out) e.
             if cursor_changed then
               bind_st (on_kv e (\<lambda>s. save_cursor K X s sub_id cursor)) (\<lambda>_ e. (Inr out, e))
             else (Inr out, e))))"

section \<open>Acknowledging\<close>

fun ack_loop ::
    "'s kv_ops \<Rightarrow> ext \<Rightarrow> u64 \<Rightarrow> string list \<Rightarrow> cursor_record \<times> bool \<Rightarrow> 's engine \<Rightarrow>
     ('s engine, cursor_record \<times> bool) st_result"
where
  "ack_loop K X sub_id [] st e = (Inr st, e)"
| "ack_loop K X sub_id (ack_id # ack_ids) (cursor, cursor_changed) e =
     (case lease_ack X (eng_leases e) ack_id of
        (Applied lease, leases) \<Rightarrow>
          bind_st (on_kv (e\<lparr>eng_leases := leases\<rparr>)
                    (\<lambda>s. kv_delete K s ''dlv'' (delivery_key sub_id (l_seq lease)))) (\<lambda>_ e.
            ack_loop K X sub_id ack_ids (mark_done cursor (l_seq lease), True) e)
      | (_, leases) \<Rightarrow> ack_loop K X sub_id ack_ids (cursor, cursor_changed) (e\<lparr>eng_leases := leases\<rparr>))"

definition acknowledge :: "'s kv_ops \<Rightarrow> ext \<Rightarrow> 's engine \<Rightarrow> u64 \<Rightarrow> string list \<Rightarrow> ('s engine, unit) st_result" where
  "acknowledge K X e sub_id ack_ids =
     (if ack_ids = [] then (Inr (), e)
      else with_r (load_cursor K X (eng_kv e) sub_id) e (\<lambda>cursor.
        bind_st (ack_loop K X sub_id ack_ids (cursor, False) e) (\<lambda>(cursor, cursor_changed) e.
          if cursor_changed then on_kv e (\<lambda>s. save_cursor K X s sub_id cursor)
          else (Inr (), e))))"

fun modify_loop ::
    "'s kv_ops \<Rightarrow> ext \<Rightarrow> u64 \<Rightarrow> int \<Rightarrow> int \<Rightarrow> string list \<Rightarrow> 's engine \<Rightarrow> ('s engine, unit) st_result"
where
  "modify_loop K X sub_id now_ms seconds [] e = (Inr (), e)"
| "modify_loop K X sub_id now_ms seconds (ack_id # ack_ids) e =
     (case lease_extend X (eng_leases e) ack_id now_ms seconds of
        (Applied lease, leases) \<Rightarrow>
          bind_st (on_kv (e\<lparr>eng_leases := leases\<rparr>)
                    (\<lambda>s. kv_put K s ''dlv'' (delivery_key sub_id (l_seq lease))
                       (delivery_encode X
                          \<lparr>dr_deadline_ms = l_deadline_ms lease, dr_attempts = l_attempts lease,
                           dr_generation = l_generation lease\<rparr>))) (\<lambda>_ e.
            modify_loop K X sub_id now_ms seconds ack_ids e)
      | (_, leases) \<Rightarrow> modify_loop K X sub_id now_ms seconds ack_ids (e\<lparr>eng_leases := leases\<rparr>))"

definition modify_ack_deadline ::
    "'s kv_ops \<Rightarrow> ext \<Rightarrow> 's engine \<Rightarrow> u64 \<Rightarrow> string list \<Rightarrow> int \<Rightarrow> int \<Rightarrow> ('s engine, unit) st_result"
where
  "modify_ack_deadline K X e sub_id ack_ids now_ms seconds =
     (if ack_ids = [] then (Inr (), e) else modify_loop K X sub_id now_ms seconds ack_ids e)"

section \<open>Streams\<close>

definition open_stream :: "'s engine \<Rightarrow> u64 \<Rightarrow> u64 \<Rightarrow> int \<Rightarrow> int \<Rightarrow> int \<Rightarrow> u64 \<times> 's engine" where
  "open_stream e sub_id topic_id ack_deadline_secs max_outstanding_messages max_outstanding_bytes =
     (case stream_open (eng_streams e)
             \<lparr>si_sub_id = sub_id, si_topic_id = topic_id, si_ack_deadline_secs = ack_deadline_secs,
              si_max_outstanding_messages = max_outstanding_messages,
              si_max_outstanding_bytes = max_outstanding_bytes\<rparr> of
        (stream_id, R) \<Rightarrow> (stream_id, e\<lparr>eng_streams := R\<rparr>))"

definition update_stream :: "'s engine \<Rightarrow> u64 \<Rightarrow> int option \<Rightarrow> int option \<Rightarrow> int option \<Rightarrow> 's engine" where
  "update_stream e stream_id ack_deadline_secs max_outstanding_messages max_outstanding_bytes =
     e\<lparr>eng_streams := stream_update (eng_streams e) stream_id ack_deadline_secs
          max_outstanding_messages max_outstanding_bytes\<rparr>"

definition lease_for_stream ::
    "'s kv_ops \<Rightarrow> ext \<Rightarrow> 's engine \<Rightarrow> u64 \<Rightarrow> int \<Rightarrow> ('s engine, delivered list) st_result" where
  "lease_for_stream K X e stream_id now_ms =
     with_r (ok_or (stream_info_of (eng_streams e) stream_id)
               (NotFound (''stream_id='' @ nat_to_string (unat stream_id)))) e (\<lambda>info.
       case remaining_budget (eng_streams e) stream_id of (remaining_msgs, remaining_bytes) \<Rightarrow>
       if remaining_msgs \<le> 0 \<or> remaining_bytes \<le> 0 then (Inr [], e)
       else
         let max_messages = min remaining_msgs i32_max in
         bind_st (lease_next K X e (si_sub_id info) (si_topic_id info) max_messages now_ms
                    (si_ack_deadline_secs info)) (\<lambda>delivered e.
           (Inr delivered,
            e\<lparr>eng_streams := foldl (\<lambda>R d. record_leased R stream_id (d_seq d)
                                     (length (mr_payload (d_message d))))
                               (eng_streams e) delivered\<rparr>)))"

definition resolve_acks :: "ext \<Rightarrow> u64 \<Rightarrow> string list \<Rightarrow> stream_registry \<Rightarrow> stream_registry" where
  "resolve_acks X stream_id ack_ids R =
     foldl (\<lambda>R ack_id. case decode_ack_id X ack_id of
               Some (_, seq, _) \<Rightarrow> record_resolved R stream_id seq
             | None \<Rightarrow> R) R ack_ids"

definition stream_acknowledge ::
    "'s kv_ops \<Rightarrow> ext \<Rightarrow> 's engine \<Rightarrow> u64 \<Rightarrow> u64 \<Rightarrow> string list \<Rightarrow> ('s engine, unit) st_result" where
  "stream_acknowledge K X e stream_id sub_id ack_ids =
     bind_st (acknowledge K X e sub_id ack_ids) (\<lambda>_ e.
       (Inr (), e\<lparr>eng_streams := resolve_acks X stream_id ack_ids (eng_streams e)\<rparr>))"

definition stream_modify_ack_deadline ::
    "'s kv_ops \<Rightarrow> ext \<Rightarrow> 's engine \<Rightarrow> u64 \<Rightarrow> u64 \<Rightarrow> string list \<Rightarrow> int \<Rightarrow> int \<Rightarrow> ('s engine, unit) st_result"
where
  "stream_modify_ack_deadline K X e stream_id sub_id ack_ids now_ms seconds =
     bind_st (modify_ack_deadline K X e sub_id ack_ids now_ms seconds) (\<lambda>_ e.
       (Inr (), if seconds \<le> 0
                then e\<lparr>eng_streams := resolve_acks X stream_id ack_ids (eng_streams e)\<rparr> else e))"

fun release_all :: "'s kv_ops \<Rightarrow> u64 \<Rightarrow> u64 list \<Rightarrow> 's engine \<Rightarrow> 's engine" where
  "release_all K sub_id [] e = e"
| "release_all K sub_id (seq # seqs) e =
     (let e = e\<lparr>eng_leases := snd (lease_remove (eng_leases e) sub_id seq)\<rparr>;
          e = snd (on_kv e (\<lambda>s. kv_delete K s ''dlv'' (delivery_key sub_id seq)))
      in release_all K sub_id seqs e)"

definition on_stream_closed :: "'s kv_ops \<Rightarrow> 's engine \<Rightarrow> u64 \<Rightarrow> 's engine" where
  "on_stream_closed K e stream_id =
     (case stream_close (eng_streams e) stream_id of
        (None, R) \<Rightarrow> e\<lparr>eng_streams := R\<rparr>
      | (Some (sub_id, seqs), R) \<Rightarrow> release_all K sub_id seqs (e\<lparr>eng_streams := R\<rparr>))"

section \<open>Maintenance\<close>

definition waiter :: "'s engine \<Rightarrow> u64 \<Rightarrow> 's engine" where
  "waiter e sub_id =
     (case map_of (eng_waiters e) sub_id of
        Some _ \<Rightarrow> e
      | None \<Rightarrow> e\<lparr>eng_waiters := hm_insert sub_id 0 (eng_waiters e)\<rparr>)"

definition notify_published :: "'s engine \<Rightarrow> u64 list \<Rightarrow> 's engine" where
  "notify_published e sub_ids =
     e\<lparr>eng_waiters := foldl (\<lambda>w sub_id. case map_of w sub_id of
                                Some n \<Rightarrow> hm_insert sub_id (Suc n) w | None \<Rightarrow> w)
                        (eng_waiters e) sub_ids\<rparr>"

fun sweep_loop :: "ext \<Rightarrow> u64 \<Rightarrow> int \<Rightarrow> expired_lease list \<Rightarrow> nat \<times> lease_table \<Rightarrow> nat \<times> lease_table" where
  "sweep_loop X sub_id now_ms [] st = st"
| "sweep_loop X sub_id now_ms (x # xs) (dropped, T) =
     (if e_sub_id x = sub_id then sweep_loop X sub_id now_ms xs (Suc dropped, T)
      else sweep_loop X sub_id now_ms xs
             (dropped, snd (lease_insert X T (e_sub_id x) (e_seq x) now_ms (e_attempts x) (e_generation x))))"

definition sweep_expired :: "ext \<Rightarrow> 's engine \<Rightarrow> u64 \<Rightarrow> int \<Rightarrow> int \<Rightarrow> nat \<times> 's engine" where
  "sweep_expired X e sub_id now_ms grace_ms =
     (case lease_expire_up_to (eng_leases e) (i64_sat_sub now_ms grace_ms) of
        (expired, T) \<Rightarrow>
          (case sweep_loop X sub_id now_ms expired (0, T) of
             (dropped, T') \<Rightarrow> (dropped, e\<lparr>eng_leases := T'\<rparr>)))"

definition lease_count :: "'s engine \<Rightarrow> nat" where
  "lease_count e = lease_len (eng_leases e)"

definition recover_entry :: "ext \<Rightarrow> bytes \<times> bytes \<Rightarrow> lease_table \<Rightarrow> lease_table" where
  "recover_entry X entry T =
     (case parse_delivery_key (fst entry) of
        None \<Rightarrow> T
      | Some (sub_id, seq) \<Rightarrow>
          (case delivery_decode X (snd entry) of
             None \<Rightarrow> T
           | Some r \<Rightarrow> snd (lease_insert X T sub_id seq (dr_deadline_ms r) (dr_attempts r) (dr_generation r))))"

definition recover :: "'s kv_ops \<Rightarrow> ext \<Rightarrow> 's engine \<Rightarrow> 's engine" where
  "recover K X e =
     e\<lparr>eng_leases := fold (recover_entry X) (kv_scan_prefix K (eng_kv e) ''dlv'' []) (eng_leases e)\<rparr>"

fun first_unacked :: "ext \<Rightarrow> cursor_record \<Rightarrow> (bytes \<times> bytes) list \<Rightarrow> int option" where
  "first_unacked X cursor [] = None"
| "first_unacked X cursor ((key, v) # entries) =
     (case parse_msg_key key of
        None \<Rightarrow> first_unacked X cursor entries
      | Some (_, seq) \<Rightarrow>
          if seq \<le> cr_acked_floor cursor \<or> seq \<in> set (cr_acked_above_floor cursor)
          then first_unacked X cursor entries
          else (case message_decode X v of
                  None \<Rightarrow> first_unacked X cursor entries
                | Some m \<Rightarrow> Some (mr_publish_ts_ms m)))"

definition oldest_unacked_publish_ts_ms ::
    "'s kv_ops \<Rightarrow> ext \<Rightarrow> 's engine \<Rightarrow> u64 \<Rightarrow> u64 \<Rightarrow> int option result" where
  "oldest_unacked_publish_ts_ms K X e sub_id topic_id =
     bind_r (load_cursor K X (eng_kv e) sub_id) (\<lambda>cursor.
       Inr (first_unacked X cursor (kv_scan_prefix K (eng_kv e) ''msg'' (msg_key_prefix topic_id))))"

fun delete_keys :: "'s kv_ops \<Rightarrow> bytes list \<Rightarrow> 's \<Rightarrow> ('s, unit) st_result" where
  "delete_keys K [] s = (Inr (), s)"
| "delete_keys K (k # ks) s = bind_st (kv_delete K s ''dlv'' k) (\<lambda>_ s. delete_keys K ks s)"

definition restore_cursor ::
    "'s kv_ops \<Rightarrow> ext \<Rightarrow> 's engine \<Rightarrow> u64 \<Rightarrow> cursor_record \<Rightarrow> ('s engine, unit) st_result" where
  "restore_cursor K X e sub_id cursor =
     (case lease_remove_all_for_subscription (eng_leases e) sub_id of
        (removed_seqs, T) \<Rightarrow>
          on_kv (e\<lparr>eng_leases := T\<rparr>) (\<lambda>s.
            bind_st (delete_keys K (map (delivery_key sub_id) removed_seqs) s) (\<lambda>_ s.
            bind_st (delete_keys K (map fst (kv_scan_prefix K s ''dlv'' (delivery_key_prefix sub_id))) s) (\<lambda>_ s.
            save_cursor K X s sub_id cursor))))"

end
