(* ===== verification/Cursor_Facts.thy ===== *)
theory Cursor_Facts
  imports Engine
begin

text \<open>
  A subscription's cursor stands for the set of sequence numbers that are done. The facts
  here say that \<open>mark_done\<close> adds exactly one element to that set and keeps the representation
  canonical: nothing at or next to the floor is listed above it.
\<close>

definition done_seqs :: "cursor_record \<Rightarrow> u64 set" where
  "done_seqs c = {q. q \<le> cr_acked_floor c} \<union> set (cr_acked_above_floor c)"

definition cursor_ok :: "cursor_record \<Rightarrow> bool" where
  "cursor_ok c \<longleftrightarrow>
     bt_wf (cr_acked_above_floor c) \<and>
     (\<forall>q \<in> set (cr_acked_above_floor c). cr_acked_floor c < q \<and> q \<noteq> cr_acked_floor c + 1)"

text \<open>The successor of a word that is not the greatest.\<close>

lemma less_Suc_word: "(a :: u64) < b \<Longrightarrow> q \<le> a + 1 \<longleftrightarrow> q \<le> a \<or> q = a + 1"
  using unat_Suc_less [of a b] by (auto simp: word_le_nat_alt word_unat_eq_iff)

lemma Suc_less_word: "(a :: u64) < b \<Longrightarrow> b \<noteq> a + 1 \<Longrightarrow> a + 1 < b"
  using unat_Suc_less [of a b] by (auto simp: word_less_nat_alt word_unat_eq_iff)

lemma advance_floor_spec:
  assumes "bt_wf ab" and "\<forall>q \<in> set ab. fl < q" and "advance_floor fl ab = (fl', ab')"
  shows "bt_wf ab' \<and> (\<forall>q \<in> set ab'. fl' < q \<and> q \<noteq> fl' + 1) \<and> fl \<le> fl' \<and>
    {q. q \<le> fl'} \<union> set ab' = {q. q \<le> fl} \<union> set ab"
  using assms
proof (induction fl ab rule: advance_floor.induct)
  case (1 fl ab)
  show ?case
  proof (cases "fl + 1 \<in> set ab")
    case True
    then have less: "fl < fl + 1" using "1.prems"(2) by blast
    have "\<forall>q \<in> set (bt_remove (fl + 1) ab). fl + 1 < q"
      using "1.prems"(2) Suc_less_word by simp
    moreover have "advance_floor (fl + 1) (bt_remove (fl + 1) ab) = (fl', ab')"
      using "1.prems"(3) True by (simp add: advance_floor.simps [of fl])
    moreover have "bt_wf (bt_remove (fl + 1) ab)"
      using "1.prems"(1) by (rule bt_wf_remove)
    ultimately have IH: "bt_wf ab' \<and> (\<forall>q \<in> set ab'. fl' < q \<and> q \<noteq> fl' + 1) \<and> fl + 1 \<le> fl' \<and>
        {q. q \<le> fl'} \<union> set ab' = {q. q \<le> fl + 1} \<union> set (bt_remove (fl + 1) ab)"
      using "1.IH" [OF True] by blast
    moreover have "{q. q \<le> fl + 1} \<union> set (bt_remove (fl + 1) ab) = {q. q \<le> fl} \<union> set ab"
      using True less_Suc_word [OF less] by auto
    moreover have "fl \<le> fl'"
      using IH less_imp_le [OF less] by (blast intro: order_trans)
    ultimately show ?thesis by simp
  next
    case False
    then show ?thesis
      using "1.prems" by (auto simp: advance_floor.simps [of fl])
  qed
qed

lemma mark_done_spec:
  assumes "cursor_ok c"
  shows "cursor_ok (mark_done c q)" and "done_seqs (mark_done c q) = insert q (done_seqs c)"
    and "cr_attach_seq (mark_done c q) = cr_attach_seq c"
    and "cr_acked_floor c \<le> cr_acked_floor (mark_done c q)"
proof -
  let ?fl = "cr_acked_floor c" and ?ab = "cr_acked_above_floor c"
  have wf: "bt_wf ?ab" "\<forall>q \<in> set ?ab. ?fl < q \<and> q \<noteq> ?fl + 1"
    using assms by (auto simp: cursor_ok_def)
  consider (below) "q \<le> ?fl" | (succ) "\<not> q \<le> ?fl" "q = ?fl + 1" | (over) "\<not> q \<le> ?fl" "q \<noteq> ?fl + 1"
    by blast
  then have "cursor_ok (mark_done c q) \<and> done_seqs (mark_done c q) = insert q (done_seqs c) \<and>
    cr_attach_seq (mark_done c q) = cr_attach_seq c \<and> ?fl \<le> cr_acked_floor (mark_done c q)"
  proof cases
    case below
    then show ?thesis using assms by (auto simp: mark_done_def done_seqs_def)
  next
    case succ
    then have less: "?fl < ?fl + 1" by simp
    obtain fl' ab' where adv: "advance_floor (?fl + 1) ?ab = (fl', ab')" by fastforce
    have "\<forall>q \<in> set ?ab. ?fl + 1 < q" using wf(2) Suc_less_word by blast
    with wf(1) have spec: "bt_wf ab' \<and> (\<forall>q \<in> set ab'. fl' < q \<and> q \<noteq> fl' + 1) \<and> ?fl + 1 \<le> fl' \<and>
        {q. q \<le> fl'} \<union> set ab' = {q. q \<le> ?fl + 1} \<union> set ?ab"
      using advance_floor_spec adv by blast
    have c': "mark_done c q = c\<lparr>cr_acked_floor := fl', cr_acked_above_floor := ab'\<rparr>"
      using succ by (simp add: mark_done_def adv)
    have "done_seqs (mark_done c q) = {q. q \<le> ?fl + 1} \<union> set ?ab"
      using spec by (simp add: c' done_seqs_def)
    also have "\<dots> = insert q (done_seqs c)"
      using succ(2) less_Suc_word [OF less] by (auto simp: done_seqs_def)
    finally show ?thesis
      using spec order_trans [OF less_imp_le [OF less]] by (simp add: c' cursor_ok_def)
  next
    case over
    then show ?thesis using wf by (auto simp: mark_done_def done_seqs_def cursor_ok_def)
  qed
  then show "cursor_ok (mark_done c q)" and "done_seqs (mark_done c q) = insert q (done_seqs c)"
    and "cr_attach_seq (mark_done c q) = cr_attach_seq c"
    and "?fl \<le> cr_acked_floor (mark_done c q)"
    by blast+
qed

section \<open>Properties\<close>

text \<open>
  Marking a message done adds exactly its sequence number to the set the cursor stands
  for, keeps the cursor canonical (nothing at or just above the floor is listed), never lowers
  the floor and never touches the attach point.
\<close>

theorem mark_done_adds_one:
  assumes "cursor_ok c"
  shows "cursor_ok (mark_done c q) \<and> done_seqs (mark_done c q) = insert q (done_seqs c) \<and>
    cr_attach_seq (mark_done c q) = cr_attach_seq c \<and>
    cr_acked_floor c \<le> cr_acked_floor (mark_done c q)"
  using mark_done_spec [OF assms] by blast

theorem mark_done_adds_one_witness:
  "done_seqs (mark_done \<lparr>cr_attach_seq = 0, cr_acked_floor = 4, cr_acked_above_floor = [6, 7]\<rparr> 5) =
     insert 5 (done_seqs \<lparr>cr_attach_seq = 0, cr_acked_floor = 4, cr_acked_above_floor = [6, 7]\<rparr>)"
proof -
  have "cursor_ok \<lparr>cr_attach_seq = 0, cr_acked_floor = 4, cr_acked_above_floor = [6, 7]\<rparr>"
    by (simp add: cursor_ok_def)
  then show ?thesis using mark_done_adds_one by blast
qed

end
