(* ===== verification/Lease_Next.thy ===== *)
theory Lease_Next
  imports Cursor_Facts
begin

text \<open>
  What a pull does: the facts about \<open>lease_next\<close> of the delivery engine. Each scanned entry
  touches only its own lease and delivery row (besides what dead-lettering appends), so the
  entries of one scan do not interfere; the scan's result follows by induction over them.
\<close>

section \<open>Frames\<close>

text \<open>
  What is left alone by work on the messages \<open>Q\<close> of subscription \<open>sub\<close>: other leases, and
  everything in the store but the delivery rows of \<open>Q\<close>, message logs and log tails.
\<close>

definition protected :: "u64 \<Rightarrow> u64 set \<Rightarrow> string \<times> bytes \<Rightarrow> bool" where
  "protected sub Q p \<longleftrightarrow>
     fst p \<noteq> ''msg'' \<and> (\<forall>t. p \<noteq> (''meta'', topic_seq_counter_key t)) \<and>
     (\<forall>q \<in> Q. p \<noteq> (''dlv'', delivery_key sub q))"

definition store_frame :: "u64 \<Rightarrow> u64 set \<Rightarrow> view \<Rightarrow> view \<Rightarrow> bool" where
  "store_frame sub Q V V' \<longleftrightarrow> (\<forall>p. protected sub Q p \<longrightarrow> V' p = V p)"

definition eng_frame :: "'s kv_ops \<Rightarrow> u64 \<Rightarrow> u64 set \<Rightarrow> 's engine \<Rightarrow> 's engine \<Rightarrow> bool" where
  "eng_frame K sub Q e e' \<longleftrightarrow>
     eng_waiters e' = eng_waiters e \<and> eng_streams e' = eng_streams e \<and> eng_filters e' = eng_filters e \<and>
     (\<forall>s q. (s, q) \<notin> {sub} \<times> Q \<longrightarrow> lease_abs (eng_leases e') (s, q) = lease_abs (eng_leases e) (s, q)) \<and>
     store_frame sub Q (kv_view K (eng_kv e)) (kv_view K (eng_kv e'))"

lemma protected_simps [simp]:
  "protected sub Q (''dlv'', delivery_key s q) \<longleftrightarrow> s \<noteq> sub \<or> q \<notin> Q"
  "protected sub Q (''sub'', k)" "protected sub Q (''idx'', k)"
  "protected sub Q (''meta'', sub_key i)" "protected sub Q (''meta'', topic_key i)"
  "protected sub Q (''meta'', name_key kind n)"
  "protected sub (Q \<union> R) p \<longleftrightarrow> protected sub Q p \<and> protected sub R p"
  by (auto simp: protected_def)

lemma store_frame_refl [simp]: "store_frame sub Q V V"
  by (simp add: store_frame_def)

lemma store_frame_trans:
  "store_frame sub Q V V' \<Longrightarrow> store_frame sub R V' V'' \<Longrightarrow> store_frame sub (Q \<union> R) V V''"
  by (simp add: store_frame_def)

lemma store_frame_mono: "store_frame sub Q V V' \<Longrightarrow> Q \<subseteq> R \<Longrightarrow> store_frame sub R V V'"
  by (metis protected_simps(7) store_frame_def sup.absorb_iff1)

lemma eng_frame_refl [simp]: "eng_frame K sub Q e e"
  by (simp add: eng_frame_def)

lemma eng_frame_trans:
  assumes "eng_frame K sub Q e e'" and "eng_frame K sub R e' e''"
  shows "eng_frame K sub (Q \<union> R) e e''"
proof -
  have "store_frame sub (Q \<union> R) (kv_view K (eng_kv e)) (kv_view K (eng_kv e''))"
    using assms unfolding eng_frame_def by (blast intro: store_frame_trans)
  with assms show ?thesis by (simp add: eng_frame_def)
qed

lemma eng_frame_mono: "eng_frame K sub Q e e' \<Longrightarrow> Q \<subseteq> R \<Longrightarrow> eng_frame K sub R e e'"
  unfolding eng_frame_def using store_frame_mono by blast

lemma eng_frame_view:
  "eng_frame K sub Q e e' \<Longrightarrow> protected sub Q p \<Longrightarrow> kv_view K (eng_kv e') p = kv_view K (eng_kv e) p"
  unfolding eng_frame_def store_frame_def by blast

lemma eng_frame_lease:
  "eng_frame K sub Q e e' \<Longrightarrow> q \<notin> Q \<Longrightarrow> lease_abs (eng_leases e') (s, q) = lease_abs (eng_leases e) (s, q)"
  by (auto simp: eng_frame_def)

text \<open>The delivery attempts a message has behind it, in memory or on disk.\<close>

definition prior_attempts :: "'s kv_ops \<Rightarrow> ext \<Rightarrow> 's engine \<Rightarrow> u64 \<Rightarrow> u64 \<Rightarrow> u32" where
  "prior_attempts K X e sub q =
     (case lease_abs (eng_leases e) (sub, q) of
        Some l \<Rightarrow> l_attempts l
      | None \<Rightarrow> (case persisted_delivery_record K X (eng_kv e) sub q of
                   Some r \<Rightarrow> dr_attempts r | None \<Rightarrow> 0))"

lemma persisted_frame:
  "eng_frame K sub Q e e' \<Longrightarrow> q \<notin> Q \<Longrightarrow>
     persisted_delivery_record K X (eng_kv e') s q = persisted_delivery_record K X (eng_kv e) s q"
  by (simp add: persisted_delivery_record_def kv_get_view eng_frame_view [of K sub Q e e'])

lemma prior_attempts_frame:
  assumes "eng_frame K sub Q e e'" and "q \<notin> Q"
  shows "prior_attempts K X e' s q = prior_attempts K X e s q"
  unfolding prior_attempts_def eng_frame_lease [OF assms] persisted_frame [OF assms] ..

text \<open>The lease and the delivery row that a grant leaves behind.\<close>

definition granted :: "'s kv_ops \<Rightarrow> ext \<Rightarrow> u64 \<Rightarrow> int \<Rightarrow> delivered \<Rightarrow> 's engine \<Rightarrow> bool" where
  "granted K X sub deadline d e \<longleftrightarrow>
     lease_abs (eng_leases e) (sub, d_seq d) =
       Some \<lparr>l_sub_id = sub, l_seq = d_seq d, l_deadline_ms = deadline,
             l_attempts = d_delivery_attempt d, l_generation = ucast (d_delivery_attempt d)\<rparr> \<and>
     kv_view K (eng_kv e) (''dlv'', delivery_key sub (d_seq d)) =
       Some (delivery_encode X \<lparr>dr_deadline_ms = deadline, dr_attempts = d_delivery_attempt d,
                                dr_generation = ucast (d_delivery_attempt d)\<rparr>)"

lemma granted_frame:
  "granted K X sub deadline d e \<Longrightarrow> eng_frame K sub Q e e' \<Longrightarrow> d_seq d \<notin> Q \<Longrightarrow>
     granted K X sub deadline d e'"
  by (simp add: granted_def eng_frame_lease [of K sub Q e e'] eng_frame_view [of K sub Q e e'])

definition filter_passes :: "compiled_filter option \<Rightarrow> message_record \<Rightarrow> bool" where
  "filter_passes flt m = (case flt of None \<Rightarrow> True | Some f \<Rightarrow> filter_matches f (mr_attributes m))"

text \<open>A delivery as it should be, seen from the engine \<open>e\<close> before the pull.\<close>

definition sound_delivery ::
    "'s kv_ops \<Rightarrow> ext \<Rightarrow> u64 \<Rightarrow> int \<Rightarrow> compiled_filter option \<Rightarrow> bytes \<Rightarrow> 's engine \<Rightarrow> delivered \<Rightarrow> bool" where
  "sound_delivery K X sub now flt b e d \<longleftrightarrow>
     message_decode X b = Some (d_message d) \<and> filter_passes flt (d_message d) \<and>
     (\<forall>l. lease_abs (eng_leases e) (sub, d_seq d) = Some l \<longrightarrow> l_deadline_ms l \<le> now) \<and>
     d_delivery_attempt d = word_sat_add (prior_attempts K X e sub (d_seq d)) 1 \<and>
     d_ack_id d = encode_ack_id X sub (d_seq d) (ucast (d_delivery_attempt d))"

section \<open>The pieces of a scan step\<close>

lemma on_kv_Inr:
  "on_kv e f = (Inr a, e') \<longleftrightarrow> (\<exists>s. f (eng_kv e) = (Inr a, s) \<and> e' = e\<lparr>eng_kv := s\<rparr>)"
  by (auto simp: on_kv_def split: prod.splits)

context store_env
begin

abbreviation eng_wf :: "'s engine \<Rightarrow> bool" where
  "eng_wf e \<equiv> wf (eng_kv e) \<and> lease_table_wf (eng_leases e)"

lemma append_write_frame:
  assumes "wf s" and "append_write K X t now expire s ms = (Inr qs, s')"
  shows "wf s' \<and> store_frame sub {} (V s) (V s')"
  using assms
proof (induction ms arbitrary: s qs)
  case (Cons m ms)
  obtain p as ok where m: "m = (p, as, ok)" by (cases m) auto
  obtain q s1 s2 qs2 b where steps: "next_seq K s t = (Inr q, s1)"
    "kv_put K s1 ''msg'' (msg_key t q) b = (Inr (), s2)"
    "append_write K X t now expire s2 ms = (Inr qs2, s')"
    using Cons.prems(2) by (auto simp: m result_iffs Let_def)
  have 1: "wf s1" "V s1 = (V s)((''meta'', topic_seq_counter_key t) \<mapsto> to_be_bytes q)"
    using next_seq_ok [OF Cons.prems(1) steps(1)] by simp_all
  have 2: "wf s2" "V s2 = (V s1)((''msg'', msg_key t q) \<mapsto> b)"
    using put_ok' [OF steps(2) 1(1)] by simp_all
  have "store_frame sub {} (V s) (V s2)"
    by (auto simp: store_frame_def protected_def 1 2)
  with Cons.IH [OF 2(1) steps(3)] show ?case
    using store_frame_trans [of sub "{}" "V s" "V s2" "{}" "V s'"] by simp
qed simp

lemma topic_append_frame:
  assumes "wf s" and "topic_append K X s t ms now r = (Inr qs, s')"
  shows "wf s' \<and> store_frame sub {} (V s) (V s')"
proof -
  obtain expire where "append_write K X t now expire s ms = (Inr qs, s')"
    using assms(2) by (auto simp: topic_append_def with_r_Inr_iff Let_def)
  with assms(1) show ?thesis by (rule append_write_frame)
qed

lemma forward_frame:
  assumes "wf s" and "forward_to_dead_letter_topic K X s n m policy cnt now = (Inr b, s')"
  shows "wf s' \<and> store_frame sub {} (V s) (V s')"
proof (cases "topic_get K X s n")
  case (Inl err)
  then show ?thesis
    using assms by (cases err) (auto simp: forward_to_dead_letter_topic_def)
next
  case (Inr dlq)
  then obtain as r qs where "topic_append K X s (tr_id dlq) as now r = (Inr qs, s')"
    using assms(2) by (auto simp: forward_to_dead_letter_topic_def result_iffs Let_def)
  with assms(1) show ?thesis by (rule topic_append_frame)
qed

lemma try_dead_letter_frame:
  assumes "eng_wf e" and "try_dead_letter K X e m policy a now = (Inr b, e')"
  shows "eng_wf e' \<and> eng_frame K sub {} e e' \<and> eng_leases e' = eng_leases e"
  using assms forward_frame [where sub = sub]
  by (auto simp: try_dead_letter_def Let_def on_kv_Inr eng_frame_def split: if_splits)

text \<open>Deleting a message's delivery row, and dropping its lease.\<close>

lemma drop_row_frame:
  assumes "eng_wf e" and "on_kv e (\<lambda>s. kv_delete K s ''dlv'' (delivery_key sub q)) = (Inr u, e')"
  shows "eng_wf e' \<and> eng_frame K sub {q} e e' \<and> eng_leases e' = eng_leases e \<and>
    kv_view K (eng_kv e') (''dlv'', delivery_key sub q) = None"
proof -
  obtain s where s: "kv_delete K (eng_kv e) ''dlv'' (delivery_key sub q) = (Inr u, s)"
    "e' = e\<lparr>eng_kv := s\<rparr>"
    using assms(2) by (auto simp: on_kv_Inr)
  have "wf s" "V s = (V (eng_kv e))((''dlv'', delivery_key sub q) := None)"
    using delete_ok' [OF s(1)] assms(1) by simp_all
  then show ?thesis
    using assms(1) by (auto simp: s(2) eng_frame_def store_frame_def protected_def)
qed

lemma drop_lease_frame:
  "eng_wf e \<Longrightarrow> eng_wf (e\<lparr>eng_leases := snd (lease_remove (eng_leases e) sub q)\<rparr>) \<and>
     eng_frame K sub {q} e (e\<lparr>eng_leases := snd (lease_remove (eng_leases e) sub q)\<rparr>)"
  by (simp add: eng_frame_def remove_wf remove_abs)

lemma reclaim_tail:
  assumes wf: "eng_wf e1" and frame: "eng_frame K sub {q} e e1"
    and run: "(if fwd then bind_st (on_kv e1 (\<lambda>s. kv_delete K s ''dlv'' (delivery_key sub q)))
        (\<lambda>_ e. (Inr DeadLettered, e)) else (Inr (Deliverable n), e1)) = (Inr oc, e')"
  shows "eng_wf e' \<and> eng_frame K sub {q} e e' \<and> (oc = DeadLettered \<or> oc = Deliverable n)"
proof (cases fwd)
  case True
  then have "on_kv e1 (\<lambda>s. kv_delete K s ''dlv'' (delivery_key sub q)) = (Inr (), e')" "oc = DeadLettered"
    using run by (auto simp: bind_st_Inr_iff)
  then show ?thesis
    using wf drop_row_frame [OF wf] eng_frame_trans [OF frame, of "{q}" e'] by auto
qed (use assms in auto)

lemma reclaim_spec:
  assumes wf: "eng_wf e" and run: "reclaim K X e sub q m now = (Inr oc, e')"
  shows "eng_wf e' \<and> eng_frame K sub {q} e e' \<and> (oc = HoldBack \<longrightarrow> e' = e) \<and>
    (\<forall>n. oc = Deliverable n \<longrightarrow> n = prior_attempts K X e sub q \<and>
       (\<forall>l. lease_abs (eng_leases e) (sub, q) = Some l \<longrightarrow> l_deadline_ms l \<le> now))"
proof (cases "lease_abs (eng_leases e) (sub, q)")
  case lease: (Some l)
  let ?p = "reclaim_policy_of K X (eng_kv e) sub"
  show ?thesis
  proof (cases "l_deadline_ms l > now \<or> in_backoff ?p (l_attempts l) (l_deadline_ms l) now")
    case True
    then have "oc = HoldBack \<and> e' = e"
      using run lease by (auto simp: reclaim_def lease_get_def Let_def split: if_splits)
    then show ?thesis using wf by simp
  next
    case False
    then obtain fwd e1 where e1: "try_dead_letter K X e m ?p (l_attempts l) now = (Inr fwd, e1)"
      using run lease by (auto simp: reclaim_def lease_get_def Let_def bind_st_Inr_iff)
    let ?e2 = "e1\<lparr>eng_leases := snd (lease_remove (eng_leases e1) sub q)\<rparr>"
    have 1: "eng_wf e1" "eng_frame K sub {} e e1"
      using wf try_dead_letter_frame [OF wf e1] by auto
    have "eng_wf ?e2 \<and> eng_frame K sub {q} e ?e2"
      using drop_lease_frame [OF 1(1)] eng_frame_trans [OF 1(2)] by force
    then have "eng_wf e' \<and> eng_frame K sub {q} e e' \<and> (oc = DeadLettered \<or> oc = Deliverable (l_attempts l))"
      using run lease False e1
      by (intro reclaim_tail [of ?e2 sub q e fwd]) (auto simp: reclaim_def lease_get_def Let_def)
    with lease False show ?thesis by (auto simp: prior_attempts_def)
  qed
next
  case None
  let ?p = "reclaim_policy_of K X (eng_kv e) sub"
  show ?thesis
  proof (cases "persisted_delivery_record K X (eng_kv e) sub q")
    case no_row: None
    then have "oc = Deliverable 0 \<and> e' = e"
      using run None by (auto simp: reclaim_def lease_get_def)
    then show ?thesis using wf None no_row by (simp add: prior_attempts_def)
  next
    case (Some r)
    show ?thesis
    proof (cases "in_backoff ?p (dr_attempts r) (dr_deadline_ms r) now")
      case True
      then have "oc = HoldBack \<and> e' = e"
        using run None Some by (auto simp: reclaim_def lease_get_def Let_def)
      then show ?thesis using wf by simp
    next
      case False
      then obtain fwd e1 where e1: "try_dead_letter K X e m ?p (dr_attempts r) now = (Inr fwd, e1)"
        using run None Some by (auto simp: reclaim_def lease_get_def Let_def bind_st_Inr_iff)
      have "eng_wf e1 \<and> eng_frame K sub {q} e e1"
        using wf try_dead_letter_frame [OF wf e1, of sub] eng_frame_mono [of K sub "{}" e e1 "{q}"] by auto
      then have "eng_wf e' \<and> eng_frame K sub {q} e e' \<and> (oc = DeadLettered \<or> oc = Deliverable (dr_attempts r))"
        using run None Some False e1
        by (intro reclaim_tail [of e1 sub q e fwd]) (auto simp: reclaim_def lease_get_def Let_def)
      with None Some show ?thesis by (auto simp: prior_attempts_def)
    qed
  qed
qed

lemma grant_spec:
  assumes wf: "eng_wf e" and run: "grant K X e sub q m n now secs = (Inr d, e')"
  shows "eng_wf e' \<and> eng_frame K sub {q} e e' \<and>
    granted K X sub (i64_sat_add now (max secs 0 * 1000)) d e' \<and>
    d = \<lparr>d_seq = q, d_ack_id = encode_ack_id X sub q (ucast (word_sat_add n 1)), d_message = m,
         d_delivery_attempt = word_sat_add n 1\<rparr>"
proof -
  let ?a = "word_sat_add n 1" and ?dl = "i64_sat_add now (max secs 0 * 1000)"
  let ?T = "snd (lease_insert X (eng_leases e) sub q ?dl ?a (ucast ?a))"
  let ?b = "delivery_encode X \<lparr>dr_deadline_ms = ?dl, dr_attempts = ?a, dr_generation = ucast ?a\<rparr>"
  have id: "fst (lease_insert X (eng_leases e) sub q ?dl ?a (ucast ?a)) = encode_ack_id X sub q (ucast ?a)"
    by (simp add: lease_insert_def Let_def)
  obtain s where s: "kv_put K (eng_kv e) ''dlv'' (delivery_key sub q) ?b = (Inr (), s)"
    and d: "d = \<lparr>d_seq = q, d_ack_id = encode_ack_id X sub q (ucast ?a), d_message = m,
         d_delivery_attempt = ?a\<rparr>" and e': "e' = e\<lparr>eng_leases := ?T, eng_kv := s\<rparr>"
    using run id by (auto simp: grant_def Let_def bind_st_Inr_iff on_kv_Inr split: prod.splits)
  have "wf s" "V s = (V (eng_kv e))((''dlv'', delivery_key sub q) \<mapsto> ?b)"
    using put_ok' [OF s] wf by simp_all
  then show ?thesis
    using wf by (auto simp: e' d insert_wf insert_abs eng_frame_def store_frame_def protected_def granted_def)
qed

section \<open>A step of the scan\<close>

lemma sound_delivery_frame:
  "sound_delivery K X sub now flt b e' d \<Longrightarrow> eng_frame K sub Q e e' \<Longrightarrow> d_seq d \<notin> Q \<Longrightarrow>
     sound_delivery K X sub now flt b e d"
  by (simp add: sound_delivery_def eng_frame_lease [of K sub Q e e'] prior_attempts_frame [of K sub Q e e'])

lemma lease_step_spec:
  assumes wf: "eng_wf e" and ok: "cursor_ok c" and key: "parse_msg_key k = Some (t, q)"
    and run: "lease_step K X sub now secs flt (k, b) (c, ch, out) e = (Inr (c', ch', out'), e')"
  shows "eng_wf e' \<and> eng_frame K sub {q} e e' \<and>
    ((c' = c \<and> ch' = ch \<and> out' = out \<and> e' = e) \<or>
     (c' = mark_done c q \<and> ch' \<and> out' = out \<and> q \<notin> done_seqs c) \<or>
     (\<exists>d. c' = c \<and> ch' = ch \<and> out' = out @ [d] \<and> q \<notin> done_seqs c \<and> d_seq d = q \<and>
        sound_delivery K X sub now flt b e d \<and> granted K X sub (i64_sat_add now (max secs 0 * 1000)) d e'))"
proof (cases "q \<in> done_seqs c \<or> message_decode X b = None")
  case True
  then have "(c', ch', out') = (c, ch, out) \<and> e' = e"
    using run key by (auto simp: lease_step_def done_seqs_def split: if_splits)
  then show ?thesis using wf by simp
next
  case False
  then obtain m where q: "q \<notin> done_seqs c" and m: "message_decode X b = Some m" by auto
  show ?thesis
  proof (cases "filter_passes flt m")
    case False
    then have "(c', ch', out') = (mark_done c q, True, out) \<and> e' = e"
      using run key q m by (auto simp: lease_step_def done_seqs_def filter_passes_def split: option.splits)
    then show ?thesis using wf q by simp
  next
    case True
    then obtain oc e1 where e1: "reclaim K X e sub q m now = (Inr oc, e1)"
      and rest: "(case oc of HoldBack \<Rightarrow> (Inr (c, ch, out), e1)
        | DeadLettered \<Rightarrow> (Inr (mark_done c q, True, out), e1)
        | Deliverable n \<Rightarrow> bind_st (grant K X e1 sub q m n now secs)
            (\<lambda>d e. (Inr (c, ch, out @ [d]), e))) = (Inr (c', ch', out'), e')"
      using run key q m
      by (auto simp: lease_step_def done_seqs_def filter_passes_def bind_st_Inr_iff split: option.splits)
    note r = reclaim_spec [OF wf e1]
    show ?thesis
    proof (cases oc)
      case (Deliverable n)
      then obtain d where d: "grant K X e1 sub q m n now secs = (Inr d, e')"
        and eqs: "c' = c" "ch' = ch" "out' = out @ [d]"
        using rest by (auto simp: bind_st_Inr_iff)
      have e1_ok: "eng_wf e1" "eng_frame K sub {q} e e1" using r by auto
      note g = grant_spec [OF e1_ok(1) d]
      have "eng_frame K sub {q} e e'" using eng_frame_trans [OF e1_ok(2), of "{q}" e'] g by simp
      moreover have "sound_delivery K X sub now flt b e d"
        using g r m True Deliverable by (simp add: sound_delivery_def)
      moreover have "d_seq d = q" using g by simp
      ultimately show ?thesis using g q eqs by blast
    qed (use r rest q in auto)
  qed
qed

section \<open>The scan\<close>

definition entry_seqs :: "(bytes \<times> bytes) list \<Rightarrow> u64 set" where
  "entry_seqs entries =
     (\<Union>x \<in> set entries. case parse_msg_key (fst x) of None \<Rightarrow> {} | Some (t, q) \<Rightarrow> {q})"

lemma entry_seqs_simps [simp]:
  "entry_seqs [] = {}"
  "entry_seqs (x # xs) =
     (case parse_msg_key (fst x) of None \<Rightarrow> {} | Some (t, q) \<Rightarrow> {q}) \<union> entry_seqs xs"
  by (simp_all add: entry_seqs_def)

lemma entry_seqs_mem:
  "p \<in> entry_seqs entries \<longleftrightarrow> (\<exists>t b. (msg_key t p, b) \<in> set entries)"
  by (induction entries) (auto simp: parse_msg_key_iff split: option.splits)

text \<open>What a scan of \<open>entries\<close> leads to: the deliveries \<open>new\<close>, the cursor and the engine after it.\<close>

definition scan_ok ::
    "u64 \<Rightarrow> u64 \<Rightarrow> int \<Rightarrow> int \<Rightarrow> compiled_filter option \<Rightarrow> (bytes \<times> bytes) list \<Rightarrow> delivered list \<Rightarrow>
     cursor_record \<Rightarrow> 's engine \<Rightarrow> cursor_record \<Rightarrow> 's engine \<Rightarrow> bool" where
  "scan_ok sub t now secs flt entries new c e c' e' \<longleftrightarrow>
     eng_wf e' \<and> cursor_ok c' \<and> eng_frame K sub (entry_seqs entries) e e' \<and>
     sorted_wrt (<) (map d_seq new) \<and> d_seq ` set new \<subseteq> entry_seqs entries \<and>
     done_seqs c \<subseteq> done_seqs c' \<and> done_seqs c' \<subseteq> done_seqs c \<union> (entry_seqs entries - d_seq ` set new) \<and>
     (\<forall>d \<in> set new. d_seq d \<notin> done_seqs c \<and> granted K X sub (i64_sat_add now (max secs 0 * 1000)) d e' \<and>
        (\<exists>b. (msg_key t (d_seq d), b) \<in> set entries \<and> sound_delivery K X sub now flt b e d))"

lemma scan_ok_nil: "eng_wf e \<Longrightarrow> cursor_ok c \<Longrightarrow> scan_ok sub t now secs flt entries [] c e c e"
  by (simp add: scan_ok_def)

lemma scan_ok_skip:
  "parse_msg_key k = None \<Longrightarrow> scan_ok sub t now secs flt entries new c e c' e' \<Longrightarrow>
     scan_ok sub t now secs flt ((k, b) # entries) new c e c' e'"
  by (auto simp: scan_ok_def)

lemma scan_ok_pass:
  assumes key: "parse_msg_key k = Some (t, q)" and later: "q \<notin> entry_seqs entries"
    and frame: "eng_frame K sub {q} e e1" and mono: "done_seqs c \<subseteq> done_seqs c1" "done_seqs c1 \<subseteq> insert q (done_seqs c)"
    and scan: "scan_ok sub t now secs flt entries new c1 e1 c' e'"
  shows "scan_ok sub t now secs flt ((k, b) # entries) new c e c' e'"
proof -
  have "eng_frame K sub (entry_seqs ((k, b) # entries)) e e'"
    using eng_frame_trans [OF frame] scan key by (simp add: scan_ok_def)
  moreover have "sound_delivery K X sub now flt b' e d"
    if "d \<in> set new" "sound_delivery K X sub now flt b' e1 d" for d b'
  proof -
    have "d_seq d \<noteq> q" using that(1) scan later by (auto simp: scan_ok_def)
    with that(2) show ?thesis using sound_delivery_frame [OF _ frame] by simp
  qed
  ultimately show ?thesis
    using scan mono key later unfolding scan_ok_def by fastforce
qed

lemma scan_ok_deliver:
  assumes key: "parse_msg_key k = Some (t, q)" and later: "\<forall>p \<in> entry_seqs entries. q < p"
    and frame: "eng_frame K sub {q} e e1"
    and d: "q \<notin> done_seqs c" "d_seq d = q" "sound_delivery K X sub now flt b e d"
      "granted K X sub (i64_sat_add now (max secs 0 * 1000)) d e1"
    and scan: "scan_ok sub t now secs flt entries new c e1 c' e'"
  shows "scan_ok sub t now secs flt ((k, b) # entries) (d # new) c e c' e'"
proof -
  have out: "q \<notin> entry_seqs entries" using later by blast
  have pass: "scan_ok sub t now secs flt ((k, b) # entries) new c e c' e'"
    using key out frame scan by (intro scan_ok_pass [of k t q entries sub e e1 c c]) auto
  have "granted K X sub (i64_sat_add now (max secs 0 * 1000)) d e'"
  proof (rule granted_frame [OF d(4)])
    show "eng_frame K sub (entry_seqs entries) e1 e'" using scan by (simp add: scan_ok_def)
    show "d_seq d \<notin> entry_seqs entries" using d(2) out by simp
  qed
  moreover have "\<forall>p \<in> d_seq ` set new. q < p"
    using scan later by (auto simp: scan_ok_def)
  moreover have "q \<notin> done_seqs c'"
    using scan d(1) out by (auto simp: scan_ok_def)
  moreover have "k = msg_key t q" using key by (simp add: parse_msg_key_iff)
  ultimately show ?thesis
    using pass d key unfolding scan_ok_def by auto
qed

lemma later_seqs:
  assumes "sorted_wrt (<) (map fst ((k, b) # entries))" and "parse_msg_key k = Some (t, q)"
    and "\<forall>(k, b) \<in> set entries. prefix (msg_key_prefix t) k"
  shows "\<forall>p \<in> entry_seqs entries. q < p"
  using assms by (fastforce simp: entry_seqs_mem parse_msg_key_iff)

lemma lease_scan_spec:
  assumes "eng_wf e" and "cursor_ok c"
    and "sorted_wrt (<) (map fst entries)" and "\<forall>(k, b) \<in> set entries. prefix (msg_key_prefix t) k"
    and "lease_scan K X sub now secs flt mx entries (c, ch, out) e = (Inr (c', ch', out'), e')"
  shows "\<exists>new. out' = out @ new \<and> scan_ok sub t now secs flt entries new c e c' e' \<and>
    (ch \<longrightarrow> ch') \<and> (\<not> ch' \<longrightarrow> c' = c) \<and> length out' \<le> max mx (length out)"
  using assms
proof (induction entries arbitrary: c ch out e)
  case Nil
  then show ?case by (auto simp: scan_ok_nil)
next
  case (Cons x entries)
  obtain k b where x: "x = (k, b)" by (cases x)
  show ?case
  proof (cases "mx \<le> length out")
    case True
    then show ?thesis using Cons.prems by (auto simp: scan_ok_nil)
  next
    case False
    then obtain c1 ch1 out1 e1 where step:
        "lease_step K X sub now secs flt (k, b) (c, ch, out) e = (Inr (c1, ch1, out1), e1)"
      and rest: "lease_scan K X sub now secs flt mx entries (c1, ch1, out1) e1 = (Inr (c', ch', out'), e')"
      using Cons.prems(5) by (auto simp: x bind_st_Inr_iff)
    have srt: "sorted_wrt (<) (map fst entries)" "\<forall>(k, b) \<in> set entries. prefix (msg_key_prefix t) k"
      using Cons.prems(3,4) by (auto simp: x)
    show ?thesis
    proof (cases "parse_msg_key k")
      case None
      with step have eqs: "c1 = c" "ch1 = ch" "out1 = out" "e1 = e"
        by (auto simp: lease_step_def)
      obtain new where
          "out' = out @ new" "scan_ok sub t now secs flt entries new c e c' e'"
          "ch \<longrightarrow> ch'" "\<not> ch' \<longrightarrow> c' = c" "length out' \<le> max mx (length out)"
        using Cons.IH [OF Cons.prems(1,2) srt rest [unfolded eqs]] by blast
      then show ?thesis unfolding x using scan_ok_skip [OF None, of sub t now secs flt entries new] by metis
    next
      case (Some tq)
      then obtain t' q where k: "k = msg_key t' q"
        by (cases tq) (auto simp: parse_msg_key_iff)
      moreover have "prefix (msg_key_prefix t) k" using Cons.prems(4) by (simp add: x)
      ultimately have key: "parse_msg_key k = Some (t, q)" by simp
      have later: "\<forall>p \<in> entry_seqs entries. q < p"
        using Cons.prems(3) key srt(2) unfolding x by (rule later_seqs)
      then have out_q: "q \<notin> entry_seqs entries" by blast
      note spec = lease_step_spec [OF Cons.prems(1,2) key step]
      then have wf1: "eng_wf e1" and frame: "eng_frame K sub {q} e e1" by auto
      from spec consider
          (skip) "c1 = c" "ch1 = ch" "out1 = out"
        | (mark) "c1 = mark_done c q" "ch1" "out1 = out"
        | (deliver) d where "c1 = c" "ch1 = ch" "out1 = out @ [d]" "q \<notin> done_seqs c" "d_seq d = q"
            "sound_delivery K X sub now flt b e d"
            "granted K X sub (i64_sat_add now (max secs 0 * 1000)) d e1"
        by blast
      then show ?thesis
      proof cases
        case skip
        with Cons.IH [OF wf1 Cons.prems(2) srt] rest obtain new where
            "out' = out @ new" "scan_ok sub t now secs flt entries new c e1 c' e'"
            "ch \<longrightarrow> ch'" "\<not> ch' \<longrightarrow> c' = c" "length out' \<le> max mx (length out)"
          by blast
        then show ?thesis
          unfolding x using scan_ok_pass [OF key out_q frame, of c c] by blast
      next
        case mark
        have "cursor_ok c1" "done_seqs c1 = insert q (done_seqs c)"
          using mark_done_spec [OF Cons.prems(2)] by (simp_all add: mark)
        with Cons.IH [OF wf1 _ srt] mark rest obtain new where
            "out' = out @ new" "scan_ok sub t now secs flt entries new c1 e1 c' e'"
            "ch'" "length out' \<le> max mx (length out)"
          by blast
        then show ?thesis
          unfolding x using scan_ok_pass [OF key out_q frame, of c c1] \<open>done_seqs c1 = _\<close> by blast
      next
        case deliver
        with Cons.IH [OF wf1 Cons.prems(2) srt] rest obtain new where
            "out' = (out @ [d]) @ new" "scan_ok sub t now secs flt entries new c e1 c' e'"
            "ch \<longrightarrow> ch'" "\<not> ch' \<longrightarrow> c' = c" "length out' \<le> max mx (length (out @ [d]))"
          by blast
        with False show ?thesis
          unfolding x using scan_ok_deliver [OF key later frame deliver(4-7)]
          by (intro exI [of _ "d # new"]) auto
      qed
    qed
  qed
qed

section \<open>A pull\<close>

lemma compiled_filter_state:
  "compiled_filter K X e sub = (flt, e') \<Longrightarrow> \<exists>fs. e' = e\<lparr>eng_filters := fs\<rparr>"
  by (auto simp: compiled_filter_def Let_def split: option.splits intro: exI [of _ "eng_filters e"])

lemma prior_attempts_filters [simp]:
  "prior_attempts K X (e\<lparr>eng_filters := fs\<rparr>) sub q = prior_attempts K X e sub q"
  by (simp add: prior_attempts_def cong: option.case_cong)

lemma load_cursor_view:
  "V s (''sub'', cursor_key sub) = V s' (''sub'', cursor_key sub) \<Longrightarrow>
     load_cursor K X s sub = load_cursor K X s' sub"
  by (simp add: load_cursor_def kv_get_view)

lemma save_cursor_ok:
  assumes "eng_wf e" and "on_kv e (\<lambda>s. save_cursor K X s sub c) = (Inr u, e')"
  shows "eng_wf e' \<and> load_cursor K X (eng_kv e') sub = Inr c \<and> eng_leases e' = eng_leases e \<and>
    eng_waiters e' = eng_waiters e \<and> eng_streams e' = eng_streams e \<and> eng_filters e' = eng_filters e \<and>
    V (eng_kv e') = (V (eng_kv e))((''sub'', cursor_key sub) \<mapsto> cursor_encode X c)"
  using assms put_ok' by (fastforce simp: on_kv_Inr save_cursor_def load_cursor_def kv_get_view)

text \<open>What a successful pull guarantees.\<close>

lemma lease_next_spec:
  assumes wf: "eng_wf e" and c: "load_cursor K X (eng_kv e) sub = Inr c" "cursor_ok c"
    and run: "lease_next K X e sub t mx now secs = (Inr out, e')"
  shows "eng_wf e' \<and> length out \<le> nat (max mx 0) \<and> sorted_wrt (<) (map d_seq out) \<and>
    (\<exists>c'. load_cursor K X (eng_kv e') sub = Inr c' \<and> cursor_ok c' \<and> done_seqs c \<subseteq> done_seqs c' \<and>
       (\<forall>d \<in> set out. d_seq d \<notin> done_seqs c')) \<and>
    (\<forall>d \<in> set out. d_seq d \<notin> done_seqs c \<and> granted K X sub (i64_sat_add now (max secs 0 * 1000)) d e' \<and>
       (\<exists>b. V (eng_kv e) (''msg'', msg_key t (d_seq d)) = Some b \<and>
          sound_delivery K X sub now (fst (compiled_filter K X e sub)) b e d)) \<and>
    (\<forall>s. s \<noteq> sub \<longrightarrow> load_cursor K X (eng_kv e') s = load_cursor K X (eng_kv e) s)"
proof (cases "nat (max mx 0) = 0")
  case True
  then have "out = [] \<and> e' = e" using run by (simp add: lease_next_def)
  then show ?thesis using wf c by auto
next
  case False
  let ?entries = "kv_scan_prefix K (eng_kv e) ''msg'' (msg_key_prefix t)"
  obtain flt fs where cf: "compiled_filter K X e sub = (flt, e\<lparr>eng_filters := fs\<rparr>)"
    using compiled_filter_state [of e sub] by (cases "compiled_filter K X e sub") auto
  let ?e = "e\<lparr>eng_filters := fs\<rparr>"
  obtain c' ch' e1 where scan: "lease_scan K X sub now secs flt (nat (max mx 0)) ?entries (c, False, []) ?e
      = (Inr (c', ch', out), e1)"
    and rest: "(if ch' then bind_st (on_kv e1 (\<lambda>s. save_cursor K X s sub c')) (\<lambda>_ e. (Inr out, e))
      else (Inr out, e1)) = (Inr out, e')"
    using run False c(1) cf
    by (auto simp: lease_next_def Let_def bind_st_Inr_iff split: if_splits)
  have srt: "sorted_wrt (<) (map fst ?entries)" "\<forall>(k, b) \<in> set ?entries. prefix (msg_key_prefix t) k"
    using wf scan_sorted scan_mem by auto
  obtain ok: "scan_ok sub t now secs flt ?entries out c ?e c' e1"
    and keep: "\<not> ch' \<longrightarrow> c' = c" and len: "length out \<le> nat (max mx 0)"
    using lease_scan_spec [OF _ c(2) srt scan] wf by auto
  have e1: "eng_wf e1" "eng_frame K sub (entry_seqs ?entries) ?e e1" using ok by (auto simp: scan_ok_def)
  have cur: "load_cursor K X (eng_kv e1) s = load_cursor K X (eng_kv e) s" for s
    using eng_frame_view [OF e1(2), of "(''sub'', cursor_key s)"] by (intro load_cursor_view) simp
  have fin: "eng_wf e' \<and> load_cursor K X (eng_kv e') sub = Inr c' \<and> eng_leases e' = eng_leases e1 \<and>
      (\<forall>k. V (eng_kv e') (''dlv'', k) = V (eng_kv e1) (''dlv'', k)) \<and>
      (\<forall>s. s \<noteq> sub \<longrightarrow> load_cursor K X (eng_kv e') s = load_cursor K X (eng_kv e1) s)"
  proof (cases ch')
    case True
    then have "on_kv e1 (\<lambda>s. save_cursor K X s sub c') = (Inr (), e')"
      using rest by (auto simp: bind_st_Inr_iff)
    note sc = save_cursor_ok [OF e1(1) this]
    have "load_cursor K X (eng_kv e') s = load_cursor K X (eng_kv e1) s" if "s \<noteq> sub" for s
      using sc that by (intro load_cursor_view) simp
    with sc e1(1) show ?thesis by simp
  next
    case False
    then show ?thesis using rest keep cur c(1) e1(1) by simp
  qed
  have all: "\<forall>d \<in> set out. d_seq d \<notin> done_seqs c \<and>
      granted K X sub (i64_sat_add now (max secs 0 * 1000)) d e1 \<and>
      (\<exists>b. (msg_key t (d_seq d), b) \<in> set ?entries \<and> sound_delivery K X sub now flt b ?e d)"
    using ok unfolding scan_ok_def by (elim conjE)
  have deliv: "d_seq d \<notin> done_seqs c \<and> granted K X sub (i64_sat_add now (max secs 0 * 1000)) d e' \<and>
       (\<exists>b. V (eng_kv e) (''msg'', msg_key t (d_seq d)) = Some b \<and> sound_delivery K X sub now flt b e d)"
    if d: "d \<in> set out" for d
  proof -
    obtain b where b: "(msg_key t (d_seq d), b) \<in> set ?entries" "sound_delivery K X sub now flt b ?e d"
      and g: "granted K X sub (i64_sat_add now (max secs 0 * 1000)) d e1" and new: "d_seq d \<notin> done_seqs c"
      using bspec [OF all d] by blast
    have "V (eng_kv e) (''msg'', msg_key t (d_seq d)) = Some b"
      using b(1) wf scan_mem by simp
    moreover have "sound_delivery K X sub now flt b e d"
      using b(2) by (simp add: sound_delivery_def)
    moreover have "granted K X sub (i64_sat_add now (max secs 0 * 1000)) d e'"
      using g fin by (simp add: granted_def)
    ultimately show ?thesis using new by blast
  qed
  have "cursor_ok c'" "done_seqs c \<subseteq> done_seqs c'" "sorted_wrt (<) (map d_seq out)"
    "done_seqs c' \<subseteq> done_seqs c \<union> (entry_seqs ?entries - d_seq ` set out)"
    using ok by (auto simp: scan_ok_def)
  moreover from this(4) have "\<forall>d \<in> set out. d_seq d \<notin> done_seqs c'"
    using deliv by blast
  ultimately show ?thesis
    using fin e1(1) len cur deliv by (simp add: cf)
qed

end

context store_env
begin

lemma lease_scan_all_done:
  assumes "\<forall>x \<in> set entries. \<forall>t q. parse_msg_key (fst x) = Some (t, q) \<longrightarrow> q \<in> done_seqs c"
  shows "lease_scan K X sub now secs flt mx entries (c, ch, out) e = (Inr (c, ch, out), e)"
  using assms
proof (induction entries)
  case (Cons x entries)
  have "lease_step K X sub now secs flt x (c, ch, out) e = (Inr (c, ch, out), e)"
    using Cons.prems by (auto simp: lease_step_def done_seqs_def split: option.split)
  with Cons show ?case by simp
qed simp

lemma lease_next_all_done:
  assumes "wf (eng_kv e)" and "load_cursor K X (eng_kv e) sub = Inr c"
    and "\<forall>q b. V (eng_kv e) (''msg'', msg_key t q) = Some b \<longrightarrow> q \<in> done_seqs c"
  shows "fst (lease_next K X e sub t mx now secs) = Inr []"
proof -
  let ?entries = "kv_scan_prefix K (eng_kv e) ''msg'' (msg_key_prefix t)"
  obtain flt fs where cf: "compiled_filter K X e sub = (flt, e\<lparr>eng_filters := fs\<rparr>)"
    using compiled_filter_state [of e sub] by (cases "compiled_filter K X e sub") auto
  have "\<forall>x \<in> set ?entries. \<forall>u q. parse_msg_key (fst x) = Some (u, q) \<longrightarrow> q \<in> done_seqs c"
    using assms(1,3) by (auto simp: scan_set parse_msg_key_iff)
  then show ?thesis
    using assms(2) by (simp add: lease_next_def Let_def cf lease_scan_all_done)
qed

end

end
