(* ===== verification/Liveness.thy ===== *)
theory Liveness
  imports Lease_Next
begin

text \<open>
  Progress of delivery on a store whose writes succeed: a pull on a subscription without a
  dead-letter topic returns, and what it returns leaves out no message that may be delivered,
  unless it is full.
\<close>

section \<open>What may be delivered\<close>

text \<open>Neither leased at the moment nor waiting for its retry.\<close>

definition deliverable_now :: "'s kv_ops \<Rightarrow> ext \<Rightarrow> 's engine \<Rightarrow> u64 \<Rightarrow> int \<Rightarrow> u64 \<Rightarrow> bool" where
  "deliverable_now K X e sub now q =
     (let policy = reclaim_policy_of K X (eng_kv e) sub in
      case lease_abs (eng_leases e) (sub, q) of
        Some l \<Rightarrow> l_deadline_ms l \<le> now \<and> \<not> in_backoff policy (l_attempts l) (l_deadline_ms l) now
      | None \<Rightarrow>
          (case persisted_delivery_record K X (eng_kv e) sub q of
             Some r \<Rightarrow> \<not> in_backoff policy (dr_attempts r) (dr_deadline_ms r) now
           | None \<Rightarrow> True))"

text \<open>A message of the topic the subscription has yet to see.\<close>

definition pending :: "ext \<Rightarrow> compiled_filter option \<Rightarrow> cursor_record \<Rightarrow> u64 \<Rightarrow> bytes \<Rightarrow> bool" where
  "pending X flt c q b \<longleftrightarrow> q \<notin> done_seqs c \<and> (\<exists>m. message_decode X b = Some m \<and> filter_passes flt m)"

definition no_dead_letter :: "'s kv_ops \<Rightarrow> ext \<Rightarrow> 's \<Rightarrow> u64 \<Rightarrow> bool" where
  "no_dead_letter K X s sub \<longleftrightarrow> (\<forall>r. sub_record_of K X s sub = Some r \<longrightarrow> sr_dead_letter_topic r = None)"

text \<open>Nothing but the lease and the row of message \<open>q\<close> changed.\<close>

definition touches_only :: "'s kv_ops \<Rightarrow> u64 \<Rightarrow> u64 \<Rightarrow> 's engine \<Rightarrow> 's engine \<Rightarrow> bool" where
  "touches_only K sub q e e' \<longleftrightarrow>
     (\<forall>p. p \<noteq> (''dlv'', delivery_key sub q) \<longrightarrow> kv_view K (eng_kv e') p = kv_view K (eng_kv e) p) \<and>
     (\<forall>j. j \<noteq> (sub, q) \<longrightarrow> lease_abs (eng_leases e') j = lease_abs (eng_leases e) j)"

lemma touches_only_refl [simp]: "touches_only K sub q e e"
  by (simp add: touches_only_def)

lemma touches_policy:
  assumes "touches_only K sub q e e'"
  shows "sub_record_of K X (eng_kv e') s = sub_record_of K X (eng_kv e) s"
    and "reclaim_policy_of K X (eng_kv e') s = reclaim_policy_of K X (eng_kv e) s"
    and "no_dead_letter K X (eng_kv e') s = no_dead_letter K X (eng_kv e) s"
proof -
  show *: "sub_record_of K X (eng_kv e') s = sub_record_of K X (eng_kv e) s" for s
    using assms by (simp add: touches_only_def sub_record_of_def kv_get_view)
  show "reclaim_policy_of K X (eng_kv e') s = reclaim_policy_of K X (eng_kv e) s"
    "no_dead_letter K X (eng_kv e') s = no_dead_letter K X (eng_kv e) s"
    by (simp_all add: reclaim_policy_of_def no_dead_letter_def *)
qed

lemma touches_deliverable:
  assumes "touches_only K sub q e e'" and "p \<noteq> q"
  shows "deliverable_now K X e' sub now p = deliverable_now K X e sub now p"
proof -
  have "lease_abs (eng_leases e') (sub, p) = lease_abs (eng_leases e) (sub, p)"
    "persisted_delivery_record K X (eng_kv e') sub p = persisted_delivery_record K X (eng_kv e) sub p"
    using assms by (simp_all add: touches_only_def persisted_delivery_record_def kv_get_view)
  then show ?thesis unfolding deliverable_now_def touches_policy(2) [OF assms(1)] by (simp only:)
qed

lemma no_dead_letter_keeps: "no_dead_letter K X s sub \<Longrightarrow> try_dead_letter K X e m (reclaim_policy_of K X s sub) a now = (Inr False, e)"
  by (auto simp: no_dead_letter_def try_dead_letter_def reclaim_policy_of_def should_dead_letter_def split: option.split)

lemma reclaim_plain:
  assumes "no_dead_letter K X (eng_kv e) sub"
  shows "\<not> deliverable_now K X e sub now q \<Longrightarrow> reclaim K X e sub q m now = (Inr HoldBack, e)"
    and "deliverable_now K X e sub now q \<Longrightarrow> \<exists>a T. reclaim K X e sub q m now = (Inr (Deliverable a), e\<lparr>eng_leases := T\<rparr>) \<and>
      (\<forall>j. j \<noteq> (sub, q) \<longrightarrow> lease_abs T j = lease_abs (eng_leases e) j)"
proof -
  have self: "e = e\<lparr>eng_leases := eng_leases e\<rparr>" by simp
  show "\<not> deliverable_now K X e sub now q \<Longrightarrow> reclaim K X e sub q m now = (Inr HoldBack, e)"
    using no_dead_letter_keeps [OF assms]
    by (auto simp: deliverable_now_def reclaim_def lease_get_def Let_def split: option.splits simp del: map_of_eq_Some_iff)
  assume d: "deliverable_now K X e sub now q"
  show "\<exists>a T. reclaim K X e sub q m now = (Inr (Deliverable a), e\<lparr>eng_leases := T\<rparr>) \<and>
      (\<forall>j. j \<noteq> (sub, q) \<longrightarrow> lease_abs T j = lease_abs (eng_leases e) j)"
  proof (cases "lease_abs (eng_leases e) (sub, q)")
    case (Some l)
    with d show ?thesis
      by (intro exI [of _ "l_attempts l"] exI [of _ "snd (lease_remove (eng_leases e) sub q)"])
        (simp add: deliverable_now_def reclaim_def lease_get_def Let_def no_dead_letter_keeps [OF assms] remove_abs
          del: map_of_eq_Some_iff)
  next
    case None
    then have "\<exists>a. reclaim K X e sub q m now = (Inr (Deliverable a), e)"
      using d by (auto simp: deliverable_now_def reclaim_def lease_get_def Let_def no_dead_letter_keeps [OF assms]
          split: option.splits simp del: map_of_eq_Some_iff)
    then show ?thesis using self by metis
  qed
qed

context store_env_reliable
begin

lemma grant_total:
  assumes "wf (eng_kv e)"
  shows "\<exists>d e'. grant K X e sub q m a now secs = (Inr d, e') \<and> d_seq d = q \<and> wf (eng_kv e') \<and> touches_only K sub q e e'"
proof -
  let ?at = "word_sat_add a 1" and ?dl = "i64_sat_add now (max secs 0 * 1000)"
  let ?row = "delivery_encode X \<lparr>dr_deadline_ms = ?dl, dr_attempts = ?at, dr_generation = ucast ?at\<rparr>"
  obtain s where s: "kv_put K (eng_kv e) ''dlv'' (delivery_key sub q) ?row = (Inr (), s)"
    using put_total [OF assms] by fastforce
  obtain i T where T: "lease_insert X (eng_leases e) sub q ?dl ?at (ucast ?at) = (i, T)" by fastforce
  have "lease_abs T j = lease_abs (eng_leases e) j" if "j \<noteq> (sub, q)" for j
    using insert_abs [of X "eng_leases e" sub q ?dl ?at "ucast ?at"] that by (simp add: T)
  moreover have "wf s" "V s = (V (eng_kv e))((''dlv'', delivery_key sub q) \<mapsto> ?row)"
    using put_ok [OF assms _ s] by simp_all
  ultimately show ?thesis
    by (simp add: grant_def T Let_def on_kv_def s touches_only_def)
qed

text \<open>One entry of the scan: nothing else is touched, and a pending message that may be delivered is.\<close>

lemma lease_step_live:
  assumes "wf (eng_kv e)" and "no_dead_letter K X (eng_kv e) sub" and "cursor_ok c" and key: "parse_msg_key k = Some (t, q)"
  shows "\<exists>c1 ch1 new e1. lease_step K X sub now secs flt (k, b) (c, ch, out) e = (Inr (c1, ch1, out @ new), e1) \<and>
    wf (eng_kv e1) \<and> touches_only K sub q e e1 \<and> cursor_ok c1 \<and> done_seqs c1 \<subseteq> insert q (done_seqs c) \<and>
    (\<forall>d \<in> set new. d_seq d = q) \<and> (pending X flt c q b \<and> deliverable_now K X e sub now q \<longrightarrow> new \<noteq> [])"
    (is "\<exists>c1 ch1 new e1. ?step c1 ch1 new e1 \<and> ?ok c1 new e1")
proof -
  have keep: ?thesis if "?step c ch [] e" "\<not> (pending X flt c q b \<and> deliverable_now K X e sub now q)"
    using that assms(1,3) by (intro exI [of _ c] exI [of _ ch] exI [of _ "[]"] exI [of _ e]) auto
  show ?thesis
  proof (cases "q \<in> done_seqs c")
    case True
    then show ?thesis by (intro keep) (auto simp: lease_step_def key done_seqs_def pending_def)
  next
    case fresh: False
    then have not_done: "\<not> (q \<le> cr_acked_floor c \<or> q \<in> set (cr_acked_above_floor c))"
      by (simp add: done_seqs_def)
    show ?thesis
    proof (cases "message_decode X b")
      case None
      then show ?thesis using not_done by (intro keep) (simp_all add: lease_step_def key pending_def)
    next
      case m: (Some m)
      show ?thesis
      proof (cases "filter_passes flt m")
        case False
        then have "?step (mark_done c q) True [] e"
          using not_done m by (auto simp: lease_step_def key filter_passes_def split: option.splits)
        moreover have "\<not> pending X flt c q b" using False m by (simp add: pending_def)
        ultimately show ?thesis
          using assms(1) mark_done_spec(1,2) [OF assms(3), of q]
          by (intro exI [of _ "mark_done c q"] exI [of _ True] exI [of _ "[]"] exI [of _ e]) simp
      next
        case True
        then have step: "lease_step K X sub now secs flt (k, b) (c, ch, out) e =
            bind_st (reclaim K X e sub q m now) (\<lambda>outcome e.
              case outcome of
                HoldBack \<Rightarrow> (Inr (c, ch, out), e)
              | DeadLettered \<Rightarrow> (Inr (mark_done c q, True, out), e)
              | Deliverable a \<Rightarrow>
                  bind_st (grant K X e sub q m a now secs) (\<lambda>d e. (Inr (c, ch, out @ [d]), e)))"
          using not_done m by (auto simp: lease_step_def key filter_passes_def split: option.splits)
        show ?thesis
        proof (cases "deliverable_now K X e sub now q")
          case False
          then show ?thesis by (intro keep) (simp_all add: step reclaim_plain(1) [OF assms(2)])
        next
          case True
          then obtain a T where r: "reclaim K X e sub q m now = (Inr (Deliverable a), e\<lparr>eng_leases := T\<rparr>)"
            and T: "\<forall>j. j \<noteq> (sub, q) \<longrightarrow> lease_abs T j = lease_abs (eng_leases e) j"
            using reclaim_plain(2) [OF assms(2)] by blast
          obtain d e1 where g: "grant K X (e\<lparr>eng_leases := T\<rparr>) sub q m a now secs = (Inr d, e1)" "d_seq d = q"
            "wf (eng_kv e1)" "touches_only K sub q (e\<lparr>eng_leases := T\<rparr>) e1"
            using grant_total [of "e\<lparr>eng_leases := T\<rparr>"] assms(1) by fastforce
          then have "touches_only K sub q e e1" using T by (simp add: touches_only_def)
          with g assms(3) show ?thesis
            by (intro exI [of _ c] exI [of _ ch] exI [of _ "[d]"] exI [of _ e1]) (auto simp: step r)
        qed
      qed
    qed
  qed
qed

lemma lease_scan_live:
  assumes "wf (eng_kv e)" and "no_dead_letter K X (eng_kv e) sub" and "cursor_ok c"
    and "sorted_wrt (<) (map fst entries)" and "\<forall>(k, b) \<in> set entries. prefix (msg_key_prefix t) k"
  shows "\<exists>c' ch' new e'. lease_scan K X sub now secs flt mx entries (c, ch, out) e = (Inr (c', ch', out @ new), e') \<and>
    wf (eng_kv e') \<and>
    (\<forall>q b. (msg_key t q, b) \<in> set entries \<and> pending X flt c q b \<and> deliverable_now K X e sub now q \<longrightarrow>
       q \<in> d_seq ` set new \<or> mx \<le> length (out @ new) \<and> (\<forall>d \<in> set new. d_seq d < q))"
  using assms
proof (induction entries arbitrary: c ch out e)
  case Nil
  then show ?case by (intro exI [of _ c] exI [of _ ch] exI [of _ "[]"] exI [of _ e]) simp
next
  case (Cons x entries)
  obtain k b where x: "x = (k, b)" by (cases x)
  have srt: "sorted_wrt (<) (map fst entries)" "\<forall>(k, b) \<in> set entries. prefix (msg_key_prefix t) k"
    using Cons.prems(4,5) by (auto simp: x)
  show ?case
  proof (cases "mx \<le> length out")
    case True
    then show ?thesis using Cons.prems(1) by (intro exI [of _ c] exI [of _ ch] exI [of _ "[]"] exI [of _ e]) simp
  next
    case room: False
    show ?thesis
    proof (cases "parse_msg_key k")
      case None
      then have "lease_scan K X sub now secs flt mx (x # entries) (c, ch, out) e =
          lease_scan K X sub now secs flt mx entries (c, ch, out) e"
        using room by (simp add: x lease_step_def)
      moreover have "(msg_key t q, b') \<noteq> x" for q b' using None by (auto simp: x parse_msg_key_iff)
      ultimately show ?thesis using Cons.IH [OF Cons.prems(1-3) srt, of ch out] by auto
    next
      case (Some tq)
      moreover have "prefix (msg_key_prefix t) k" using Cons.prems(5) by (simp add: x)
      ultimately obtain q0 where key: "parse_msg_key k = Some (t, q0)"
        by (cases tq) (auto simp: parse_msg_key_iff)
      then have k: "k = msg_key t q0" by (simp add: parse_msg_key_iff)
      have later: "q0 < q" if "(msg_key t q, b') \<in> set entries" for q b'
        using later_seqs [of k b entries t q0] Cons.prems(4) key srt(2) that by (auto simp: x entry_seqs_mem)
      obtain c1 ch1 new1 e1 where step:
          "lease_step K X sub now secs flt (k, b) (c, ch, out) e = (Inr (c1, ch1, out @ new1), e1)" "wf (eng_kv e1)"
          "touches_only K sub q0 e e1" "cursor_ok c1" "done_seqs c1 \<subseteq> insert q0 (done_seqs c)"
          "\<forall>d \<in> set new1. d_seq d = q0" "pending X flt c q0 b \<and> deliverable_now K X e sub now q0 \<longrightarrow> new1 \<noteq> []"
        using lease_step_live [OF Cons.prems(1-3) key, of now secs flt b ch out] by blast
      have "no_dead_letter K X (eng_kv e1) sub" using touches_policy(3) [OF step(3)] Cons.prems(2) by simp
      from Cons.IH [OF step(2) this step(4) srt, of ch1 "out @ new1"]
      obtain c' ch' new2 e' where rest:
          "lease_scan K X sub now secs flt mx entries (c1, ch1, out @ new1) e1 = (Inr (c', ch', out @ new1 @ new2), e')"
          "wf (eng_kv e')"
          "\<forall>q b. (msg_key t q, b) \<in> set entries \<and> pending X flt c1 q b \<and> deliverable_now K X e1 sub now q \<longrightarrow>
             q \<in> d_seq ` set new2 \<or> mx \<le> length (out @ new1 @ new2) \<and> (\<forall>d \<in> set new2. d_seq d < q)"
        by auto
      have "lease_scan K X sub now secs flt mx (x # entries) (c, ch, out) e = (Inr (c', ch', out @ new1 @ new2), e')"
        using room step(1) rest(1) by (simp add: x)
      moreover have "q \<in> d_seq ` set (new1 @ new2) \<or> mx \<le> length (out @ new1 @ new2) \<and> (\<forall>d \<in> set (new1 @ new2). d_seq d < q)"
        if "(msg_key t q, b') \<in> set (x # entries)" "pending X flt c q b'" "deliverable_now K X e sub now q" for q b'
      proof (cases "(msg_key t q, b') = x")
        case True
        then have "q = q0" "b' = b" by (simp_all add: x k)
        with step(6,7) that(2,3) show ?thesis by (cases new1) auto
      next
        case False
        with that(1) have mem: "(msg_key t q, b') \<in> set entries" by simp
        from later [OF this] have "q \<noteq> q0" "q0 < q" by auto
        moreover have "pending X flt c1 q b'" using that(2) step(5) \<open>q \<noteq> q0\<close> by (auto simp: pending_def)
        moreover have "deliverable_now K X e1 sub now q"
          using touches_deliverable [OF step(3) \<open>q \<noteq> q0\<close>] that(3) by simp
        ultimately show ?thesis using rest(3) mem step(6) by auto
      qed
      ultimately show ?thesis
        using rest(2) by (intro exI [of _ c'] exI [of _ ch'] exI [of _ "new1 @ new2"] exI [of _ e']) blast
    qed
  qed
qed

lemma deliverable_filters [simp]:
  "deliverable_now K X (e\<lparr>eng_filters := fs\<rparr>) sub now q = deliverable_now K X e sub now q"
  by (simp add: deliverable_now_def cong: option.case_cong)

lemma lease_next_live:
  assumes wf: "wf (eng_kv e)" and plain: "no_dead_letter K X (eng_kv e) sub"
    and c: "load_cursor K X (eng_kv e) sub = Inr c" "cursor_ok c" and mx: "0 < mx"
  shows "\<exists>out e'. lease_next K X e sub t mx now secs = (Inr out, e') \<and>
    (\<forall>q b. V (eng_kv e) (''msg'', msg_key t q) = Some b \<and> pending X (fst (compiled_filter K X e sub)) c q b \<and>
       deliverable_now K X e sub now q \<longrightarrow>
         q \<in> d_seq ` set out \<or> nat mx \<le> length out \<and> (\<forall>d \<in> set out. d_seq d < q))"
proof -
  let ?entries = "kv_scan_prefix K (eng_kv e) ''msg'' (msg_key_prefix t)"
  obtain flt fs where cf: "compiled_filter K X e sub = (flt, e\<lparr>eng_filters := fs\<rparr>)"
    using compiled_filter_state [of e sub] by (cases "compiled_filter K X e sub") auto
  have srt: "sorted_wrt (<) (map fst ?entries)" "\<forall>(k, b) \<in> set ?entries. prefix (msg_key_prefix t) k"
    using wf scan_sorted scan_mem by auto
  obtain c' ch' out e1 where scan:
      "lease_scan K X sub now secs flt (nat mx) ?entries (c, False, []) (e\<lparr>eng_filters := fs\<rparr>) = (Inr (c', ch', out), e1)"
      "wf (eng_kv e1)"
      "\<forall>q b. (msg_key t q, b) \<in> set ?entries \<and> pending X flt c q b \<and> deliverable_now K X e sub now q \<longrightarrow>
         q \<in> d_seq ` set out \<or> nat mx \<le> length out \<and> (\<forall>d \<in> set out. d_seq d < q)"
    using lease_scan_live [of "e\<lparr>eng_filters := fs\<rparr>" sub c ?entries t now secs flt "nat mx" False "[]"] wf plain c(2) srt
    by auto
  obtain s where "kv_put K (eng_kv e1) ''sub'' (cursor_key sub) (cursor_encode X c') = (Inr (), s)"
    using put_total [OF scan(2)] by fastforce
  then have "\<exists>e'. lease_next K X e sub t mx now secs = (Inr out, e')"
    using mx c(1) cf scan(1) by (simp add: lease_next_def Let_def save_cursor_def on_kv_def)
  moreover have "(msg_key t q, b) \<in> set ?entries" if "V (eng_kv e) (''msg'', msg_key t q) = Some b" for q b
    using that wf scan_mem by simp
  ultimately show ?thesis using scan(3) unfolding cf fst_conv by blast
qed

end

end
