(* ===== verification/Engine_Acks.thy ===== *)
theory Engine_Acks
  imports Lease_Next
begin

text \<open>
  Acknowledging and the deadline changes: what \<open>acknowledge\<close> and \<open>modify_ack_deadline\<close> do to
  the lease table, the cursor and the delivery rows, for any mix of live, stale, unknown and
  malformed acknowledgement ids.
\<close>

text \<open>The leases that a list of acknowledgement ids names at their current generation.\<close>

definition ack_hits :: "ext \<Rightarrow> lease_table \<Rightarrow> string list \<Rightarrow> (u64 \<times> u64) set" where
  "ack_hits X T ids =
     {(s, q). \<exists>i \<in> set ids. \<exists>l. lease_abs T (s, q) = Some l \<and>
        decode_ack_id X i = Some (s, q, l_generation l)}"

lemma ack_hits_Nil [simp]: "ack_hits X T [] = {}"
  by (simp add: ack_hits_def)

lemma ack_hits_Cons:
  "ack_hits X T (i # ids) = ack_hits X T [i] \<union> ack_hits X T ids"
  by (auto simp: ack_hits_def)

lemma ack_hits_removed:
  "ack_hits X (snd (lease_remove T s q)) ids = ack_hits X T ids - {(s, q)}"
  by (auto simp: ack_hits_def remove_abs simp del: map_of_eq_Some_iff)

definition without_rows :: "u64 \<Rightarrow> u64 set \<Rightarrow> view \<Rightarrow> view" where
  "without_rows sub Q V = (\<lambda>p. if p \<in> (\<lambda>q. (''dlv'', delivery_key sub q)) ` Q then None else V p)"

lemma without_rows_empty [simp]: "without_rows sub {} V = V"
  by (simp add: without_rows_def)

lemma without_rows_insert:
  "without_rows sub Q (V((''dlv'', delivery_key sub q) := None)) = without_rows sub (insert q Q) V"
  by (auto simp: without_rows_def fun_eq_iff)

lemma without_rows_other [simp]:
  "ks \<noteq> ''dlv'' \<Longrightarrow> without_rows sub Q V (ks, k) = V (ks, k)"
  by (auto simp: without_rows_def)

lemma without_rows_dlv [simp]:
  "without_rows sub Q V (''dlv'', delivery_key s q) =
     (if s = sub \<and> q \<in> Q then None else V (''dlv'', delivery_key s q))"
  by (auto simp: without_rows_def)

context store_env
begin

lemma ack_loop_spec:
  assumes "eng_wf e" and "cursor_ok c" and "ack_loop K X sub ids (c, ch) e = (Inr (c', ch'), e')"
  shows "eng_wf e' \<and> cursor_ok c' \<and> (ch' \<longleftrightarrow> ch \<or> ack_hits X (eng_leases e) ids \<noteq> {}) \<and>
    done_seqs c' = done_seqs c \<union> snd ` ack_hits X (eng_leases e) ids \<and>
    (ack_hits X (eng_leases e) ids = {} \<longrightarrow> c' = c) \<and>
    lease_abs (eng_leases e') =
      (\<lambda>k. if k \<in> ack_hits X (eng_leases e) ids then None else lease_abs (eng_leases e) k) \<and>
    V (eng_kv e') = without_rows sub (snd ` ack_hits X (eng_leases e) ids) (V (eng_kv e)) \<and>
    eng_waiters e' = eng_waiters e \<and> eng_streams e' = eng_streams e \<and> eng_filters e' = eng_filters e"
  using assms
proof (induction ids arbitrary: c ch e)
  case (Cons i ids)
  let ?T = "eng_leases e"
  show ?case
  proof (cases rule: ack_cases [of X i ?T 0 0])
    case (applied s q l)
    let ?T1 = "snd (lease_remove ?T s q)"
    have hit: "ack_hits X ?T [i] = {(s, q)}"
      using applied(1,2) by (auto simp: ack_hits_def)
    have lq: "l_seq l = q"
      using Cons.prems(1) applied(2) by (auto simp: lease_table_wf_def simp del: map_of_eq_Some_iff)
    obtain s1 where del: "kv_delete K (eng_kv e) ''dlv'' (delivery_key sub q) = (Inr (), s1)"
      and rest: "ack_loop K X sub ids (mark_done c q, True) (e\<lparr>eng_leases := ?T1, eng_kv := s1\<rparr>) = (Inr (c', ch'), e')"
      using Cons.prems(3) applied(3) lq by (auto simp: bind_st_Inr_iff on_kv_Inr)
    have s1: "wf s1" "V s1 = (V (eng_kv e))((''dlv'', delivery_key sub q) := None)"
      using delete_ok' [OF del] Cons.prems(1) by simp_all
    let ?H = "ack_hits X ?T ids"
    have H: "ack_hits X ?T1 ids = ?H - {(s, q)}" by (rule ack_hits_removed)
    have IH: "eng_wf e' \<and> cursor_ok c' \<and> ch' \<and>
        done_seqs c' = done_seqs (mark_done c q) \<union> snd ` (?H - {(s, q)}) \<and>
        lease_abs (eng_leases e') = (\<lambda>k. if k \<in> ?H - {(s, q)} then None else lease_abs ?T1 k) \<and>
        V (eng_kv e') = without_rows sub (snd ` (?H - {(s, q)})) (V s1) \<and>
        eng_waiters e' = eng_waiters e \<and> eng_streams e' = eng_streams e \<and> eng_filters e' = eng_filters e"
      using Cons.IH [OF _ mark_done_spec(1) [OF Cons.prems(2)] rest] Cons.prems(1) s1(1) H
      by (simp add: remove_wf cong: if_cong)
    have img: "insert q (snd ` (?H - {(s, q)})) = snd ` insert (s, q) ?H"
      by force
    have all: "ack_hits X ?T (i # ids) = insert (s, q) ?H"
      by (subst ack_hits_Cons) (simp add: hit)
    have "V (eng_kv e') = without_rows sub (snd ` insert (s, q) ?H) (V (eng_kv e))"
      using IH by (simp only: s1(2) without_rows_insert img)
    moreover have "done_seqs c' = done_seqs c \<union> snd ` insert (s, q) ?H"
      using IH img mark_done_spec(2) [OF Cons.prems(2), of q] by auto
    moreover have "lease_abs (eng_leases e') = (\<lambda>k. if k \<in> insert (s, q) ?H then None else lease_abs ?T k)"
      using IH by (auto simp: remove_abs fun_eq_iff)
    ultimately show ?thesis
      using IH unfolding all by simp
  next
    case malformed
    then have "ack_hits X ?T (i # ids) = ack_hits X ?T ids" by (auto simp: ack_hits_def)
    then show ?thesis using Cons.IH [of e c ch] Cons.prems malformed by simp
  next
    case unknown
    then have "ack_hits X ?T (i # ids) = ack_hits X ?T ids" by (auto simp: ack_hits_def)
    then show ?thesis using Cons.IH [of e c ch] Cons.prems unknown by simp
  next
    case stale
    then have "ack_hits X ?T (i # ids) = ack_hits X ?T ids" by (auto simp: ack_hits_def)
    then show ?thesis using Cons.IH [of e c ch] Cons.prems stale by simp
  qed
qed simp

lemma acknowledge_spec:
  assumes wf: "eng_wf e" and c: "load_cursor K X (eng_kv e) sub = Inr c" "cursor_ok c"
    and run: "acknowledge K X e sub ids = (Inr (), e')"
  defines "H \<equiv> ack_hits X (eng_leases e) ids"
  shows "eng_wf e' \<and>
    (\<exists>c'. load_cursor K X (eng_kv e') sub = Inr c' \<and> cursor_ok c' \<and> done_seqs c' = done_seqs c \<union> snd ` H) \<and>
    lease_abs (eng_leases e') = (\<lambda>k. if k \<in> H then None else lease_abs (eng_leases e) k) \<and>
    (\<forall>p. p \<noteq> (''sub'', cursor_key sub) \<longrightarrow> V (eng_kv e') p = without_rows sub (snd ` H) (V (eng_kv e)) p) \<and>
    eng_waiters e' = eng_waiters e \<and> eng_streams e' = eng_streams e \<and> eng_filters e' = eng_filters e"
proof (cases "ids = []")
  case True
  then have "e' = e" "H = {}" using run by (simp_all add: acknowledge_def H_def)
  with wf c show ?thesis by simp
next
  case False
  then obtain c' ch' e1 where loop: "ack_loop K X sub ids (c, False) e = (Inr (c', ch'), e1)"
    and rest: "(if ch' then on_kv e1 (\<lambda>s. save_cursor K X s sub c') else (Inr (), e1)) = (Inr (), e')"
    using run c(1) by (auto simp: acknowledge_def bind_st_Inr_iff)
  note spec = ack_loop_spec [OF wf c(2) loop, folded H_def]
  show ?thesis
  proof (cases ch')
    case True
    have e1: "eng_wf e1" using spec by blast
    note sc = save_cursor_ok [OF e1, of sub c' "()" e']
    show ?thesis
      using sc rest True spec e1 by auto
  next
    case False
    with spec rest have e': "e' = e1" "H = {}" "c' = c" by auto
    have "load_cursor K X (eng_kv e1) sub = load_cursor K X (eng_kv e) sub"
      using spec e' by (intro load_cursor_view) simp
    with spec e' c show ?thesis by auto
  qed
qed

end

end
