(* ===== verification/Engine_Recovery.thy ===== *)
theory Engine_Recovery
  imports Engine_Acks
begin

text \<open>
  The deadline changes, the restart and the rewinding of a subscription: what
  \<open>modify_ack_deadline\<close>, \<open>recover\<close> and \<open>restore_cursor\<close> of the delivery engine do to the lease
  table and to the delivery rows.
\<close>

section \<open>Moving deadlines\<close>

text \<open>The delivery row that mirrors a lease.\<close>

definition row_of_lease :: "lease \<Rightarrow> delivery_record" where
  "row_of_lease l =
     \<lparr>dr_deadline_ms = l_deadline_ms l, dr_attempts = l_attempts l, dr_generation = l_generation l\<rparr>"

definition lease_of_row :: "u64 \<Rightarrow> u64 \<Rightarrow> delivery_record \<Rightarrow> lease" where
  "lease_of_row s q r =
     \<lparr>l_sub_id = s, l_seq = q, l_deadline_ms = dr_deadline_ms r, l_attempts = dr_attempts r,
      l_generation = dr_generation r\<rparr>"

definition new_deadline :: "int \<Rightarrow> int \<Rightarrow> int" where
  "new_deadline now secs = (if secs \<le> 0 then now else wrap_i64 (now + secs * 1000))"

definition moved :: "(u64 \<times> u64) set \<Rightarrow> int \<Rightarrow> lease_table \<Rightarrow> u64 \<times> u64 \<Rightarrow> lease option" where
  "moved H d T k =
     (if k \<in> H then map_option (\<lambda>l. l\<lparr>l_deadline_ms := d\<rparr>) (lease_abs T k) else lease_abs T k)"

lemma ack_hits_same_generations:
  assumes "\<And>k. map_option l_generation (lease_abs T' k) = map_option l_generation (lease_abs T k)"
  shows "ack_hits X T' ids = ack_hits X T ids"
proof -
  have "(\<exists>l. lease_abs T' k = Some l \<and> P (l_generation l)) \<longleftrightarrow>
      (\<exists>l. lease_abs T k = Some l \<and> P (l_generation l))" for k P
    using assms [of k] by (cases "lease_abs T' k"; cases "lease_abs T k") auto
  from this [of "(s, q)" "\<lambda>g. decode_ack_id X i = Some (s, q, g)" for s q i]
  show ?thesis by (simp add: ack_hits_def)
qed

lemma moved_insert:
  "lease_abs T' = (lease_abs T)(k \<mapsto> l\<lparr>l_deadline_ms := d\<rparr>) \<Longrightarrow> lease_abs T k = Some l \<Longrightarrow>
     moved H d T' = moved (insert k H) d T"
  by (auto simp: moved_def fun_eq_iff)

text \<open>The delivery rows of the moved leases are rewritten, and nothing else.\<close>

definition rows_moved ::
    "ext \<Rightarrow> u64 \<Rightarrow> (u64 \<times> u64) set \<Rightarrow> int \<Rightarrow> lease_table \<Rightarrow> view \<Rightarrow> view \<Rightarrow> bool" where
  "rows_moved X sub H d T V V' \<longleftrightarrow>
     (\<forall>q l. (sub, q) \<in> H \<longrightarrow> lease_abs T (sub, q) = Some l \<longrightarrow>
        V' (''dlv'', delivery_key sub q) = Some (delivery_encode X (row_of_lease (l\<lparr>l_deadline_ms := d\<rparr>)))) \<and>
     (\<forall>p. (\<forall>q. (sub, q) \<in> H \<longrightarrow> p \<noteq> (''dlv'', delivery_key sub q)) \<longrightarrow> V' p = V p)"

lemma rows_moved_empty [simp]: "rows_moved X sub {} d T V V"
  by (simp add: rows_moved_def)

lemma rows_moved_insert:
  assumes T': "lease_abs T' = (lease_abs T)((sub, q) \<mapsto> l\<lparr>l_deadline_ms := d\<rparr>)"
    and l: "lease_abs T (sub, q) = Some l"
    and V1: "V1 = V((''dlv'', delivery_key sub q) \<mapsto> delivery_encode X (row_of_lease (l\<lparr>l_deadline_ms := d\<rparr>)))"
    and rest: "rows_moved X sub H d T' V1 V'"
  shows "rows_moved X sub (insert (sub, q) H) d T V V'"
proof -
  have at_q: "V' (''dlv'', delivery_key sub q) = Some (delivery_encode X (row_of_lease (l\<lparr>l_deadline_ms := d\<rparr>)))"
  proof (cases "(sub, q) \<in> H")
    case True
    then show ?thesis using rest by (simp add: rows_moved_def T')
  next
    case False
    then have "\<forall>q'. (sub, q') \<in> H \<longrightarrow> (''dlv'', delivery_key sub q) \<noteq> (''dlv'', delivery_key sub q')"
      by auto
    then have "V' (''dlv'', delivery_key sub q) = V1 (''dlv'', delivery_key sub q)"
      using rest unfolding rows_moved_def by blast
    then show ?thesis by (simp add: V1)
  qed
  then show ?thesis
    using rest l by (auto simp: rows_moved_def T' V1 split: if_splits)
qed

context store_env
begin

lemma modify_loop_spec:
  assumes "eng_wf e" and "fst ` ack_hits X (eng_leases e) ids \<subseteq> {sub}"
    and "modify_loop K X sub now secs ids e = (Inr u, e')"
  shows "eng_wf e' \<and>
    lease_abs (eng_leases e') = moved (ack_hits X (eng_leases e) ids) (new_deadline now secs) (eng_leases e) \<and>
    rows_moved X sub (ack_hits X (eng_leases e) ids) (new_deadline now secs) (eng_leases e)
      (V (eng_kv e)) (V (eng_kv e')) \<and>
    eng_waiters e' = eng_waiters e \<and> eng_streams e' = eng_streams e \<and> eng_filters e' = eng_filters e"
  using assms
proof (induction ids arbitrary: e)
  case Nil
  then show ?case by (simp add: moved_def fun_eq_iff)
next
  case (Cons i ids)
  let ?T = "eng_leases e" and ?d = "new_deadline now secs"
  let ?H = "ack_hits X ?T ids"
  show ?case
  proof (cases rule: ack_cases [of X i ?T now secs])
    case (applied s q l)
    let ?T1 = "lease_set_deadline ?T s q l ?d"
    have hit: "ack_hits X ?T (i # ids) = insert (s, q) ?H"
      using applied(1,2) by (subst ack_hits_Cons) (auto simp: ack_hits_def)
    then have s: "s = sub" and H: "fst ` ?H \<subseteq> {sub}" using Cons.prems(2) by auto
    have lq: "l_seq l = q" and T1: "lease_abs ?T1 = (lease_abs ?T)((s, q) \<mapsto> l\<lparr>l_deadline_ms := ?d\<rparr>)"
      using Cons.prems(1) applied(2) set_deadline_abs
      by (auto simp: lease_table_wf_def simp del: map_of_eq_Some_iff)
    have T1_wf: "lease_table_wf ?T1"
      using Cons.prems(1) extend_wf [of ?T X i now secs] applied(4) by (simp add: new_deadline_def)
    have H1: "ack_hits X ?T1 ids = ?H"
      using applied(2) by (intro ack_hits_same_generations) (simp add: T1)
    obtain s1 where put: "kv_put K (eng_kv e) ''dlv'' (delivery_key sub q)
        (delivery_encode X (row_of_lease (l\<lparr>l_deadline_ms := ?d\<rparr>))) = (Inr (), s1)"
      and rest: "modify_loop K X sub now secs ids (e\<lparr>eng_leases := ?T1, eng_kv := s1\<rparr>) = (Inr u, e')"
      using Cons.prems(3) applied(4) lq
      by (auto simp: bind_st_Inr_iff on_kv_Inr new_deadline_def row_of_lease_def)
    have s1: "wf s1" "V s1 = (V (eng_kv e))((''dlv'', delivery_key sub q) \<mapsto>
        delivery_encode X (row_of_lease (l\<lparr>l_deadline_ms := ?d\<rparr>)))"
      using put_ok' [OF put] Cons.prems(1) by simp_all
    have IH: "eng_wf e' \<and> lease_abs (eng_leases e') = moved ?H ?d ?T1 \<and>
        rows_moved X sub ?H ?d ?T1 (V s1) (V (eng_kv e')) \<and>
        eng_waiters e' = eng_waiters e \<and> eng_streams e' = eng_streams e \<and> eng_filters e' = eng_filters e"
      using Cons.IH [OF _ _ rest] T1_wf s1(1) H H1 by simp
    show ?thesis
      unfolding hit using IH moved_insert [OF T1 applied(2)]
        rows_moved_insert [OF _ _ s1(2), of ?T1 ?T ?H "V (eng_kv e')"] T1 applied(2) s by simp
  next
    case malformed
    then have "ack_hits X ?T (i # ids) = ?H" by (auto simp: ack_hits_def)
    then show ?thesis using Cons.IH [of e] Cons.prems malformed by simp
  next
    case unknown
    then have "ack_hits X ?T (i # ids) = ?H" by (auto simp: ack_hits_def)
    then show ?thesis using Cons.IH [of e] Cons.prems unknown by simp
  next
    case stale
    then have "ack_hits X ?T (i # ids) = ?H" by (auto simp: ack_hits_def)
    then show ?thesis using Cons.IH [of e] Cons.prems stale by simp
  qed
qed

lemma modify_ack_deadline_spec:
  assumes "eng_wf e" and "fst ` ack_hits X (eng_leases e) ids \<subseteq> {sub}"
    and "modify_ack_deadline K X e sub ids now secs = (Inr u, e')"
  shows "eng_wf e' \<and>
    lease_abs (eng_leases e') = moved (ack_hits X (eng_leases e) ids) (new_deadline now secs) (eng_leases e) \<and>
    rows_moved X sub (ack_hits X (eng_leases e) ids) (new_deadline now secs) (eng_leases e)
      (V (eng_kv e)) (V (eng_kv e'))"
  using assms modify_loop_spec [OF assms(1,2)]
  by (cases "ids = []") (auto simp: modify_ack_deadline_def moved_def fun_eq_iff)

end

section \<open>Restarting\<close>

lemma recover_entry_abs:
  "lease_abs (recover_entry X (k, b) T) (s, q) =
     (if k = delivery_key s q then
        (case delivery_decode X b of None \<Rightarrow> lease_abs T (s, q) | Some r \<Rightarrow> Some (lease_of_row s q r))
      else lease_abs T (s, q))"
  by (auto simp: recover_entry_def parse_delivery_key_iff insert_abs lease_of_row_def
      split: option.splits prod.splits)

lemma recover_entry_wf: "lease_table_wf T \<Longrightarrow> lease_table_wf (recover_entry X x T)"
  by (auto simp: recover_entry_def insert_wf split: option.splits prod.splits)

lemma recover_fold:
  assumes "distinct (map fst es)" and "lease_table_wf T"
  shows "lease_table_wf (fold (recover_entry X) es T) \<and>
    lease_abs (fold (recover_entry X) es T) (s, q) =
      (case Option.bind (map_of es (delivery_key s q)) (delivery_decode X) of
         None \<Rightarrow> lease_abs T (s, q) | Some r \<Rightarrow> Some (lease_of_row s q r))"
  using assms
proof (induction es arbitrary: T)
  case (Cons x es)
  obtain k b where x: "x = (k, b)" by (cases x)
  have "map_of es k = None" using Cons.prems(1) by (simp add: x map_of_eq_None_iff)
  then show ?case
    using Cons.IH [of "recover_entry X x T"] Cons.prems
    by (auto simp: x recover_entry_wf recover_entry_abs split: option.splits)
qed simp

context store_env
begin

lemma map_of_scan:
  assumes "wf s" and "ks \<in> keyspaces"
  shows "map_of (kv_scan_prefix K s ks []) k = V s (ks, k)"
proof -
  note d = scan_distinct [OF assms, of "[]"] and m = scan_mem [OF assms, of k _ "[]"]
  show ?thesis
  proof (cases "V s (ks, k)")
    case None
    then show ?thesis using m by (fastforce simp: map_of_eq_None_iff)
  next
    case (Some b)
    then show ?thesis using m d by simp
  qed
qed

lemma recover_spec:
  assumes "wf s"
  shows "eng_wf (recover K X (engine_new s)) \<and> eng_kv (recover K X (engine_new s)) = s \<and>
    lease_abs (eng_leases (recover K X (engine_new s))) (sub, q) =
      map_option (lease_of_row sub q) (persisted_delivery_record K X s sub q)"
proof -
  note f = recover_fold [OF scan_distinct [OF assms, of "''dlv''" "[]"] wf_new]
  have "lease_abs lease_table_new k = None" for k
    by (simp add: lease_table_new_def)
  then show ?thesis
    using f [of X sub q] assms
    by (auto simp: recover_def engine_new_def persisted_delivery_record_def kv_get_view map_of_scan
        split: option.splits)
qed

end

context store_env
begin

text \<open>The leases of a pull are found again after a restart.\<close>

lemma lease_next_restart:
  assumes wf: "eng_wf e" and c: "load_cursor K X (eng_kv e) sub = Inr c" "cursor_ok c"
    and run: "lease_next K X e sub t mx now secs = (Inr out, e')" and d: "d \<in> set out"
  shows "lease_abs (eng_leases (recover K X (engine_new (eng_kv e')))) (sub, d_seq d) =
      lease_abs (eng_leases e') (sub, d_seq d) \<and>
    ack_hits X (eng_leases (recover K X (engine_new (eng_kv e')))) [d_ack_id d] = {(sub, d_seq d)}"
proof -
  note spec = lease_next_spec [OF wf c run]
  have wf': "wf (eng_kv e')" using spec by blast
  have g: "granted K X sub (i64_sat_add now (max secs 0 * 1000)) d e'"
    and ack: "d_ack_id d = encode_ack_id X sub (d_seq d) (ucast (d_delivery_attempt d))"
    using spec d by (auto simp: sound_delivery_def)
  have "lease_abs (eng_leases (recover K X (engine_new (eng_kv e')))) (sub, d_seq d) =
      lease_abs (eng_leases e') (sub, d_seq d)"
    using g recover_spec [OF wf', of sub "d_seq d"]
    by (simp add: granted_def persisted_delivery_record_def kv_get_view lease_of_row_def)
  then show ?thesis using g by (auto simp: ack_hits_def ack granted_def)
qed

end

section \<open>Rewinding\<close>

context store_env
begin

lemma delete_keys_ok:
  assumes "wf s" and "delete_keys K ks s = (Inr u, s')"
  shows "wf s' \<and> V s' = (\<lambda>p. if fst p = ''dlv'' \<and> snd p \<in> set ks then None else V s p)"
  using assms
proof (induction ks arbitrary: s)
  case (Cons k ks)
  obtain s1 where 1: "kv_delete K s ''dlv'' k = (Inr (), s1)" and 2: "delete_keys K ks s1 = (Inr u, s')"
    using Cons.prems(2) by (auto simp: bind_st_Inr_iff)
  have "wf s1" "V s1 = (V s)((''dlv'', k) := None)"
    using delete_ok' [OF 1 Cons.prems(1)] by simp_all
  then show ?case
    using Cons.IH [OF _ 2] by (auto simp: fun_eq_iff)
qed (auto simp: fun_eq_iff)

lemma restore_cursor_spec:
  assumes "eng_wf e" and "restore_cursor K X e sub c = (Inr u, e')"
  shows "eng_wf e' \<and> load_cursor K X (eng_kv e') sub = Inr c \<and>
    (\<forall>s q. lease_abs (eng_leases e') (s, q) = (if s = sub then None else lease_abs (eng_leases e) (s, q))) \<and>
    (\<forall>q. V (eng_kv e') (''dlv'', delivery_key sub q) = None) \<and>
    (\<forall>p. p \<noteq> (''sub'', cursor_key sub) \<longrightarrow> \<not> (fst p = ''dlv'' \<and> prefix (delivery_key_prefix sub) (snd p)) \<longrightarrow>
       V (eng_kv e') p = V (eng_kv e) p) \<and>
    eng_waiters e' = eng_waiters e \<and> eng_streams e' = eng_streams e \<and> eng_filters e' = eng_filters e"
proof -
  obtain qs T where rm: "lease_remove_all_for_subscription (eng_leases e) sub = (qs, T)" by fastforce
  note T = remove_all_spec [OF _ rm]
  let ?pre = "delivery_key_prefix sub"
  obtain s1 s2 s3 where 1: "delete_keys K (map (delivery_key sub) qs) (eng_kv e) = (Inr (), s1)"
    and 2: "delete_keys K (map fst (kv_scan_prefix K s1 ''dlv'' ?pre)) s1 = (Inr (), s2)"
    and 3: "save_cursor K X s2 sub c = (Inr u, s3)" and e': "e' = e\<lparr>eng_leases := T, eng_kv := s3\<rparr>"
    using assms(2) by (auto simp: restore_cursor_def rm on_kv_Inr bind_st_Inr_iff)
  have s1: "wf s1" "V s1 = (\<lambda>p. if fst p = ''dlv'' \<and> snd p \<in> delivery_key sub ` set qs then None else V (eng_kv e) p)"
    using delete_keys_ok [OF _ 1] assms(1) by simp_all
  have scan: "k \<in> fst ` set (kv_scan_prefix K s1 ''dlv'' ?pre) \<longleftrightarrow> V s1 (''dlv'', k) \<noteq> None \<and> prefix ?pre k" for k
    using scan_set [OF s1(1), of "''dlv''" ?pre] by force
  have s2: "wf s2" "V s2 p = (if fst p = ''dlv'' \<and> prefix ?pre (snd p) then None else V s1 p)" for p
    using delete_keys_ok [OF s1(1) 2] scan [of "snd p"] by (cases p; auto)+
  have s3: "wf s3" "V s3 = (V s2)((''sub'', cursor_key sub) \<mapsto> cursor_encode X c)"
    using put_ok' [OF 3 [unfolded save_cursor_def] s2(1)] by simp_all
  have "V s3 p = V (eng_kv e) p"
    if "p \<noteq> (''sub'', cursor_key sub)" "\<not> (fst p = ''dlv'' \<and> prefix ?pre (snd p))" for p
    using that by (auto simp: s3 s2 s1)
  then show ?thesis
    using assms(1) T s3 by (simp add: e' load_cursor_def kv_get_view s2)
qed

end

end
