(* ===== verification/Snapshot.thy ===== *)
theory Snapshot
  imports Topic
begin

text \<open>
  The snapshot store, \<open>crates/open-pubusb-core/src/delivery/snapshot.rs\<close>: snapshot rows with
  their name index, and the expiry time of a new snapshot.
\<close>

section \<open>Rows\<close>

definition snapshot_resolve_id :: "'s kv_ops \<Rightarrow> 's \<Rightarrow> string \<Rightarrow> u64 result" where
  "snapshot_resolve_id K s full_name =
     bind_r (snapshot_name_parse full_name) (\<lambda>_.
     bind_r (ok_or (kv_get K s ''meta'' (name_key KSnapshot full_name)) (NotFound full_name)) (\<lambda>id_bytes.
       ok_or (decode_u64 id_bytes) Internal))"

definition snapshot_load_record :: "'s kv_ops \<Rightarrow> ext \<Rightarrow> 's \<Rightarrow> u64 \<Rightarrow> snapshot_record result" where
  "snapshot_load_record K X s i =
     bind_r (ok_or (kv_get K s ''meta'' (snapshot_key i)) Internal) (\<lambda>b.
       ok_or (snapshot_from_slice X b) Internal)"

definition snapshot_put_record :: "'s kv_ops \<Rightarrow> ext \<Rightarrow> 's \<Rightarrow> snapshot_record \<Rightarrow> ('s, unit) st_result" where
  "snapshot_put_record K X s r =
     with_r (ok_or (snapshot_to_vec X r) Internal) s (\<lambda>b.
       kv_put K s ''meta'' (snapshot_key (sn_id r)) b)"

definition snapshot_read_counter :: "'s kv_ops \<Rightarrow> 's \<Rightarrow> bytes \<Rightarrow> u64" where
  "snapshot_read_counter K s key =
     (case kv_get K s ''meta'' key of
        None \<Rightarrow> 0
      | Some b \<Rightarrow> (case decode_u64 b of None \<Rightarrow> 0 | Some n \<Rightarrow> n))"

definition snapshot_next_id :: "'s kv_ops \<Rightarrow> 's \<Rightarrow> ('s, u64) st_result" where
  "snapshot_next_id K s =
     (let next = word_sat_add (snapshot_read_counter K s id_seq_key) 1
      in bind_st (kv_put K s ''meta'' id_seq_key (to_be_bytes next)) (\<lambda>_ s. (Inr next, s)))"

section \<open>Operations\<close>

definition snapshot_create ::
    "'s kv_ops \<Rightarrow> ext \<Rightarrow> 's \<Rightarrow> string \<Rightarrow> string \<Rightarrow> u64 \<Rightarrow> attributes \<Rightarrow> cursor_record \<Rightarrow> int \<Rightarrow>
     ('s, snapshot_record) st_result" where
  "snapshot_create K X s full_name topic_full_name topic_id labels cursor expire_at_ms =
     with_r (snapshot_name_parse full_name) s (\<lambda>_.
       if kv_get K s ''meta'' (name_key KSnapshot full_name) \<noteq> None
       then (Inl (AlreadyExists full_name), s)
       else bind_st (snapshot_next_id K s) (\<lambda>i s.
         let r = \<lparr>sn_id = i, sn_name = full_name, sn_topic = topic_full_name, sn_topic_id = topic_id,
                  sn_labels = labels, sn_cursor = cursor, sn_expire_at_ms = expire_at_ms\<rparr>
         in bind_st (snapshot_put_record K X s r) (\<lambda>_ s.
            bind_st (kv_put K s ''meta'' (name_key KSnapshot full_name) (to_be_bytes i)) (\<lambda>_ s.
            (Inr r, s)))))"

definition snapshot_get :: "'s kv_ops \<Rightarrow> ext \<Rightarrow> 's \<Rightarrow> string \<Rightarrow> snapshot_record result" where
  "snapshot_get K X s full_name = bind_r (snapshot_resolve_id K s full_name) (snapshot_load_record K X s)"

fun snapshot_load_all :: "'s kv_ops \<Rightarrow> ext \<Rightarrow> 's \<Rightarrow> (bytes \<times> bytes) list \<Rightarrow> snapshot_record list result" where
  "snapshot_load_all K X s [] = Inr []"
| "snapshot_load_all K X s ((_, v) # rows) =
     (case decode_u64 v of
        None \<Rightarrow> snapshot_load_all K X s rows
      | Some i \<Rightarrow>
          bind_r (snapshot_load_record K X s i) (\<lambda>r.
          bind_r (snapshot_load_all K X s rows) (\<lambda>rs. Inr (r # rs))))"

definition snapshot_list ::
    "'s kv_ops \<Rightarrow> ext \<Rightarrow> 's \<Rightarrow> string \<Rightarrow> nat \<Rightarrow> string option \<Rightarrow>
     (snapshot_record list \<times> string option) result" where
  "snapshot_list K X s project_id page_size page_token =
     (let scan_prefix = name_key KSnapshot (''projects/'' @ project_id @ ''/snapshots/'')
      in bind_r (snapshot_load_all K X s (kv_scan_prefix K s ''meta'' scan_prefix)) (\<lambda>records.
         Inr (list_page sn_name (sort_key sn_name records) page_size page_token)))"

definition snapshot_update_labels ::
    "'s kv_ops \<Rightarrow> ext \<Rightarrow> 's \<Rightarrow> string \<Rightarrow> attributes \<Rightarrow> ('s, snapshot_record) st_result" where
  "snapshot_update_labels K X s full_name labels =
     with_r (snapshot_get K X s full_name) s (\<lambda>r.
       let r = r\<lparr>sn_labels := labels\<rparr>
       in bind_st (snapshot_put_record K X s r) (\<lambda>_ s. (Inr r, s)))"

definition snapshot_delete :: "'s kv_ops \<Rightarrow> 's \<Rightarrow> string \<Rightarrow> ('s, unit) st_result" where
  "snapshot_delete K s full_name =
     with_r (snapshot_resolve_id K s full_name) s (\<lambda>i.
       bind_st (kv_delete K s ''meta'' (snapshot_key i)) (\<lambda>_ s.
       bind_st (kv_delete K s ''meta'' (name_key KSnapshot full_name)) (\<lambda>_ s.
       (Inr (), s))))"

text \<open>One page of the sweep: the number of snapshots removed.\<close>

fun snapshot_sweep_page ::
    "'s kv_ops \<Rightarrow> int \<Rightarrow> snapshot_record list \<Rightarrow> nat \<Rightarrow> 's \<Rightarrow> ('s, nat) st_result" where
  "snapshot_sweep_page K now_ms [] removed s = (Inr removed, s)"
| "snapshot_sweep_page K now_ms (r # rs) removed s =
     (if sn_expire_at_ms r \<le> now_ms then
        bind_st (snapshot_delete K s (sn_name r)) (\<lambda>_ s.
          snapshot_sweep_page K now_ms rs (removed + 1) s)
      else snapshot_sweep_page K now_ms rs removed s)"

text \<open>The loop over the pages; \<open>None\<close> when \<open>fuel\<close> pages were not enough.\<close>

fun snapshot_sweep_pages ::
    "nat \<Rightarrow> 's kv_ops \<Rightarrow> ext \<Rightarrow> string \<Rightarrow> int \<Rightarrow> snapshot_record list \<times> string option \<Rightarrow> nat \<Rightarrow> 's \<Rightarrow>
     ('s, nat) st_result option" where
  "snapshot_sweep_pages 0 K X project_id now_ms page removed s = None"
| "snapshot_sweep_pages (Suc fuel) K X project_id now_ms (page, tok) removed s =
     (case snapshot_sweep_page K now_ms page removed s of
        (Inl e, s) \<Rightarrow> Some (Inl e, s)
      | (Inr removed, s) \<Rightarrow>
          (case tok of
             None \<Rightarrow> Some (Inr removed, s)
           | Some next \<Rightarrow>
               (case snapshot_list K X s project_id usize_max (Some next) of
                  Inl e \<Rightarrow> Some (Inl e, s)
                | Inr next_page \<Rightarrow> snapshot_sweep_pages fuel K X project_id now_ms next_page removed s)))"

definition snapshot_sweep_expired ::
    "nat \<Rightarrow> 's kv_ops \<Rightarrow> ext \<Rightarrow> 's \<Rightarrow> string \<Rightarrow> int \<Rightarrow> ('s, nat) st_result option" where
  "snapshot_sweep_expired fuel K X s project_id now_ms =
     (case snapshot_list K X s project_id usize_max None of
        Inl e \<Rightarrow> Some (Inl e, s)
      | Inr page \<Rightarrow> snapshot_sweep_pages fuel K X project_id now_ms page 0 s)"

definition compute_expire_at_ms :: "int \<Rightarrow> int option \<Rightarrow> int result" where
  "compute_expire_at_ms now_ms oldest_unacked_publish_ts_ms =
     (let max_lifetime_ms = i64_sat_mul MAX_SNAPSHOT_LIFETIME_SECS 1000;
          age_ms = (case oldest_unacked_publish_ts_ms of
                      Some ts \<Rightarrow> max (i64_sat_sub now_ms ts) 0
                    | None \<Rightarrow> 0);
          expire_at_ms = i64_sat_sub (i64_sat_add now_ms max_lifetime_ms) age_ms;
          remaining_ms = i64_sat_sub expire_at_ms now_ms
      in if remaining_ms < i64_sat_mul MIN_SNAPSHOT_REMAINING_LIFETIME_SECS 1000
         then Inl FailedPrecondition
         else Inr expire_at_ms)"

section \<open>Facts\<close>

text \<open>A page of unlimited size is the whole listing, so the sweep needs one page.\<close>

lemma list_page_unlimited:
  assumes "length rs \<le> usize_max"
  shows "snd (list_page name_of rs usize_max tok) = None"
  using assms by (auto simp: list_page_def Let_def usize_sat_add_def)

lemma snapshot_sweep_terminates:
  assumes "\<And>page. snapshot_list K X s project_id usize_max None = Inr page \<Longrightarrow> snd page = None"
  shows "\<exists>r. snapshot_sweep_expired (Suc fuel) K X s project_id now = Some r"
  using assms by (auto simp: snapshot_sweep_expired_def split: sum.splits prod.splits)

text \<open>A lifetime between one hour and seven days.\<close>

lemma compute_expire_bounds:
  assumes "0 \<le> now" and "now \<le> 2 ^ 62" and "\<And>ts. oldest = Some ts \<Longrightarrow> 0 \<le> ts \<and> ts \<le> 2 ^ 62"
  shows "compute_expire_at_ms now oldest =
    (let age = (case oldest of None \<Rightarrow> 0 | Some ts \<Rightarrow> max 0 (now - ts)) in
     if 604800000 - age < 3600000 then Inl FailedPrecondition else Inr (now + 604800000 - age))"
proof -
  have sat: "sat_i64 x = x" if "- (2 ^ 63) \<le> x" "x \<le> 2 ^ 63 - 1" for x
    using that by (intro sat_i64_id) (simp add: in_i64_def i64_min_def i64_max_def)
  show ?thesis
    using assms
    by (cases oldest) (auto simp: compute_expire_at_ms_def Let_def i64_sat_add_def i64_sat_sub_def
        i64_sat_mul_def limit_defs sat max_def)
qed

section \<open>Properties\<close>

text \<open>
  A new snapshot lives seven days minus the age of the oldest unacknowledged message, and
  is refused when less than an hour would be left. Times are non-negative and below \<open>2^62\<close>,
  far beyond any clock; within that range no saturation interferes.
\<close>

theorem snapshot_expiry:
  assumes "0 \<le> now" and "now \<le> 2 ^ 62" and "\<forall>ts. oldest = Some ts \<longrightarrow> 0 \<le> ts \<and> ts \<le> 2 ^ 62"
  shows "compute_expire_at_ms now oldest =
    (let age = (case oldest of None \<Rightarrow> 0 | Some ts \<Rightarrow> max 0 (now - ts)) in
     if 604800000 - age < 3600000 then Inl FailedPrecondition else Inr (now + 604800000 - age))"
  using assms by (intro compute_expire_bounds) auto

theorem snapshot_expiry_witness:
  "compute_expire_at_ms 1000000000 (Some 999000000) = Inr 1603800000"
  using snapshot_expiry [of 1000000000 "Some 999000000"] by simp

end
