(* ===== verification/Retention.thy ===== *)
theory Retention
  imports Subscription
begin

text \<open>
  The retention sweep, \<open>crates/open-pubusb-core/src/delivery/retention.rs\<close>: every message past its
  expiry time is deleted from the log, with the delivery rows of the topic's subscriptions.
\<close>

record retention_stats =
  rs_messages_expired :: u64

fun delete_delivery_rows :: "'s kv_ops \<Rightarrow> u64 \<Rightarrow> u64 list \<Rightarrow> 's \<Rightarrow> 's" where
  "delete_delivery_rows K seq [] s = s"
| "delete_delivery_rows K seq (sub_id # sub_ids) s =
     delete_delivery_rows K seq sub_ids (snd (kv_delete K s ''dlv'' (delivery_key sub_id seq)))"

definition retention_step ::
    "'s kv_ops \<Rightarrow> ext \<Rightarrow> int \<Rightarrow> bytes \<times> bytes \<Rightarrow> retention_stats \<times> 's \<Rightarrow> retention_stats \<times> 's" where
  "retention_step K X now_ms entry st =
     (case st of (stats, s) \<Rightarrow>
      case parse_msg_key (fst entry) of
        None \<Rightarrow> (stats, s)
      | Some (topic_id, seq) \<Rightarrow>
          (case message_decode X (snd entry) of
             None \<Rightarrow> (stats, s)
           | Some r \<Rightarrow>
               if mr_expire_at_ms r > now_ms then (stats, s)
               else (case kv_delete K s ''msg'' (fst entry) of
                   (Inl _, s) \<Rightarrow> (stats, s)
                 | (Inr _, s) \<Rightarrow>
                     (stats\<lparr>rs_messages_expired := rs_messages_expired stats + 1\<rparr>,
                      delete_delivery_rows K seq (sub_list_by_topic_id K s topic_id) s))))"

definition sweep_expired_messages :: "'s kv_ops \<Rightarrow> ext \<Rightarrow> 's \<Rightarrow> int \<Rightarrow> retention_stats \<times> 's" where
  "sweep_expired_messages K X s now_ms =
     fold (retention_step K X now_ms) (kv_scan_prefix K s ''msg'' []) (\<lparr>rs_messages_expired = 0\<rparr>, s)"

end
