(* ===== verification/Service.thy ===== *)
theory Service
  imports Engine Snapshot Retention
begin

text \<open>
  The service facade, \<open>crates/open-pubusb-core/src/service.rs\<close>: the one entry point of the
  transport layers, which composes the topic, subscription and snapshot stores with the
  delivery engine over one shared key/value store. The clock the source reads is the
  argument \<open>now_ms\<close> of an operation; metrics and logging are left out.
\<close>

section \<open>State\<close>

record publish_message =
  pm_data :: bytes
  pm_attributes :: attributes
  pm_ordering_key :: string

record pulled_message =
  pl_ack_id :: string
  pl_message_id :: string
  pl_data :: bytes
  pl_attributes :: attributes
  pl_ordering_key :: string
  pl_publish_time_ms :: int
  pl_delivery_attempt :: u32

record 's service =
  svc_engine :: "'s engine"
  svc_max_disk_bytes :: u64

abbreviation svc_kv :: "'s service \<Rightarrow> 's" where
  "svc_kv v \<equiv> eng_kv (svc_engine v)"

definition on_engine ::
    "'s service \<Rightarrow> ('s engine \<Rightarrow> ('s engine, 'a) st_result) \<Rightarrow> ('s service, 'a) st_result" where
  "on_engine v f = (case f (svc_engine v) of (r, e) \<Rightarrow> (r, v\<lparr>svc_engine := e\<rparr>))"

definition on_store :: "'s service \<Rightarrow> ('s \<Rightarrow> ('s, 'a) st_result) \<Rightarrow> ('s service, 'a) st_result" where
  "on_store v f = on_engine v (\<lambda>e. on_kv e f)"

definition service_new :: "'s kv_ops \<Rightarrow> ext \<Rightarrow> 's \<Rightarrow> 's service" where
  "service_new K X kv = \<lparr>svc_engine = recover K X (engine_new kv), svc_max_disk_bytes = 0\<rparr>"

definition with_max_disk_bytes :: "'s service \<Rightarrow> u64 \<Rightarrow> 's service" where
  "with_max_disk_bytes v n = v\<lparr>svc_max_disk_bytes := n\<rparr>"

definition check_disk_guard :: "'s kv_ops \<Rightarrow> 's service \<Rightarrow> unit result" where
  "check_disk_guard K v =
     (if svc_max_disk_bytes v > 0 \<and> kv_approx_disk_bytes K (svc_kv v) \<ge> svc_max_disk_bytes v
      then Inl ResourceExhausted else Inr ())"

section \<open>Topics\<close>

definition svc_create_topic_full ::
    "'s kv_ops \<Rightarrow> ext \<Rightarrow> 's service \<Rightarrow> string \<Rightarrow> attributes \<Rightarrow> int option \<Rightarrow> string option \<Rightarrow> bool \<Rightarrow> bool \<Rightarrow>
     ('s service, topic_record) st_result" where
  "svc_create_topic_full K X v full_name labels message_retention_secs kms_key_name
      has_schema_settings has_ingestion_settings =
     on_store v (\<lambda>s. topic_create K X s full_name labels message_retention_secs kms_key_name
       has_schema_settings has_ingestion_settings)"

definition svc_create_topic ::
    "'s kv_ops \<Rightarrow> ext \<Rightarrow> 's service \<Rightarrow> string \<Rightarrow> attributes \<Rightarrow> ('s service, topic_record) st_result" where
  "svc_create_topic K X v full_name labels =
     on_store v (\<lambda>s. topic_create K X s full_name labels None None False False)"

definition svc_get_topic :: "'s kv_ops \<Rightarrow> ext \<Rightarrow> 's service \<Rightarrow> string \<Rightarrow> topic_record result" where
  "svc_get_topic K X v full_name = topic_get K X (svc_kv v) full_name"

definition svc_list_topics ::
    "'s kv_ops \<Rightarrow> ext \<Rightarrow> 's service \<Rightarrow> string \<Rightarrow> nat \<Rightarrow> string option \<Rightarrow>
     (topic_record list \<times> string option) result" where
  "svc_list_topics K X v project_id page_size page_token =
     topic_list K X (svc_kv v) project_id page_size page_token"

definition svc_update_topic_labels ::
    "'s kv_ops \<Rightarrow> ext \<Rightarrow> 's service \<Rightarrow> string \<Rightarrow> attributes \<Rightarrow> ('s service, topic_record) st_result" where
  "svc_update_topic_labels K X v full_name labels =
     on_store v (\<lambda>s. topic_update K X s full_name (Some labels) None None)"

definition svc_update_topic_full ::
    "'s kv_ops \<Rightarrow> ext \<Rightarrow> 's service \<Rightarrow> string \<Rightarrow> attributes option \<Rightarrow> int option option \<Rightarrow>
     string option option \<Rightarrow> ('s service, topic_record) st_result" where
  "svc_update_topic_full K X v full_name labels message_retention_secs kms_key_name =
     on_store v (\<lambda>s. topic_update K X s full_name labels message_retention_secs kms_key_name)"

fun detach_all :: "'s kv_ops \<Rightarrow> ext \<Rightarrow> u64 list \<Rightarrow> 's \<Rightarrow> ('s, unit) st_result" where
  "detach_all K X [] s = (Inr (), s)"
| "detach_all K X (i # is) s =
     bind_st (set_topic_to_deleted K X s i) (\<lambda>_ s. detach_all K X is s)"

definition svc_delete_topic :: "'s kv_ops \<Rightarrow> ext \<Rightarrow> 's service \<Rightarrow> string \<Rightarrow> ('s service, unit) st_result" where
  "svc_delete_topic K X v full_name =
     on_store v (\<lambda>s.
       with_r (topic_get K X s full_name) s (\<lambda>r.
         bind_st (detach_all K X (sub_list_by_topic_id K s (tr_id r)) s) (\<lambda>_ s.
           topic_delete K s full_name)))"

fun names_of_subs :: "'s kv_ops \<Rightarrow> ext \<Rightarrow> 's \<Rightarrow> u64 list \<Rightarrow> string list result" where
  "names_of_subs K X s [] = Inr []"
| "names_of_subs K X s (i # is) =
     bind_r (sub_get_by_id K X s i) (\<lambda>r.
     bind_r (names_of_subs K X s is) (\<lambda>ns. Inr (sr_name r # ns)))"

definition svc_list_topic_subscriptions ::
    "'s kv_ops \<Rightarrow> ext \<Rightarrow> 's service \<Rightarrow> string \<Rightarrow> string list result" where
  "svc_list_topic_subscriptions K X v topic_full_name =
     bind_r (topic_get K X (svc_kv v) topic_full_name) (\<lambda>r.
     bind_r (names_of_subs K X (svc_kv v) (sub_list_by_topic_id K (svc_kv v) (tr_id r))) (\<lambda>ns.
       Inr (sort ns)))"

section \<open>Publish, pull, acknowledge\<close>

definition effective_retention :: "int \<Rightarrow> int" where
  "effective_retention secs = (if secs > 0 then secs else MAX_TOPIC_RETENTION_SECS)"

definition svc_publish ::
    "'s kv_ops \<Rightarrow> ext \<Rightarrow> 's service \<Rightarrow> int \<Rightarrow> string \<Rightarrow> publish_message list \<Rightarrow>
     ('s service, string list) st_result" where
  "svc_publish K X v now_ms topic_full_name messages =
     with_r (check_disk_guard K v) v (\<lambda>_.
     with_r (topic_get K X (svc_kv v) topic_full_name) v (\<lambda>r.
       let retention_secs = effective_retention (tr_message_retention_secs r);
           raw = map (\<lambda>m. (pm_data m, pm_attributes m, pm_ordering_key m)) messages
       in bind_st (on_store v (\<lambda>s. topic_append K X s (tr_id r) raw now_ms retention_secs)) (\<lambda>seqs v.
          let sub_ids = sub_list_by_topic_id K (svc_kv v) (tr_id r);
              v = (if sub_ids \<noteq> [] then v\<lparr>svc_engine := notify_published (svc_engine v) sub_ids\<rparr> else v)
          in (Inr (map (\<lambda>seq. nat_to_string (unat seq)) seqs), v))))"

definition pulled_of :: "bool \<Rightarrow> delivered \<Rightarrow> pulled_message" where
  "pulled_of expose_attempt d =
     \<lparr>pl_ack_id = d_ack_id d, pl_message_id = nat_to_string (unat (d_seq d)),
      pl_data = mr_payload (d_message d), pl_attributes = mr_attributes (d_message d),
      pl_ordering_key = mr_ordering_key (d_message d),
      pl_publish_time_ms = mr_publish_ts_ms (d_message d),
      pl_delivery_attempt = (if expose_attempt then d_delivery_attempt d else 0)\<rparr>"

definition is_detached :: "subscription_record \<Rightarrow> bool" where
  "is_detached r \<longleftrightarrow> sr_detached r \<or> sr_topic r = DELETED_TOPIC"

definition ignore_result :: "('s, 'a) st_result \<Rightarrow> 's" where
  "ignore_result r = snd r"

definition svc_touch :: "'s kv_ops \<Rightarrow> ext \<Rightarrow> 's service \<Rightarrow> u64 \<Rightarrow> int \<Rightarrow> 's service" where
  "svc_touch K X v sub_id now_ms = ignore_result (on_store v (\<lambda>s. sub_touch K X s sub_id now_ms))"

definition svc_pull ::
    "'s kv_ops \<Rightarrow> ext \<Rightarrow> 's service \<Rightarrow> int \<Rightarrow> string \<Rightarrow> int \<Rightarrow> ('s service, pulled_message list) st_result" where
  "svc_pull K X v now_ms subscription_full_name max_messages =
     with_r (validate_pull_max_messages (max max_messages 1)) v (\<lambda>_.
     with_r (sub_get K X (svc_kv v) subscription_full_name) v (\<lambda>sub.
       if is_detached sub then (Inl FailedPrecondition, v)
       else bind_st (on_engine v (\<lambda>e. lease_next K X e (sr_id sub) (sr_topic_id sub) max_messages now_ms
                                     (sr_ack_deadline_secs sub))) (\<lambda>delivered v.
         let v = svc_touch K X v (sr_id sub) now_ms
         in (Inr (map (pulled_of (sr_dead_letter_topic sub \<noteq> None)) delivered), v))))"

definition svc_pull_waiter :: "'s kv_ops \<Rightarrow> ext \<Rightarrow> 's service \<Rightarrow> string \<Rightarrow> ('s service, u64) st_result" where
  "svc_pull_waiter K X v subscription_full_name =
     with_r (sub_get K X (svc_kv v) subscription_full_name) v (\<lambda>sub.
       (Inr (sr_id sub), v\<lparr>svc_engine := waiter (svc_engine v) (sr_id sub)\<rparr>))"

definition svc_acknowledge ::
    "'s kv_ops \<Rightarrow> ext \<Rightarrow> 's service \<Rightarrow> int \<Rightarrow> string \<Rightarrow> string list \<Rightarrow> ('s service, unit) st_result" where
  "svc_acknowledge K X v now_ms subscription_full_name ack_ids =
     with_r (sub_get K X (svc_kv v) subscription_full_name) v (\<lambda>sub.
       bind_st (on_engine v (\<lambda>e. acknowledge K X e (sr_id sub) ack_ids)) (\<lambda>_ v.
         (Inr (), svc_touch K X v (sr_id sub) now_ms)))"

definition svc_modify_ack_deadline ::
    "'s kv_ops \<Rightarrow> ext \<Rightarrow> 's service \<Rightarrow> int \<Rightarrow> string \<Rightarrow> string list \<Rightarrow> int \<Rightarrow> ('s service, unit) st_result" where
  "svc_modify_ack_deadline K X v now_ms subscription_full_name ack_ids seconds =
     with_r (sub_get K X (svc_kv v) subscription_full_name) v (\<lambda>sub.
       bind_st (on_engine v (\<lambda>e. modify_ack_deadline K X e (sr_id sub) ack_ids now_ms seconds)) (\<lambda>_ v.
         (Inr (), svc_touch K X v (sr_id sub) now_ms)))"

definition svc_sweep_subscription :: "ext \<Rightarrow> 's service \<Rightarrow> int \<Rightarrow> u64 \<Rightarrow> int \<Rightarrow> nat \<times> 's service" where
  "svc_sweep_subscription X v now_ms sub_id grace_ms =
     (case sweep_expired X (svc_engine v) sub_id now_ms grace_ms of
        (n, e) \<Rightarrow> (n, v\<lparr>svc_engine := e\<rparr>))"

definition svc_sweep_retention ::
    "'s kv_ops \<Rightarrow> ext \<Rightarrow> 's service \<Rightarrow> int \<Rightarrow> retention_stats \<times> 's service" where
  "svc_sweep_retention K X v now_ms =
     (case sweep_expired_messages K X (svc_kv v) now_ms of
        (stats, s) \<Rightarrow>
          (stats, v\<lparr>svc_engine := (svc_engine v)\<lparr>eng_kv := ignore_result (sub_sweep_expired K X s now_ms)\<rparr>\<rparr>))"

section \<open>Subscriptions\<close>

definition svc_create_subscription ::
    "'s kv_ops \<Rightarrow> ext \<Rightarrow> 's service \<Rightarrow> int \<Rightarrow> string \<Rightarrow> string \<Rightarrow> create_subscription_options \<Rightarrow>
     ('s service, subscription_record) st_result" where
  "svc_create_subscription K X v now_ms full_name topic_full_name opts =
     on_store v (\<lambda>s.
       with_r (topic_get K X s topic_full_name) s (\<lambda>topic.
         let attach_seq = current_tail K s (tr_id topic)
         in sub_create K X s full_name topic_full_name (tr_id topic) attach_seq now_ms opts))"

definition svc_get_subscription :: "'s kv_ops \<Rightarrow> ext \<Rightarrow> 's service \<Rightarrow> string \<Rightarrow> subscription_record result" where
  "svc_get_subscription K X v full_name = sub_get K X (svc_kv v) full_name"

definition svc_list_subscriptions ::
    "'s kv_ops \<Rightarrow> ext \<Rightarrow> 's service \<Rightarrow> string \<Rightarrow> nat \<Rightarrow> string option \<Rightarrow>
     (subscription_record list \<times> string option) result" where
  "svc_list_subscriptions K X v project_id page_size page_token =
     sub_list K X (svc_kv v) project_id page_size page_token"

definition svc_list_all_subscriptions :: "'s kv_ops \<Rightarrow> ext \<Rightarrow> 's service \<Rightarrow> subscription_record list" where
  "svc_list_all_subscriptions K X v = sub_list_all K X (svc_kv v)"

definition svc_list_all_topics :: "'s kv_ops \<Rightarrow> ext \<Rightarrow> 's service \<Rightarrow> topic_record list" where
  "svc_list_all_topics K X v = topic_list_all K X (svc_kv v)"

definition svc_update_subscription ::
    "'s kv_ops \<Rightarrow> ext \<Rightarrow> 's service \<Rightarrow> string \<Rightarrow> subscription_update_patch \<Rightarrow>
     ('s service, subscription_record) st_result" where
  "svc_update_subscription K X v full_name p = on_store v (\<lambda>s. sub_update K X s full_name p)"

definition svc_delete_subscription :: "'s kv_ops \<Rightarrow> ext \<Rightarrow> 's service \<Rightarrow> string \<Rightarrow> ('s service, unit) st_result" where
  "svc_delete_subscription K X v full_name = on_store v (\<lambda>s. sub_delete K X s full_name)"

definition svc_detach_subscription :: "'s kv_ops \<Rightarrow> ext \<Rightarrow> 's service \<Rightarrow> string \<Rightarrow> ('s service, unit) st_result" where
  "svc_detach_subscription K X v full_name = on_store v (\<lambda>s. sub_detach K X s full_name)"

definition svc_modify_push_config ::
    "'s kv_ops \<Rightarrow> ext \<Rightarrow> 's service \<Rightarrow> string \<Rightarrow> push_config option \<Rightarrow> ('s service, unit) st_result" where
  "svc_modify_push_config K X v full_name push = on_store v (\<lambda>s. sub_set_push_config K X s full_name push)"

section \<open>Streaming pull\<close>

definition svc_open_stream ::
    "'s kv_ops \<Rightarrow> ext \<Rightarrow> 's service \<Rightarrow> string \<Rightarrow> int \<Rightarrow> int \<Rightarrow> int \<Rightarrow>
     ('s service, u64 \<times> subscription_record) st_result" where
  "svc_open_stream K X v subscription_full_name ack_deadline_secs max_outstanding_messages
      max_outstanding_bytes =
     with_r (sub_get K X (svc_kv v) subscription_full_name) v (\<lambda>sub.
       if is_detached sub then (Inl FailedPrecondition, v)
       else (case open_stream (svc_engine v) (sr_id sub) (sr_topic_id sub) ack_deadline_secs
                    max_outstanding_messages max_outstanding_bytes of
               (stream_id, e) \<Rightarrow> (Inr (stream_id, sub), v\<lparr>svc_engine := e\<rparr>)))"

definition svc_update_stream ::
    "'s service \<Rightarrow> u64 \<Rightarrow> int option \<Rightarrow> int option \<Rightarrow> int option \<Rightarrow> 's service" where
  "svc_update_stream v stream_id ack_deadline_secs max_outstanding_messages max_outstanding_bytes =
     v\<lparr>svc_engine := update_stream (svc_engine v) stream_id ack_deadline_secs
         max_outstanding_messages max_outstanding_bytes\<rparr>"

definition svc_lease_for_stream ::
    "'s kv_ops \<Rightarrow> ext \<Rightarrow> 's service \<Rightarrow> int \<Rightarrow> u64 \<Rightarrow> ('s service, pulled_message list) st_result" where
  "svc_lease_for_stream K X v now_ms stream_id =
     bind_st (on_engine v (\<lambda>e. lease_for_stream K X e stream_id now_ms)) (\<lambda>delivered v.
       (Inr (map (pulled_of True) delivered), v))"

definition svc_stream_waiter :: "'s service \<Rightarrow> u64 \<Rightarrow> 's service" where
  "svc_stream_waiter v sub_id = v\<lparr>svc_engine := waiter (svc_engine v) sub_id\<rparr>"

definition svc_stream_acknowledge ::
    "'s kv_ops \<Rightarrow> ext \<Rightarrow> 's service \<Rightarrow> int \<Rightarrow> u64 \<Rightarrow> u64 \<Rightarrow> string list \<Rightarrow> ('s service, unit) st_result" where
  "svc_stream_acknowledge K X v now_ms stream_id sub_id ack_ids =
     bind_st (on_engine v (\<lambda>e. stream_acknowledge K X e stream_id sub_id ack_ids)) (\<lambda>_ v.
       (Inr (), svc_touch K X v sub_id now_ms))"

definition svc_stream_modify_ack_deadline ::
    "'s kv_ops \<Rightarrow> ext \<Rightarrow> 's service \<Rightarrow> int \<Rightarrow> u64 \<Rightarrow> u64 \<Rightarrow> string list \<Rightarrow> int \<Rightarrow> ('s service, unit) st_result" where
  "svc_stream_modify_ack_deadline K X v now_ms stream_id sub_id ack_ids seconds =
     bind_st (on_engine v (\<lambda>e. stream_modify_ack_deadline K X e stream_id sub_id ack_ids now_ms seconds))
       (\<lambda>_ v. (Inr (), svc_touch K X v sub_id now_ms))"

definition svc_close_stream :: "'s kv_ops \<Rightarrow> 's service \<Rightarrow> u64 \<Rightarrow> 's service" where
  "svc_close_stream K v stream_id = v\<lparr>svc_engine := on_stream_closed K (svc_engine v) stream_id\<rparr>"

section \<open>Snapshots and seek\<close>

definition svc_create_snapshot ::
    "'s kv_ops \<Rightarrow> ext \<Rightarrow> 's service \<Rightarrow> int \<Rightarrow> string \<Rightarrow> string \<Rightarrow> attributes \<Rightarrow>
     ('s service, snapshot_record) st_result" where
  "svc_create_snapshot K X v now_ms full_name subscription_full_name labels =
     with_r (sub_get K X (svc_kv v) subscription_full_name) v (\<lambda>sub.
     with_r (cursor_snapshot K X (svc_engine v) (sr_id sub)) v (\<lambda>cursor.
     with_r (oldest_unacked_publish_ts_ms K X (svc_engine v) (sr_id sub) (sr_topic_id sub)) v (\<lambda>oldest_unacked.
     with_r (compute_expire_at_ms now_ms oldest_unacked) v (\<lambda>expire_at_ms.
       on_store v (\<lambda>s. snapshot_create K X s full_name (sr_topic sub) (sr_topic_id sub) labels cursor
                         expire_at_ms)))))"

definition svc_get_snapshot :: "'s kv_ops \<Rightarrow> ext \<Rightarrow> 's service \<Rightarrow> string \<Rightarrow> snapshot_record result" where
  "svc_get_snapshot K X v full_name = snapshot_get K X (svc_kv v) full_name"

definition svc_list_snapshots ::
    "'s kv_ops \<Rightarrow> ext \<Rightarrow> 's service \<Rightarrow> string \<Rightarrow> nat \<Rightarrow> string option \<Rightarrow>
     (snapshot_record list \<times> string option) result" where
  "svc_list_snapshots K X v project_id page_size page_token =
     snapshot_list K X (svc_kv v) project_id page_size page_token"

definition svc_list_topic_snapshots :: "'s kv_ops \<Rightarrow> ext \<Rightarrow> 's service \<Rightarrow> string \<Rightarrow> string list result" where
  "svc_list_topic_snapshots K X v topic_full_name =
     bind_r (topic_name_parse topic_full_name) (\<lambda>n.
     bind_r (snapshot_list K X (svc_kv v) (topic_project_id n) usize_max None) (\<lambda>(all, _).
       Inr (map sn_name (filter (\<lambda>s. sn_topic s = topic_full_name) all))))"

definition svc_update_snapshot_labels ::
    "'s kv_ops \<Rightarrow> ext \<Rightarrow> 's service \<Rightarrow> string \<Rightarrow> attributes \<Rightarrow> ('s service, snapshot_record) st_result" where
  "svc_update_snapshot_labels K X v full_name labels =
     on_store v (\<lambda>s. snapshot_update_labels K X s full_name labels)"

definition svc_delete_snapshot :: "'s kv_ops \<Rightarrow> 's service \<Rightarrow> string \<Rightarrow> ('s service, unit) st_result" where
  "svc_delete_snapshot K v full_name = on_store v (\<lambda>s. snapshot_delete K s full_name)"

definition svc_sweep_expired_snapshots ::
    "nat \<Rightarrow> 's kv_ops \<Rightarrow> ext \<Rightarrow> 's service \<Rightarrow> int \<Rightarrow> string \<Rightarrow> ('s service, nat) st_result option" where
  "svc_sweep_expired_snapshots fuel K X v now_ms project_id =
     map_option (\<lambda>(r, s). (r, v\<lparr>svc_engine := (svc_engine v)\<lparr>eng_kv := s\<rparr>\<rparr>))
       (snapshot_sweep_expired fuel K X (svc_kv v) project_id now_ms)"

definition svc_seek_to_snapshot ::
    "'s kv_ops \<Rightarrow> ext \<Rightarrow> 's service \<Rightarrow> string \<Rightarrow> string \<Rightarrow> ('s service, unit) st_result" where
  "svc_seek_to_snapshot K X v subscription_full_name snapshot_full_name =
     with_r (sub_get K X (svc_kv v) subscription_full_name) v (\<lambda>sub.
     with_r (snapshot_get K X (svc_kv v) snapshot_full_name) v (\<lambda>snapshot.
       if sn_topic_id snapshot \<noteq> sr_topic_id sub then (Inl (InvalidArgument ''snapshot''), v)
       else on_engine v (\<lambda>e. restore_cursor K X e (sr_id sub) (sn_cursor snapshot))))"

definition svc_seek_to_time ::
    "'s kv_ops \<Rightarrow> ext \<Rightarrow> 's service \<Rightarrow> string \<Rightarrow> int \<Rightarrow> ('s service, unit) st_result" where
  "svc_seek_to_time K X v subscription_full_name time_ms =
     with_r (sub_get K X (svc_kv v) subscription_full_name) v (\<lambda>sub.
     with_r (cursor_snapshot K X (svc_engine v) (sr_id sub)) v (\<lambda>c.
       let attach_seq = cr_attach_seq c;
           boundary_seq = seq_boundary_for_time K X (svc_kv v) (sr_topic_id sub) time_ms;
           acked_floor = max (word_sat_sub boundary_seq 1) attach_seq
       in on_engine v (\<lambda>e. restore_cursor K X e (sr_id sub)
            \<lparr>cr_attach_seq = attach_seq, cr_acked_floor = acked_floor,
             cr_acked_above_floor = []\<rparr>)))"

section \<open>Facts\<close>

lemma on_engine_Inr:
  "on_engine v f = (Inr a, v') \<longleftrightarrow> (\<exists>e. f (svc_engine v) = (Inr a, e) \<and> v' = v\<lparr>svc_engine := e\<rparr>)"
  by (auto simp: on_engine_def split: prod.splits)

lemma on_store_Inr:
  "on_store v f = (Inr a, v') \<longleftrightarrow> (\<exists>s. f (svc_kv v) = (Inr a, s) \<and> v' = v\<lparr>svc_engine := (svc_engine v)\<lparr>eng_kv := s\<rparr>\<rparr>)"
  by (auto simp: on_store_def on_engine_def on_kv_def split: prod.splits)

lemma sub_get_view:
  assumes "\<And>k. kv_view K s' (''meta'', name_key KSubscription k) = kv_view K s (''meta'', name_key KSubscription k)"
    and "\<And>i. kv_view K s' (''meta'', sub_key i) = kv_view K s (''meta'', sub_key i)"
  shows "sub_get K X s' n = sub_get K X s n" and "sub_record_of K X s' i = sub_record_of K X s i"
  by (simp_all add: sub_get_def sub_load_def sub_record_of_def kv_get_view assms)

end
