(* ===== verification/Quiet.thy ===== *)
theory Quiet
  imports Engine_Recovery Service
begin

text \<open>
  Frames that hold whatever the outcome of an operation is, success or error part-way: most
  operations of the broker touch neither cursors, subscription records nor snapshots, nor the id counter.
  \<open>quiet\<close> says so of two states of a store and \<open>eng_quiet\<close> of two states of the engine; both are
  proved operation by operation with the rules of the collection \<open>quiet_rules\<close>.
\<close>

named_theorems quiet_rules

definition neutral :: "string \<times> bytes \<Rightarrow> bool" where
  "neutral p \<longleftrightarrow> fst p \<in> keyspaces \<and> fst p \<noteq> ''sub'' \<and>
     (fst p = ''meta'' \<longrightarrow> snd p \<noteq> id_seq_key \<and> (\<forall>i. snd p \<noteq> snapshot_key i \<and> snd p \<noteq> sub_key i))"

lemma neutral_simps [simp]:
  "neutral (''msg'', k)" "neutral (''dlv'', k)" "neutral (''idx'', k)"
  "neutral (''meta'', topic_key i)" "neutral (''meta'', name_key kind n)"
  "neutral (''meta'', topic_seq_counter_key i)"
  "\<not> neutral (''sub'', k)" "\<not> neutral (''meta'', id_seq_key)" "\<not> neutral (''meta'', snapshot_key i)"
  "\<not> neutral (''meta'', sub_key i)"
  by (auto simp: neutral_def)

definition quiet :: "'s kv_ops \<Rightarrow> ('s \<Rightarrow> bool) \<Rightarrow> 's \<Rightarrow> 's \<Rightarrow> bool" where
  "quiet K good s s' \<longleftrightarrow>
     (good s \<longrightarrow> good s' \<and> (\<forall>p. \<not> neutral p \<longrightarrow> kv_view K s' p = kv_view K s p))"

text \<open>
  A relation between the states before and after an operation that is kept by sequencing,
  early returns and branches: it then holds of every operation built from steps it holds of.
\<close>

locale step_frame =
  fixes R :: "'s \<Rightarrow> 's \<Rightarrow> bool"
  assumes refl: "R s s" and trans: "R s s' \<Longrightarrow> R s' s'' \<Longrightarrow> R s s''"
begin

lemma bind_frame [quiet_rules]:
  assumes "R s (snd m)" and "\<And>a s'. R s' (snd (g a s'))"
  shows "R s (snd (bind_st m g))"
  using assms trans [of s] by (cases m; cases "fst m") (auto simp: bind_st_def)

lemma with_frame [quiet_rules]: "(\<And>a. R s (snd (g a))) \<Longrightarrow> R s (snd (with_r m s g))"
  by (cases m) (simp_all add: refl)

lemma if_frame [quiet_rules]:
  "(b \<Longrightarrow> R s (snd x)) \<Longrightarrow> (\<not> b \<Longrightarrow> R s (snd y)) \<Longrightarrow> R s (snd (if b then x else y))"
  by simp

lemma pair_frame [quiet_rules]: "R s s' \<Longrightarrow> R s (snd (r, s'))"
  by simp

lemma fold_frame: "(\<And>x s. R s (f x s)) \<Longrightarrow> R s (fold f xs s)"
  by (induction xs arbitrary: s) (auto intro: refl trans)

lemmas refl_frame [quiet_rules] = refl

end

interpretation quiet: step_frame "quiet K good" for K good
  by unfold_locales (auto simp: quiet_def)

lemmas quiet_refl = quiet.refl
lemmas quiet_trans = quiet.trans

context kv_store
begin

lemma quiet_put [quiet_rules]: "neutral (ks, k) \<Longrightarrow> quiet K wf s (snd (kv_put K s ks k v))"
  unfolding quiet_def using put_wf put_other by (metis neutral_def fst_conv prod.collapse)

lemma quiet_delete [quiet_rules]: "neutral (ks, k) \<Longrightarrow> quiet K wf s (snd (kv_delete K s ks k))"
  unfolding quiet_def using delete_wf delete_other by (metis neutral_def fst_conv prod.collapse)

end

section \<open>The stores\<close>

context store_env
begin

lemma quiet_topic_put_record [quiet_rules]: "quiet K wf s (snd (topic_put_record K X s r))"
  unfolding topic_put_record_def by (intro quiet_rules neutral_simps)

lemma quiet_topic_update [quiet_rules]: "quiet K wf s (snd (topic_update K X s n l r k))"
  unfolding topic_update_def by (intro quiet_rules)

lemma quiet_topic_delete [quiet_rules]: "quiet K wf s (snd (topic_delete K s n))"
  unfolding topic_delete_def by (intro quiet_rules neutral_simps)

lemma quiet_next_seq [quiet_rules]: "quiet K wf s (snd (next_seq K s t))"
  unfolding next_seq_def Let_def by (intro quiet_rules neutral_simps)

lemma quiet_append_write [quiet_rules]: "quiet K wf s (snd (append_write K X t now expire s ms))"
proof (induction ms arbitrary: s)
  case (Cons m ms)
  obtain p as ok where "m = (p, as, ok)" by (cases m) auto
  then show ?case
    by (simp only: append_write.simps Let_def) (intro quiet_rules neutral_simps Cons.IH)
qed (simp add: quiet_refl)

lemma quiet_topic_append [quiet_rules]: "quiet K wf s (snd (topic_append K X s t ms now r))"
  unfolding topic_append_def Let_def by (intro quiet_rules)

lemma quiet_delete_keys [quiet_rules]: "quiet K wf s (snd (delete_keys K ks s))"
  by (induction ks arbitrary: s) (auto intro!: quiet_rules)

lemma quiet_delete_delivery_rows [quiet_rules]: "quiet K wf s (delete_delivery_rows K q is s)"
proof (induction "is" arbitrary: s)
  case (Cons i "is")
  show ?case
    using quiet_trans [OF quiet_delete [of "''dlv''" "delivery_key i q" s] Cons.IH] by simp
qed (simp add: quiet_refl)

lemma quiet_retention_step: "quiet K wf s (snd (retention_step K X now x (st, s)))"
proof -
  have "quiet K wf s (snd (kv_delete K s ''msg'' (fst x)))" by (intro quiet_rules neutral_simps)
  moreover have "quiet K wf s1 (delete_delivery_rows K q is s1)" for q "is" s1
    by (rule quiet_delete_delivery_rows)
  ultimately show ?thesis
    using quiet_trans [of K wf s]
    by (auto simp: retention_step_def quiet_refl split: option.split prod.split sum.split)
qed

lemma quiet_sweep_messages [quiet_rules]: "quiet K wf s (snd (sweep_expired_messages K X s now))"
proof -
  have "quiet K wf s (snd (fold (retention_step K X now) xs (st, s)))" for xs st s
  proof (induction xs arbitrary: st s)
    case (Cons x xs)
    obtain st1 s1 where 1: "retention_step K X now x (st, s) = (st1, s1)" by fastforce
    then have "quiet K wf s s1" using quiet_retention_step [of s now x st] by simp
    then show ?case using quiet_trans [OF _ Cons.IH [of s1 st1]] by (simp add: 1)
  qed (simp add: quiet_refl)
  then show ?thesis by (simp add: sweep_expired_messages_def)
qed

lemma quiet_forward [quiet_rules]:
  "quiet K wf s (snd (forward_to_dead_letter_topic K X s n m policy cnt now))"
  unfolding forward_to_dead_letter_topic_def
  by (auto intro!: quiet_rules split: sum.split error.split)

end

section \<open>The engine\<close>

definition eng_quiet :: "'s kv_ops \<Rightarrow> ('s \<Rightarrow> bool) \<Rightarrow> 's engine \<Rightarrow> 's engine \<Rightarrow> bool" where
  "eng_quiet K good e e' \<longleftrightarrow>
     quiet K good (eng_kv e) (eng_kv e') \<and> (lease_table_wf (eng_leases e) \<longrightarrow> lease_table_wf (eng_leases e'))"

interpretation eng_quiet: step_frame "eng_quiet K good" for K good
  by unfold_locales (auto simp: eng_quiet_def quiet_refl intro: quiet_trans)

lemmas eng_quiet_refl = eng_quiet.refl
lemmas eng_quiet_trans = eng_quiet.trans

lemma eng_quiet_on_kv [quiet_rules]:
  "quiet K good (eng_kv e) (snd (f (eng_kv e))) \<Longrightarrow> eng_quiet K good e (snd (on_kv e f))"
  by (cases "f (eng_kv e)") (simp add: eng_quiet_def on_kv_def)

lemma eng_quiet_leases:
  "(lease_table_wf (eng_leases e) \<Longrightarrow> lease_table_wf T) \<Longrightarrow> eng_quiet K good e (e\<lparr>eng_leases := T\<rparr>)"
  by (simp add: eng_quiet_def quiet_refl)

lemma eng_quiet_others [quiet_rules]:
  "eng_quiet K good e (e\<lparr>eng_streams := R\<rparr>)" "eng_quiet K good e (e\<lparr>eng_waiters := w\<rparr>)"
  "eng_quiet K good e (e\<lparr>eng_filters := fs\<rparr>)"
  by (simp_all add: eng_quiet_def quiet_refl)

lemma sweep_loop_wf:
  "lease_table_wf T \<Longrightarrow> lease_table_wf (snd (sweep_loop X sub now xs (n, T)))"
  by (induction xs arbitrary: n T) (auto simp: insert_wf)

context store_env
begin

lemma quiet_try_dead_letter [quiet_rules]: "eng_quiet K wf e (snd (try_dead_letter K X e m p a now))"
  by (auto simp: try_dead_letter_def Let_def intro: quiet_rules)

lemma quiet_drop_row: "eng_quiet K wf e (snd (bind_st (on_kv e (\<lambda>s. kv_delete K s ''dlv'' k)) (\<lambda>_ e. (r, e))))"
  by (intro quiet_rules neutral_simps)

lemma quiet_lease_remove [quiet_rules]:
  "eng_quiet K wf e (e\<lparr>eng_leases := snd (lease_remove (eng_leases e) sub q)\<rparr>)"
  by (intro eng_quiet_leases remove_wf)

lemma quiet_lease_and_row [quiet_rules]:
  "eng_quiet K wf e (snd (on_kv (e\<lparr>eng_leases := snd (lease_remove (eng_leases e) sub q)\<rparr>)
     (\<lambda>s. kv_delete K s ''dlv'' k)))"
  by (rule eng_quiet_trans [OF quiet_lease_remove [of e sub q]]) (intro quiet_rules neutral_simps)

lemma quiet_reclaim [quiet_rules]: "eng_quiet K wf e (snd (reclaim K X e sub q m now))"
  unfolding reclaim_def Let_def
  by (auto intro!: quiet_rules simp del: bind_st_simps split: option.split)

lemma quiet_grant [quiet_rules]: "eng_quiet K wf e (snd (grant K X e sub q m n now secs))"
proof -
  have "eng_quiet K wf (e\<lparr>eng_leases := T\<rparr>) (snd (bind_st (on_kv (e\<lparr>eng_leases := T\<rparr>) (\<lambda>s.
      kv_put K s ''dlv'' (delivery_key sub q) b)) (\<lambda>_ e. (r, e))))" for T b r
    by (intro quiet_rules neutral_simps)
  moreover have "eng_quiet K wf e (e\<lparr>eng_leases := T\<rparr>)"
    if "lease_insert X (eng_leases e) sub q d a g = (i, T)" for d a g i T
    using insert_wf [of "eng_leases e" X sub q d a g] that by (intro eng_quiet_leases) simp
  ultimately show ?thesis
    unfolding grant_def Let_def
    by (auto split: prod.split simp del: bind_st_simps) (blast intro: eng_quiet_trans)
qed

lemma quiet_lease_step [quiet_rules]: "eng_quiet K wf e (snd (lease_step K X sub now secs flt x st e))"
  unfolding lease_step_def
  by (cases st) (auto intro!: quiet_rules simp del: bind_st_simps split: option.split reclaim_outcome.split)

lemma quiet_lease_scan [quiet_rules]: "eng_quiet K wf e (snd (lease_scan K X sub now secs flt mx xs st e))"
  by (induction xs arbitrary: st e) (auto intro!: quiet_rules)

lemma quiet_ack_loop [quiet_rules]: "eng_quiet K wf e (snd (ack_loop K X sub ids st e))"
proof (induction ids arbitrary: st e)
  case (Cons i ids)
  obtain c ch where st: "st = (c, ch)" by (cases st)
  obtain oc T where ack: "lease_ack X (eng_leases e) i = (oc, T)" by fastforce
  have T: "eng_quiet K wf e (e\<lparr>eng_leases := T\<rparr>)"
    using ack_wf [of "eng_leases e" X i] ack by (intro eng_quiet_leases) simp
  show ?case
  proof (cases oc)
    case (Applied l)
    have "eng_quiet K wf (e\<lparr>eng_leases := T\<rparr>) (snd (bind_st (on_kv (e\<lparr>eng_leases := T\<rparr>)
        (\<lambda>s. kv_delete K s ''dlv'' (delivery_key sub (l_seq l))))
        (\<lambda>_ e. ack_loop K X sub ids (mark_done c (l_seq l), True) e)))"
      by (intro quiet_rules neutral_simps Cons.IH)
    with T show ?thesis by (auto simp: st ack Applied intro: eng_quiet_trans)
  qed (use eng_quiet_trans [OF T Cons.IH] in \<open>simp_all add: st ack\<close>)
qed (simp add: eng_quiet_refl)

lemma quiet_modify_loop: "eng_quiet K wf e (snd (modify_loop K X sub now secs ids e))"
proof (induction ids arbitrary: e)
  case (Cons i ids)
  obtain oc T where ext: "lease_extend X (eng_leases e) i now secs = (oc, T)" by fastforce
  have T: "eng_quiet K wf e (e\<lparr>eng_leases := T\<rparr>)"
    using extend_wf [of "eng_leases e" X i now secs] ext by (intro eng_quiet_leases) simp
  show ?case
  proof (cases oc)
    case (Applied l)
    have "eng_quiet K wf (e\<lparr>eng_leases := T\<rparr>) (snd (bind_st (on_kv (e\<lparr>eng_leases := T\<rparr>)
        (\<lambda>s. kv_put K s ''dlv'' (delivery_key sub (l_seq l)) b)) (\<lambda>_ e. modify_loop K X sub now secs ids e)))" for b
      by (intro quiet_rules neutral_simps Cons.IH)
    with T show ?thesis by (auto simp: ext Applied intro: eng_quiet_trans)
  qed (use eng_quiet_trans [OF T Cons.IH] in \<open>simp_all add: ext\<close>)
qed (simp add: eng_quiet_refl)

lemma quiet_modify_ack_deadline [quiet_rules]:
  "eng_quiet K wf e (snd (modify_ack_deadline K X e sub ids now secs))"
  by (simp add: modify_ack_deadline_def quiet_modify_loop eng_quiet_refl)

lemma quiet_stream_modify [quiet_rules]:
  "eng_quiet K wf e (snd (stream_modify_ack_deadline K X e i sub ids now secs))"
  unfolding stream_modify_ack_deadline_def by (auto intro!: quiet_rules simp del: bind_st_simps)

lemma quiet_release_all: "eng_quiet K wf e (release_all K sub qs e)"
proof (induction qs arbitrary: e)
  case (Cons q qs)
  let ?e = "e\<lparr>eng_leases := snd (lease_remove (eng_leases e) sub q)\<rparr>"
  let ?e' = "snd (on_kv ?e (\<lambda>s. kv_delete K s ''dlv'' (delivery_key sub q)))"
  have "eng_quiet K wf e ?e" by (intro eng_quiet_leases remove_wf)
  moreover have "eng_quiet K wf ?e ?e'" by (intro quiet_rules neutral_simps)
  ultimately have "eng_quiet K wf e ?e'" by (rule eng_quiet_trans)
  with Cons.IH [of ?e'] show ?case by (auto simp: Let_def intro: eng_quiet_trans)
qed (simp add: eng_quiet_refl)

lemma quiet_stream_closed [quiet_rules]: "eng_quiet K wf e (on_stream_closed K e i)"
proof -
  have "eng_quiet K wf e (release_all K sub qs (e\<lparr>eng_streams := R\<rparr>))" for sub qs R
    using eng_quiet_trans [OF eng_quiet_others(1) quiet_release_all] .
  then show ?thesis
    by (auto simp: on_stream_closed_def intro: eng_quiet_others split: prod.split option.split)
qed

lemma quiet_sweep [quiet_rules]: "eng_quiet K wf e (snd (sweep_expired X e sub now grace))"
proof -
  obtain xs T where x: "lease_expire_up_to (eng_leases e) (i64_sat_sub now grace) = (xs, T)" by fastforce
  obtain n T' where l: "sweep_loop X sub now xs (0, T) = (n, T')" by fastforce
  have "eng_quiet K wf e (e\<lparr>eng_leases := T'\<rparr>)"
    using expire_spec(1) [OF _ x] sweep_loop_wf [of T X sub now xs 0] l by (intro eng_quiet_leases) simp
  then show ?thesis by (simp add: sweep_expired_def x l)
qed

end

end
