(* ===== verification/Progress.thy ===== *)
theory Progress
  imports Quiet
begin

text \<open>
  The invariant of the broker's store and how its cursors move. \<open>store_inv\<close> says that the id
  counter is readable and not below the id of any cursor or subscription, and that every stored cursor, also
  inside a snapshot, is canonical. \<open>advances\<close> says that an operation does not lower the counter
  and that the done set of subscription \<open>sub\<close> only grows, or its cursor is gone for good. Both
  hold for every operation of the service but a seek of \<open>sub\<close> itself, whatever its outcome.
\<close>

definition cursor_at :: "ext \<Rightarrow> view \<Rightarrow> u64 \<Rightarrow> cursor_record option" where
  "cursor_at X V sub = Option.bind (V (''sub'', cursor_key sub)) (cursor_decode X)"

definition store_inv :: "ext \<Rightarrow> view \<Rightarrow> bool" where
  "store_inv X V \<longleftrightarrow>
     (V (''meta'', id_seq_key) = None \<or> (\<exists>n. V (''meta'', id_seq_key) = Some (to_be_bytes n))) \<and>
     (\<forall>i b. V (''sub'', cursor_key i) = Some b \<longrightarrow>
        i \<le> counter_value V id_seq_key \<and> (\<exists>c. cursor_decode X b = Some c \<and> cursor_ok c)) \<and>
     (\<forall>i b r. V (''meta'', sub_key i) = Some b \<longrightarrow> sub_from_slice X b = Some r \<longrightarrow>
        sr_id r \<le> counter_value V id_seq_key) \<and>
     (\<forall>i b r. V (''meta'', snapshot_key i) = Some b \<longrightarrow> snapshot_from_slice X b = Some r \<longrightarrow>
        cursor_ok (sn_cursor r))"

definition advances :: "ext \<Rightarrow> u64 \<Rightarrow> view \<Rightarrow> view \<Rightarrow> bool" where
  "advances X sub V V' \<longleftrightarrow>
     counter_value V id_seq_key \<le> counter_value V' id_seq_key \<and>
     (sub \<le> counter_value V id_seq_key \<longrightarrow>
       (\<forall>c'. cursor_at X V' sub = Some c' \<longrightarrow>
          (\<exists>c. cursor_at X V sub = Some c \<and> done_seqs c \<subseteq> done_seqs c')))"

definition progress :: "'s kv_ops \<Rightarrow> ('s \<Rightarrow> bool) \<Rightarrow> ext \<Rightarrow> u64 \<Rightarrow> 's \<Rightarrow> 's \<Rightarrow> bool" where
  "progress K good X sub s s' \<longleftrightarrow>
     (good s \<and> store_inv X (kv_view K s) \<longrightarrow>
        good s' \<and> store_inv X (kv_view K s') \<and> advances X sub (kv_view K s) (kv_view K s'))"

lemma advances_refl [simp]: "advances X sub V V"
  by (simp add: advances_def)

lemma advances_trans:
  assumes "advances X sub V V'" and "advances X sub V' V''"
  shows "advances X sub V V''"
proof -
  have le: "counter_value V id_seq_key \<le> counter_value V' id_seq_key"
      "counter_value V' id_seq_key \<le> counter_value V'' id_seq_key"
    using assms by (simp_all add: advances_def)
  show ?thesis
    unfolding advances_def
  proof (intro conjI impI allI)
    show "counter_value V id_seq_key \<le> counter_value V'' id_seq_key" using le by (rule order_trans)
    fix c'' assume sub: "sub \<le> counter_value V id_seq_key" and c'': "cursor_at X V'' sub = Some c''"
    then have "sub \<le> counter_value V' id_seq_key" using le by (blast intro: order_trans)
    with c'' obtain c' where c': "cursor_at X V' sub = Some c'" "done_seqs c' \<subseteq> done_seqs c''"
      using assms(2) by (auto simp: advances_def)
    with sub obtain c where "cursor_at X V sub = Some c" "done_seqs c \<subseteq> done_seqs c'"
      using assms(1) by (auto simp: advances_def)
    with c'(2) show "\<exists>c. cursor_at X V sub = Some c \<and> done_seqs c \<subseteq> done_seqs c''" by blast
  qed
qed

interpretation progress: step_frame "progress K good X sub" for K good X sub
  by unfold_locales (auto simp: progress_def intro: advances_trans)

lemma view_cases_inv:
  assumes "\<forall>p. \<not> neutral p \<longrightarrow> V' p = V p"
  shows "store_inv X V' \<longleftrightarrow> store_inv X V" and "advances X sub V V'"
proof -
  have "V' (''meta'', id_seq_key) = V (''meta'', id_seq_key)" "V' (''sub'', k) = V (''sub'', k)"
    "V' (''meta'', snapshot_key i) = V (''meta'', snapshot_key i)"
    "V' (''meta'', sub_key i) = V (''meta'', sub_key i)" for k i
    using assms by simp_all
  then show "store_inv X V' \<longleftrightarrow> store_inv X V" and "advances X sub V V'"
    by (simp_all add: store_inv_def advances_def cursor_at_def counter_value_def)
qed

lemma quiet_progress: "quiet K good s s' \<Longrightarrow> progress K good X sub s s'"
  unfolding quiet_def progress_def by (metis view_cases_inv)

text \<open>A patch never changes the id of the record.\<close>

definition keeps_id :: "u64 \<Rightarrow> subscription_record result \<Rightarrow> bool" where
  "keeps_id i m \<longleftrightarrow> (\<forall>r. m = Inr r \<longrightarrow> sr_id r = i)"

lemma keeps_id_bind:
  "keeps_id i m \<Longrightarrow> (\<And>r. sr_id r = i \<Longrightarrow> keeps_id i (f r)) \<Longrightarrow> keeps_id i (bind_r m f)"
  unfolding keeps_id_def bind_r_Inr_iff by blast

lemma keeps_id_check: "keeps_id i m \<Longrightarrow> keeps_id i (bind_r u (\<lambda>_. m))"
  unfolding keeps_id_def bind_r_Inr_iff by blast

lemma keeps_id_Let: "sr_id x = i \<Longrightarrow> (\<And>r. sr_id r = i \<Longrightarrow> keeps_id i (f r)) \<Longrightarrow> keeps_id i (Let x f)"
  by simp

lemma keeps_id_case:
  "(\<And>v. keeps_id i (g v)) \<Longrightarrow> keeps_id i m \<Longrightarrow> keeps_id i (case y of None \<Rightarrow> m | Some v \<Rightarrow> g v)"
  by (cases y) simp_all

lemma keeps_id_Inr: "sr_id x = i \<Longrightarrow> keeps_id i (Inr x)"
  by (simp add: keeps_id_def)

lemma sr_id_case:
  "(\<And>v. sr_id (h v) = i) \<Longrightarrow> sr_id x = i \<Longrightarrow> sr_id (case y of None \<Rightarrow> x | Some v \<Rightarrow> h v) = i"
  by (cases y) simp_all

section \<open>Single writes\<close>

text \<open>A write that may fail: afterwards the view is one of two.\<close>

context store_env
begin

lemma progress_either:
  assumes "wf s \<Longrightarrow> wf s' \<and> (V s' = V s \<or> V s' = V1)"
    and "wf s \<Longrightarrow> store_inv X (V s) \<Longrightarrow> store_inv X V1 \<and> advances X sub (V s) V1"
  shows "progress K wf X sub s s'"
  using assms by (auto simp: progress_def)

lemma put_either:
  assumes "wf s" and "ks \<in> keyspaces"
  shows "wf (snd (kv_put K s ks k v)) \<and>
    (V (snd (kv_put K s ks k v)) = V s \<or> V (snd (kv_put K s ks k v)) = (V s)((ks, k) \<mapsto> v))"
  using put_ok [OF assms, of k v] put_err [OF assms, of k v]
  by (cases "kv_put K s ks k v"; cases "fst (kv_put K s ks k v)") auto

lemma delete_either:
  assumes "wf s" and "ks \<in> keyspaces"
  shows "wf (snd (kv_delete K s ks k)) \<and>
    (V (snd (kv_delete K s ks k)) = V s \<or> V (snd (kv_delete K s ks k)) = (V s)((ks, k) := None))"
  using delete_ok [OF assms, of k] delete_err [OF assms, of k]
  by (cases "kv_delete K s ks k"; cases "fst (kv_delete K s ks k)") auto

lemma progress_put_counter:
  assumes "counter_value (V s) id_seq_key \<le> n"
  shows "progress K wf X sub s (snd (kv_put K s ''meta'' id_seq_key (to_be_bytes n)))"
proof (rule progress_either [OF put_either])
  let ?V1 = "(V s)((''meta'', id_seq_key) \<mapsto> to_be_bytes n)"
  assume "store_inv X (V s)"
  then show "store_inv X ?V1 \<and> advances X sub (V s) ?V1"
    using assms order_trans [of _ "counter_value (V s) id_seq_key" n]
    by (auto simp: store_inv_def advances_def cursor_at_def)
qed simp_all

lemma progress_put_snapshot:
  assumes "cursor_ok (sn_cursor r)" and "snapshot_from_slice X b = Some r"
  shows "progress K wf X sub s (snd (kv_put K s ''meta'' (snapshot_key i) b))"
proof (rule progress_either [OF put_either])
  let ?V1 = "(V s)((''meta'', snapshot_key i) \<mapsto> b)"
  assume "store_inv X (V s)"
  then show "store_inv X ?V1 \<and> advances X sub (V s) ?V1"
    using assms by (auto simp: store_inv_def advances_def cursor_at_def)
qed simp_all

lemma progress_delete_snapshot [quiet_rules]:
  "progress K wf X sub s (snd (kv_delete K s ''meta'' (snapshot_key i)))"
  by (rule progress_either [OF delete_either]) (auto simp: store_inv_def advances_def cursor_at_def)

lemma progress_delete_cursor [quiet_rules]:
  "progress K wf X sub s (snd (kv_delete K s ''sub'' (cursor_key i)))"
  by (rule progress_either [OF delete_either]) (auto simp: store_inv_def advances_def cursor_at_def)

text \<open>A cursor may be written when it extends the stored one, or is another subscription's.\<close>

lemma progress_put_cursor:
  assumes "cursor_ok c'" and "i \<le> counter_value (V s) id_seq_key"
    and "i = sub \<Longrightarrow> \<exists>c. cursor_at X (V s) sub = Some c \<and> done_seqs c \<subseteq> done_seqs c'"
  shows "progress K wf X sub s (snd (kv_put K s ''sub'' (cursor_key i) (cursor_encode X c')))"
proof (rule progress_either [OF put_either])
  let ?V1 = "(V s)((''sub'', cursor_key i) \<mapsto> cursor_encode X c')"
  assume "store_inv X (V s)"
  then show "store_inv X ?V1 \<and> advances X sub (V s) ?V1"
    using assms by (cases "i = sub") (auto simp: store_inv_def advances_def cursor_at_def)
qed simp_all

text \<open>For a subscription that does not exist yet only the invariant matters.\<close>

lemma progress_other:
  assumes "progress K wf X i s s'" and "\<not> sub \<le> counter_value (V s) id_seq_key"
  shows "progress K wf X sub s s'"
  using assms by (auto simp: progress_def advances_def)

section \<open>The stores\<close>

lemmas quiet_ops =
  quiet_topic_put_record quiet_topic_update quiet_topic_delete quiet_topic_append quiet_delete_keys
  quiet_sweep_messages

lemmas progress_ops = quiet_ops [THEN quiet_progress]

lemma progress_put_neutral: "neutral (ks, k) \<Longrightarrow> progress K wf X sub s (snd (kv_put K s ks k v))"
  by (intro quiet_progress quiet_put)

lemma progress_delete_neutral: "neutral (ks, k) \<Longrightarrow> progress K wf X sub s (snd (kv_delete K s ks k))"
  by (intro quiet_progress quiet_delete)

lemma topic_next_id_progress: "progress K wf X sub s (snd (topic_next_id K s))"
  unfolding topic_next_id_def Let_def
  by (intro progress.bind_frame progress_put_counter quiet_rules) (simp add: read_counter_view word_sat_add_le)

lemma snapshot_next_id_progress: "progress K wf X sub s (snd (snapshot_next_id K s))"
proof -
  have "snapshot_read_counter K s k = counter_value (V s) k" for k
    by (simp add: snapshot_read_counter_def counter_value_def kv_get_view)
  then show ?thesis
    unfolding snapshot_next_id_def Let_def
    by (intro progress.bind_frame progress_put_counter quiet_rules) (simp add: word_sat_add_le)
qed

lemma topic_create_progress: "progress K wf X sub s (snd (topic_create K X s n l r k a b))"
  unfolding topic_create_def Let_def
  by (intro quiet_rules topic_next_id_progress progress_ops progress_put_neutral neutral_simps)

lemma snapshot_put_progress:
  assumes "cursor_ok (sn_cursor r)"
  shows "progress K wf X sub s (snd (snapshot_put_record K X s r))"
proof -
  obtain b where "snapshot_to_vec X r = Some b" "snapshot_from_slice X b = Some r"
    using snapshot_rt by (rule serde_roundtripE)
  then show ?thesis
    using progress_put_snapshot [OF assms] by (simp add: snapshot_put_record_def)
qed

lemma snapshot_create_progress:
  "cursor_ok c \<Longrightarrow> progress K wf X sub s (snd (snapshot_create K X s n t ti l c x))"
  unfolding snapshot_create_def Let_def
  by (intro quiet_rules snapshot_next_id_progress snapshot_put_progress progress_put_neutral neutral_simps) simp

lemma snapshot_get_cursor_ok:
  assumes "store_inv X (V s)" and "snapshot_get K X s n = Inr r"
  shows "cursor_ok (sn_cursor r)"
  using assms
  by (auto simp: snapshot_get_def snapshot_load_record_def bind_r_Inr_iff ok_or_Inr_iff kv_get_view store_inv_def)

lemma snapshot_update_progress: "progress K wf X sub s (snd (snapshot_update_labels K X s n l))"
proof (cases "snapshot_get K X s n")
  case (Inl e)
  then show ?thesis by (simp add: snapshot_update_labels_def progress.refl)
next
  case (Inr r)
  have "progress K wf X sub s (snd (bind_st (snapshot_put_record K X s (r\<lparr>sn_labels := l\<rparr>)) (\<lambda>_ s. (Inr (r\<lparr>sn_labels := l\<rparr>), s))))"
    if "store_inv X (V s)"
    using snapshot_get_cursor_ok [OF that Inr] by (intro quiet_rules snapshot_put_progress) simp
  then show ?thesis using Inr by (auto simp: snapshot_update_labels_def progress_def Let_def)
qed

lemma snapshot_delete_progress: "progress K wf X sub s (snd (snapshot_delete K s n))"
  unfolding snapshot_delete_def
  by (intro quiet_rules progress_delete_snapshot progress_delete_neutral neutral_simps)

lemma sub_load_id:
  assumes "store_inv X (V s)" and "sub_load K X s i n = Inr r"
  shows "sr_id r \<le> counter_value (V s) id_seq_key"
  using assms by (auto simp: sub_load_def bind_r_Inr_iff ok_or_Inr_iff kv_get_view store_inv_def)

lemma sub_get_id:
  assumes "store_inv X (V s)" and "sub_get K X s n = Inr r"
  shows "sr_id r \<le> counter_value (V s) id_seq_key"
  using assms sub_load_id by (auto simp: sub_get_def bind_r_Inr_iff)

lemma sub_persist_progress:
  assumes "store_inv X (V s) \<Longrightarrow> sr_id r \<le> counter_value (V s) id_seq_key"
  shows "progress K wf X sub s (snd (sub_persist K X s r))"
proof -
  obtain b where b: "sub_to_vec X r = Some b" "sub_from_slice X b = Some r"
    using sub_to_vec_ex by blast
  let ?V1 = "(V s)((''meta'', sub_key (sr_id r)) \<mapsto> b)"
  have row: "progress K wf X sub s (snd (kv_put K s ''meta'' (sub_key (sr_id r)) b))"
  proof (rule progress_either [OF put_either])
    assume "store_inv X (V s)"
    then show "store_inv X ?V1 \<and> advances X sub (V s) ?V1"
      using assms b by (auto simp: store_inv_def advances_def cursor_at_def)
  qed simp_all
  then show ?thesis
    unfolding sub_persist_def b(1) ok_or_simps with_r_simps
    by (intro progress.bind_frame row progress_put_neutral neutral_simps quiet_rules)
qed

lemma sub_change_progress:
  "(\<And>r. sr_id (f r) = sr_id r) \<Longrightarrow>
     progress K wf X sub s (snd (with_r (sub_load K X s i n) s (\<lambda>r. sub_persist K X s (f r))))"
  using sub_load_id [of s i n] by (cases "sub_load K X s i n") (auto intro: sub_persist_progress progress.refl)

lemma sub_get_change_progress:
  "(\<And>r. sub_get K X s n = Inr r \<Longrightarrow> sr_id (f r) = sr_id r) \<Longrightarrow>
     progress K wf X sub s (snd (with_r (sub_get K X s n) s (\<lambda>r. sub_persist K X s (f r))))"
  using sub_get_id [of s n] by (cases "sub_get K X s n") (auto intro: sub_persist_progress progress.refl)

lemma set_topic_to_deleted_progress: "progress K wf X sub s (snd (set_topic_to_deleted K X s i))"
  unfolding set_topic_to_deleted_def by (rule sub_change_progress) simp

lemma sub_touch_progress: "progress K wf X sub s (snd (sub_touch K X s i now))"
  using sub_load_id [of s i]
  by (auto simp: sub_touch_def progress.refl intro: sub_persist_progress split: sum.split)

lemma sub_detach_progress: "progress K wf X sub s (snd (sub_detach K X s n))"
  unfolding sub_detach_def by (rule sub_get_change_progress) simp

lemma sub_set_push_config_progress: "progress K wf X sub s (snd (sub_set_push_config K X s n p))"
  unfolding sub_set_push_config_def by (rule sub_get_change_progress) simp

lemma sub_patch_id: "sub_patch p r0 = Inr r \<Longrightarrow> sr_id r = sr_id r0"
proof -
  have "keeps_id (sr_id r0) (sub_patch p r0)"
    unfolding sub_patch_def by (intro keeps_id_check keeps_id_bind keeps_id_Let keeps_id_case keeps_id_Inr sr_id_case) simp_all
  then show "sub_patch p r0 = Inr r \<Longrightarrow> sr_id r = sr_id r0" by (simp add: keeps_id_def)
qed

lemma sub_update_progress: "progress K wf X sub s (snd (sub_update K X s n p))"
proof (cases "sub_get K X s n")
  case (Inl e)
  then show ?thesis by (simp add: sub_update_def progress.refl)
next
  case get: (Inr r0)
  show ?thesis
  proof (cases "sub_patch p r0")
    case (Inl e)
    then show ?thesis using get by (simp add: sub_update_def progress.refl)
  next
    case (Inr r)
    then have "progress K wf X sub s (snd (bind_st (sub_persist K X s r) (\<lambda>_ s. (Inr r, s))))"
      using sub_get_id [OF _ get] sub_patch_id
      by (intro progress.bind_frame sub_persist_progress quiet_rules) simp
    then show ?thesis using get Inr by (simp add: sub_update_def)
  qed
qed

lemma detach_all_progress: "progress K wf X sub s (snd (detach_all K X is s))"
  by (induction "is" arbitrary: s) (auto intro: quiet_rules set_topic_to_deleted_progress)

lemma progress_delete_sub_row:
  "progress K wf X sub s (snd (kv_delete K s ''meta'' (sub_key i)))"
  by (rule progress_either [OF delete_either]) (auto simp: store_inv_def advances_def cursor_at_def)

lemma sub_delete_progress: "progress K wf X sub s (snd (sub_delete K X s n))"
  unfolding sub_delete_def
  by (intro quiet_rules progress_delete_cursor progress_delete_sub_row progress_delete_neutral neutral_simps)

lemma sub_sweep_progress: "progress K wf X sub s (snd (sub_sweep_expired K X s now))"
proof -
  have "progress K wf X sub s (snd (sub_sweep_loop K X now s rs))" for rs s
    by (induction rs arbitrary: s)
      (auto intro!: quiet_rules sub_delete_progress simp: Let_def split: option.split)
  then show ?thesis by (simp add: sub_sweep_expired_def)
qed

lemma snapshot_sweep_progress:
  assumes "snapshot_sweep_expired fuel K X s project now = Some (r, s')"
  shows "progress K wf X sub s s'"
proof -
  have page: "progress K wf X sub s (snd (snapshot_sweep_page K now rs n s))" for rs n s
    by (induction rs arbitrary: n s) (auto intro!: quiet_rules snapshot_delete_progress)
  have "progress K wf X sub s s'" if "snapshot_sweep_pages fuel K X project now pg n s = Some (r, s')" for pg n s
    using that
  proof (induction fuel arbitrary: pg n s)
    case (Suc fuel)
    obtain rs tok where pg: "pg = (rs, tok)" by (cases pg)
    obtain x s1 where x: "snapshot_sweep_page K now rs n s = (x, s1)" by fastforce
    have s1: "progress K wf X sub s s1" using page [of s rs n] by (simp add: x)
    show ?case
      using Suc.prems Suc.IH s1 progress.trans [OF s1]
      by (auto simp: pg x split: sum.splits option.splits)
  qed simp
  then show ?thesis
    using assms by (auto simp: snapshot_sweep_expired_def progress.refl split: sum.splits)
qed

text \<open>A new subscription's cursor has an id that no cursor had before.\<close>

lemma word_checked_add_less: "word_checked_add (n :: u64) 1 = Some m \<Longrightarrow> n < m"
  by (auto simp: word_checked_add_def word_less_nat_alt unat_word_ariths split: if_splits)

lemma sub_next_id_eq:
  assumes "store_inv X (V s)"
  shows "sub_next_id K s =
    (case word_checked_add (counter_value (V s) id_seq_key) 1 of
       None \<Rightarrow> (Inl ResourceExhausted, s)
     | Some n \<Rightarrow> bind_st (kv_put K s ''meta'' id_seq_key (to_be_bytes n)) (\<lambda>_ s. (Inr n, s)))"
proof -
  have "(case kv_get K s ''meta'' id_seq_key of Some b \<Rightarrow> decode_id b | None \<Rightarrow> Inr 0) =
      Inr (counter_value (V s) id_seq_key)"
    using assms by (auto simp: store_inv_def kv_get_view counter_value_def decode_id_def)
  then show ?thesis by (simp add: sub_next_id_def split: option.split)
qed

lemma sub_next_id_progress: "progress K wf X sub s (snd (sub_next_id K s))"
proof -
  have "progress K wf X sub s (snd (sub_next_id K s))" if inv: "store_inv X (V s)"
  proof (cases "word_checked_add (counter_value (V s) id_seq_key) 1")
    case (Some n)
    then have "counter_value (V s) id_seq_key \<le> n" using word_checked_add_less by (simp add: less_imp_le)
    then show ?thesis
      unfolding sub_next_id_eq [OF inv] Some option.case
      by (intro progress.bind_frame progress_put_counter quiet_rules)
  qed (simp add: sub_next_id_eq [OF inv] progress.refl)
  then show ?thesis by (auto simp: progress_def)
qed

lemma sub_next_id_fresh:
  assumes "wf s" and "store_inv X (V s)" and "sub_next_id K s = (Inr i, s1)"
  shows "counter_value (V s) id_seq_key < i \<and> counter_value (V s1) id_seq_key = i"
proof -
  have n: "word_checked_add (counter_value (V s) id_seq_key) 1 = Some i"
    and put: "kv_put K s ''meta'' id_seq_key (to_be_bytes i) = (Inr (), s1)"
    using assms(3) by (auto simp: sub_next_id_eq [OF assms(2)] bind_st_Inr_iff split: option.splits)
  have "V s1 = (V s)((''meta'', id_seq_key) \<mapsto> to_be_bytes i)"
    using put_ok' [OF put assms(1)] by simp
  with word_checked_add_less [OF n] show ?thesis by simp
qed

lemma progress_counter:
  assumes "quiet K wf s s'" and "wf s"
  shows "counter_value (V s') id_seq_key = counter_value (V s) id_seq_key"
  using assms by (simp add: quiet_def counter_value_def)

lemma sub_store_progress:
  assumes "sr_id r \<noteq> sub" and "cursor_ok c" and "sr_id r \<le> counter_value (V s) id_seq_key"
  shows "progress K wf X sub s (snd (bind_st (sub_persist K X s r) (\<lambda>_ s.
    bind_st (kv_put K s ''sub'' (cursor_key (sr_id r)) (cursor_encode X c)) (\<lambda>_ s.
    bind_st (kv_put K s ''idx'' k []) (\<lambda>_ s. (Inr r, s))))))"
proof -
  obtain x s1 where s1: "sub_persist K X s r = (x, s1)" by fastforce
  have p: "progress K wf X sub s s1" using sub_persist_progress [of s r sub] assms(3) s1 by simp
  have "progress K wf X sub s1 (snd (bind_st (kv_put K s1 ''sub'' (cursor_key (sr_id r)) (cursor_encode X c)) (\<lambda>_ s.
    bind_st (kv_put K s ''idx'' k []) (\<lambda>_ s. (Inr r, s)))))" if "wf s" "store_inv X (V s)"
  proof -
    have "sr_id r \<le> counter_value (V s1) id_seq_key"
      using p that assms(3) by (auto simp: progress_def advances_def intro: order_trans)
    then show ?thesis
      using assms by (intro quiet_rules progress_put_cursor progress_put_neutral neutral_simps) simp_all
  qed
  then show ?thesis
    using p progress.trans [OF p] by (cases x) (auto simp: s1 progress_def)
qed

lemma sub_build_record_id: "sub_build_record n tn t now opts = Inr f \<Longrightarrow> sr_id (f i) = i"
  by (auto simp: sub_build_record_def bind_r_Inr_iff Let_def)

lemma sub_create_progress: "progress K wf X sub s (snd (sub_create K X s n tn t at now opts))"
proof -
  have ok: "cursor_ok \<lparr>cr_attach_seq = at, cr_acked_floor = at, cr_acked_above_floor = []\<rparr>"
    by (simp add: cursor_ok_def)
  have "progress K wf X sub s (snd (sub_create K X s n tn t at now opts))"
    if wf: "wf s" and inv: "store_inv X (V s)"
  proof (cases "sub_next_id K s")
    case (Pair x s1)
    have s1: "progress K wf X j s s1" for j using sub_next_id_progress [of j s] Pair by simp
    show ?thesis
    proof (cases x)
      case (Inl e)
      then show ?thesis
        unfolding sub_create_def Pair Inl bind_st_simps by (intro quiet_rules s1)
    next
      case (Inr i)
      note fresh = sub_next_id_fresh [OF wf inv Pair [unfolded Inr]]
      define j where "j = (if sub = i then i + 1 else sub)"
      have j: "i \<noteq> j" by (simp add: j_def)
      have "progress K wf X j s (snd (sub_create K X s n tn t at now opts))"
      proof (cases "sub_build_record n tn t now opts")
        case f: (Inr f)
        then have "sr_id (f i) = i" by (rule sub_build_record_id)
        with sub_store_progress [OF _ ok, of "f i" j s1] j fresh show ?thesis
          by (auto simp: sub_create_def f Pair Inr Let_def progress.refl intro: progress.trans [OF s1])
      qed (simp add: sub_create_def progress.refl)
      then show ?thesis
        using progress_other [of j] fresh by (cases "sub = i") (auto simp: j_def not_le)
    qed
  qed
  then show ?thesis by (auto simp: progress_def)
qed

end

section \<open>The engine\<close>

definition eng_progress :: "'s kv_ops \<Rightarrow> ('s \<Rightarrow> bool) \<Rightarrow> ext \<Rightarrow> u64 \<Rightarrow> 's engine \<Rightarrow> 's engine \<Rightarrow> bool" where
  "eng_progress K good X sub e e' \<longleftrightarrow>
     (good (eng_kv e) \<and> store_inv X (kv_view K (eng_kv e)) \<and> lease_table_wf (eng_leases e) \<longrightarrow>
        good (eng_kv e') \<and> store_inv X (kv_view K (eng_kv e')) \<and> lease_table_wf (eng_leases e') \<and>
        advances X sub (kv_view K (eng_kv e)) (kv_view K (eng_kv e')))"

interpretation eng_progress: step_frame "eng_progress K good X sub" for K good X sub
  by unfold_locales (auto simp: eng_progress_def intro: advances_trans)

lemma eng_quiet_progress: "eng_quiet K good e e' \<Longrightarrow> eng_progress K good X sub e e'"
  using quiet_progress [of K good "eng_kv e" "eng_kv e'" X sub]
  by (auto simp: eng_quiet_def eng_progress_def progress_def)

lemma eng_progress_on_kv [quiet_rules]:
  "progress K good X sub (eng_kv e) (snd (f (eng_kv e))) \<Longrightarrow> eng_progress K good X sub e (snd (on_kv e f))"
  by (cases "f (eng_kv e)") (simp add: eng_progress_def progress_def on_kv_def)

lemma eng_progressI:
  "(good (eng_kv e) \<Longrightarrow> store_inv X (kv_view K (eng_kv e)) \<Longrightarrow> lease_table_wf (eng_leases e) \<Longrightarrow>
      eng_progress K good X sub e e') \<Longrightarrow> eng_progress K good X sub e e'"
  by (auto simp: eng_progress_def)

context store_env
begin

lemma load_cursor_at:
  "load_cursor K X s i = Inr c \<longleftrightarrow> cursor_at X (V s) i = Some c"
  by (auto simp: load_cursor_def cursor_at_def bind_r_Inr_iff ok_or_Inr_iff kv_get_view bind_eq_Some_conv)

lemma load_cursor_inv:
  assumes "store_inv X (V s)" and "load_cursor K X s i = Inr c"
  shows "cursor_ok c" and "i \<le> counter_value (V s) id_seq_key"
proof -
  obtain b where b: "V s (''sub'', cursor_key i) = Some b" "cursor_decode X b = Some c"
    using assms(2) by (auto simp: load_cursor_at cursor_at_def bind_eq_Some_conv)
  moreover from this(1) obtain c' where "cursor_decode X b = Some c'" "cursor_ok c'"
    "i \<le> counter_value (V s) id_seq_key"
    using assms(1) unfolding store_inv_def by blast
  ultimately show "cursor_ok c" and "i \<le> counter_value (V s) id_seq_key" by simp_all
qed

text \<open>A cursor written back after quiet work on what was loaded.\<close>

lemma save_cursor_progress:
  assumes q: "eng_quiet K wf e e1" and wf: "wf (eng_kv e)" and inv: "store_inv X (V (eng_kv e))"
    and c: "load_cursor K X (eng_kv e) i = Inr c" and c': "cursor_ok c'" "done_seqs c \<subseteq> done_seqs c'"
  shows "eng_progress K wf X sub e (snd (on_kv e1 (\<lambda>s. save_cursor K X s i c')))"
proof -
  have q1: "quiet K wf (eng_kv e) (eng_kv e1)" using q by (simp add: eng_quiet_def)
  have at: "cursor_at X (V (eng_kv e1)) i = Some c"
    using q1 wf c by (simp add: load_cursor_at cursor_at_def quiet_def)
  have "progress K wf X sub (eng_kv e1) (snd (save_cursor K X (eng_kv e1) i c'))"
    unfolding save_cursor_def
  proof (rule progress_put_cursor [OF c'(1)])
    show "i \<le> counter_value (V (eng_kv e1)) id_seq_key"
      using load_cursor_inv(2) [OF inv c] progress_counter [OF q1 wf] by simp
    show "\<exists>c. cursor_at X (V (eng_kv e1)) sub = Some c \<and> done_seqs c \<subseteq> done_seqs c'" if "i = sub"
      using at c'(2) that by blast
  qed
  then show ?thesis
    by (intro eng_progress.trans [OF eng_quiet_progress [OF q]] eng_progress_on_kv)
qed

lemma lease_next_progress: "eng_progress K wf X sub e (snd (lease_next K X e i t mx now secs))"
proof (rule eng_progressI)
  assume wf: "wf (eng_kv e)" and inv: "store_inv X (V (eng_kv e))" and T: "lease_table_wf (eng_leases e)"
  show "eng_progress K wf X sub e (snd (lease_next K X e i t mx now secs))"
  proof (cases "nat (max mx 0) = 0 \<or> (\<exists>x. load_cursor K X (eng_kv e) i = Inl x)")
    case True
    then show ?thesis by (auto simp: lease_next_def eng_progress.refl)
  next
    case False
    then obtain c where c: "load_cursor K X (eng_kv e) i = Inr c" by (cases "load_cursor K X (eng_kv e) i") auto
    let ?entries = "kv_scan_prefix K (eng_kv e) ''msg'' (msg_key_prefix t)"
    obtain flt fs where cf: "compiled_filter K X e i = (flt, e\<lparr>eng_filters := fs\<rparr>)"
      using compiled_filter_state [of e i] by (cases "compiled_filter K X e i") auto
    let ?e = "e\<lparr>eng_filters := fs\<rparr>"
    obtain x e1 where scan: "lease_scan K X i now secs flt (nat (max mx 0)) ?entries (c, False, []) ?e = (x, e1)"
      by fastforce
    have q: "eng_quiet K wf e e1"
      using eng_quiet_trans [OF eng_quiet_others(3) quiet_lease_scan [of ?e]] scan by (metis snd_conv)
    show ?thesis
    proof (cases x)
      case (Inl err)
      then show ?thesis
        using False c cf scan eng_quiet_progress [OF q] by (simp add: lease_next_def Let_def)
    next
      case (Inr y)
      obtain c' ch' out where y: "y = (c', ch', out)" by (cases y)
      have srt: "sorted_wrt (<) (map fst ?entries)" "\<forall>(k, b) \<in> set ?entries. prefix (msg_key_prefix t) k"
        using wf scan_sorted scan_mem by auto
      have "scan_ok i t now secs flt ?entries out c ?e c' e1"
        using lease_scan_spec [OF _ load_cursor_inv(1) [OF inv c] srt scan [unfolded Inr y]] wf T by auto
      then have c': "cursor_ok c'" "done_seqs c \<subseteq> done_seqs c'" by (auto simp: scan_ok_def)
      have "eng_progress K wf X sub e (snd (bind_st (on_kv e1 (\<lambda>s. save_cursor K X s i c')) (\<lambda>_ e. (Inr out, e))))"
        by (intro eng_progress.bind_frame save_cursor_progress [OF q wf inv c c'] quiet_rules)
      then show ?thesis
        using False c cf scan eng_quiet_progress [OF q] by (simp add: lease_next_def Let_def Inr y)
    qed
  qed
qed

lemma acknowledge_progress: "eng_progress K wf X sub e (snd (acknowledge K X e i ids))"
proof (rule eng_progressI)
  assume wf: "wf (eng_kv e)" and inv: "store_inv X (V (eng_kv e))" and T: "lease_table_wf (eng_leases e)"
  show "eng_progress K wf X sub e (snd (acknowledge K X e i ids))"
  proof (cases "ids = [] \<or> (\<exists>x. load_cursor K X (eng_kv e) i = Inl x)")
    case True
    then show ?thesis by (auto simp: acknowledge_def eng_progress.refl)
  next
    case False
    then obtain c where c: "load_cursor K X (eng_kv e) i = Inr c" by (cases "load_cursor K X (eng_kv e) i") auto
    obtain x e1 where loop: "ack_loop K X i ids (c, False) e = (x, e1)" by fastforce
    have q: "eng_quiet K wf e e1" using quiet_ack_loop [of e i ids "(c, False)"] loop by simp
    show ?thesis
    proof (cases x)
      case (Inl err)
      then show ?thesis
        using False c loop eng_quiet_progress [OF q] by (simp add: acknowledge_def)
    next
      case (Inr y)
      obtain c' ch' where y: "y = (c', ch')" by (cases y)
      have c': "cursor_ok c'" "done_seqs c \<subseteq> done_seqs c'"
        using ack_loop_spec [OF _ load_cursor_inv(1) [OF inv c] loop [unfolded Inr y]] wf T by auto
      show ?thesis
        using False c loop eng_quiet_progress [OF q] save_cursor_progress [OF q wf inv c c']
        by (simp add: acknowledge_def Inr y)
    qed
  qed
qed

lemma restore_cursor_progress:
  assumes "cursor_ok c" and "i \<noteq> sub" and "i \<le> counter_value (V (eng_kv e)) id_seq_key"
  shows "eng_progress K wf X sub e (snd (restore_cursor K X e i c))"
proof (rule eng_progressI)
  assume wf: "wf (eng_kv e)" and inv: "store_inv X (V (eng_kv e))" and T: "lease_table_wf (eng_leases e)"
  obtain qs T where rm: "lease_remove_all_for_subscription (eng_leases e) i = (qs, T)" by fastforce
  let ?e = "e\<lparr>eng_leases := T\<rparr>"
  let ?f = "\<lambda>s. bind_st (delete_keys K (map (delivery_key i) qs) s) (\<lambda>_ s.
    bind_st (delete_keys K (map fst (kv_scan_prefix K s ''dlv'' (delivery_key_prefix i))) s) (\<lambda>_ s. (Inr (), s)))"
  have q0: "eng_quiet K wf e ?e" using remove_all_spec(1) [OF _ rm] by (intro eng_quiet_leases)
  have q1: "quiet K wf s (snd (?f s))" for s by (intro quiet_rules)
  have q: "quiet K wf (eng_kv e) (snd (?f (eng_kv e)))" by (rule q1)
  obtain x s1 where f: "?f (eng_kv e) = (x, s1)" by fastforce
  have run: "restore_cursor K X e i c = on_kv ?e (\<lambda>s. bind_st (?f s) (\<lambda>_ s. save_cursor K X s i c))"
    by (auto simp: restore_cursor_def rm bind_st_def on_kv_def split: prod.split sum.split)
  have "i \<le> counter_value (V s1) id_seq_key"
    using assms(3) progress_counter [OF q wf] f by simp
  then have "progress K wf X sub s1 (snd (save_cursor K X s1 i c))"
    unfolding save_cursor_def using assms(1,2) by (intro progress_put_cursor) auto
  then have "progress K wf X sub (eng_kv ?e) (snd (bind_st (?f (eng_kv ?e)) (\<lambda>_ s. save_cursor K X s i c)))"
    using progress.trans [OF quiet_progress [OF q]] quiet_progress [OF q] f
    by (cases x) (simp_all add: bind_st_def)
  then show "eng_progress K wf X sub e (snd (restore_cursor K X e i c))"
    unfolding run by (intro eng_progress.trans [OF eng_quiet_progress [OF q0]] eng_progress_on_kv)
qed

end

end
