(* ===== verification/Service_Steps.thy ===== *)
theory Service_Steps
  imports Progress
begin

text \<open>
  The service as a state machine: every operation of \<open>PubSubService\<close> that changes state, and
  the restart of the process, as one step. A step keeps the result of the operation out of
  sight, so it stands for the operation's success as well as for any of its errors.
\<close>

section \<open>Steps\<close>

datatype svc_op =
    CreateTopic string attributes "int option" "string option" bool bool
  | UpdateTopic string "attributes option" "int option option" "string option option"
  | DeleteTopic string
  | Publish int string "publish_message list"
  | Pull int string int
  | PullWaiter string
  | Acknowledge int string "string list"
  | ModifyAckDeadline int string "string list" int
  | SweepSubscription int u64 int
  | SweepRetention int
  | CreateSubscription int string string create_subscription_options
  | UpdateSubscription string subscription_update_patch
  | DeleteSubscription string
  | DetachSubscription string
  | ModifyPushConfig string "push_config option"
  | OpenStream string int int int
  | UpdateStream u64 "int option" "int option" "int option"
  | LeaseForStream int u64
  | StreamWaiter u64
  | StreamAcknowledge int u64 u64 "string list"
  | StreamModifyAckDeadline int u64 u64 "string list" int
  | CloseStream u64
  | CreateSnapshot int string string attributes
  | UpdateSnapshotLabels string attributes
  | DeleteSnapshot string
  | SweepSnapshots nat int string
  | SeekToSnapshot string string
  | SeekToTime string int
  | Restart

fun svc_exec :: "'s kv_ops \<Rightarrow> ext \<Rightarrow> svc_op \<Rightarrow> 's service \<Rightarrow> 's service" where
  "svc_exec K X (CreateTopic n l r k sch ing) v = snd (svc_create_topic_full K X v n l r k sch ing)"
| "svc_exec K X (UpdateTopic n l r k) v = snd (svc_update_topic_full K X v n l r k)"
| "svc_exec K X (DeleteTopic n) v = snd (svc_delete_topic K X v n)"
| "svc_exec K X (Publish now n ms) v = snd (svc_publish K X v now n ms)"
| "svc_exec K X (Pull now n mx) v = snd (svc_pull K X v now n mx)"
| "svc_exec K X (PullWaiter n) v = snd (svc_pull_waiter K X v n)"
| "svc_exec K X (Acknowledge now n ids) v = snd (svc_acknowledge K X v now n ids)"
| "svc_exec K X (ModifyAckDeadline now n ids secs) v = snd (svc_modify_ack_deadline K X v now n ids secs)"
| "svc_exec K X (SweepSubscription now i grace) v = snd (svc_sweep_subscription X v now i grace)"
| "svc_exec K X (SweepRetention now) v = snd (svc_sweep_retention K X v now)"
| "svc_exec K X (CreateSubscription now n t opts) v = snd (svc_create_subscription K X v now n t opts)"
| "svc_exec K X (UpdateSubscription n p) v = snd (svc_update_subscription K X v n p)"
| "svc_exec K X (DeleteSubscription n) v = snd (svc_delete_subscription K X v n)"
| "svc_exec K X (DetachSubscription n) v = snd (svc_detach_subscription K X v n)"
| "svc_exec K X (ModifyPushConfig n p) v = snd (svc_modify_push_config K X v n p)"
| "svc_exec K X (OpenStream n secs mm mb) v = snd (svc_open_stream K X v n secs mm mb)"
| "svc_exec K X (UpdateStream i secs mm mb) v = svc_update_stream v i secs mm mb"
| "svc_exec K X (LeaseForStream now i) v = snd (svc_lease_for_stream K X v now i)"
| "svc_exec K X (StreamWaiter i) v = svc_stream_waiter v i"
| "svc_exec K X (StreamAcknowledge now i sub ids) v = snd (svc_stream_acknowledge K X v now i sub ids)"
| "svc_exec K X (StreamModifyAckDeadline now i sub ids secs) v =
     snd (svc_stream_modify_ack_deadline K X v now i sub ids secs)"
| "svc_exec K X (CloseStream i) v = svc_close_stream K v i"
| "svc_exec K X (CreateSnapshot now n sub l) v = snd (svc_create_snapshot K X v now n sub l)"
| "svc_exec K X (UpdateSnapshotLabels n l) v = snd (svc_update_snapshot_labels K X v n l)"
| "svc_exec K X (DeleteSnapshot n) v = snd (svc_delete_snapshot K v n)"
| "svc_exec K X (SweepSnapshots fuel now p) v =
     (case svc_sweep_expired_snapshots fuel K X v now p of None \<Rightarrow> v | Some (r, v') \<Rightarrow> v')"
| "svc_exec K X (SeekToSnapshot n snap) v = snd (svc_seek_to_snapshot K X v n snap)"
| "svc_exec K X (SeekToTime n t) v = snd (svc_seek_to_time K X v n t)"
| "svc_exec K X Restart v = with_max_disk_bytes (service_new K X (svc_kv v)) (svc_max_disk_bytes v)"

text \<open>Whether an operation seeks the subscription with id \<open>sub\<close>.\<close>

fun seeks :: "'s kv_ops \<Rightarrow> ext \<Rightarrow> 's service \<Rightarrow> u64 \<Rightarrow> svc_op \<Rightarrow> bool" where
  "seeks K X v sub (SeekToSnapshot n snap) =
     (case sub_get K X (svc_kv v) n of Inr r \<Rightarrow> sr_id r = sub | Inl _ \<Rightarrow> False)"
| "seeks K X v sub (SeekToTime n t) =
     (case sub_get K X (svc_kv v) n of Inr r \<Rightarrow> sr_id r = sub | Inl _ \<Rightarrow> False)"
| "seeks K X v sub op = False"

text \<open>The states reachable without seeking \<open>sub\<close>, and all reachable states.\<close>

inductive svc_run :: "'s kv_ops \<Rightarrow> ext \<Rightarrow> u64 \<Rightarrow> 's service \<Rightarrow> 's service \<Rightarrow> bool"
  for K X sub v where
  start: "svc_run K X sub v v"
| step: "svc_run K X sub v v' \<Longrightarrow> \<not> seeks K X v' sub op \<Longrightarrow> svc_run K X sub v (svc_exec K X op v')"

inductive svc_reachable :: "'s kv_ops \<Rightarrow> ext \<Rightarrow> 's \<Rightarrow> 's service \<Rightarrow> bool"
  for K X s0 where
  initial: "svc_reachable K X s0 (service_new K X s0)"
| step: "svc_reachable K X s0 v \<Longrightarrow> svc_reachable K X s0 (svc_exec K X op v)"

section \<open>Every step makes progress\<close>

text \<open>Message \<open>q\<close> is done for the existing subscription \<open>i\<close>, or \<open>i\<close> has no cursor any more.\<close>

definition settled :: "ext \<Rightarrow> view \<Rightarrow> u64 \<Rightarrow> u64 \<Rightarrow> bool" where
  "settled X W i q \<longleftrightarrow>
     i \<le> counter_value W id_seq_key \<and> (\<forall>c. cursor_at X W i = Some c \<longrightarrow> q \<in> done_seqs c)"

definition svc_progress :: "'s kv_ops \<Rightarrow> ('s \<Rightarrow> bool) \<Rightarrow> ext \<Rightarrow> u64 \<Rightarrow> 's service \<Rightarrow> 's service \<Rightarrow> bool" where
  "svc_progress K good X sub v v' \<longleftrightarrow> eng_progress K good X sub (svc_engine v) (svc_engine v')"

interpretation svc_progress: step_frame "svc_progress K good X sub" for K good X sub
  by unfold_locales (auto simp: svc_progress_def eng_progress.refl intro: eng_progress.trans)

lemma svc_progress_on_engine [quiet_rules]:
  "eng_progress K good X sub (svc_engine v) (snd (f (svc_engine v))) \<Longrightarrow>
     svc_progress K good X sub v (snd (on_engine v f))"
  by (cases "f (svc_engine v)") (simp add: svc_progress_def on_engine_def)

lemma svc_progress_on_store [quiet_rules]:
  "progress K good X sub (svc_kv v) (snd (f (svc_kv v))) \<Longrightarrow> svc_progress K good X sub v (snd (on_store v f))"
  unfolding on_store_def by (intro svc_progress_on_engine eng_progress_on_kv)

lemma svc_progress_engine:
  "eng_progress K good X sub (svc_engine v) e \<Longrightarrow> svc_progress K good X sub v (v\<lparr>svc_engine := e\<rparr>)"
  by (simp add: svc_progress_def)

lemma waiter_quiet: "eng_quiet K good e (waiter e i)"
  by (auto simp: waiter_def eng_quiet_refl eng_quiet_others split: option.split)

context store_env
begin

abbreviation svc_inv :: "'s service \<Rightarrow> bool" where
  "svc_inv v \<equiv> wf (svc_kv v) \<and> store_inv X (V (svc_kv v)) \<and> lease_table_wf (eng_leases (svc_engine v))"

lemma svc_touch_progress [quiet_rules]: "svc_progress K wf X sub v (svc_touch K X v i now)"
  unfolding svc_touch_def ignore_result_def by (intro quiet_rules sub_touch_progress)

lemma pull_progress: "svc_progress K wf X sub v (snd (svc_pull K X v now n mx))"
  unfolding svc_pull_def Let_def by (intro quiet_rules lease_next_progress)

lemma publish_progress: "svc_progress K wf X sub v (snd (svc_publish K X v now n ms))"
proof -
  have "svc_progress K wf X sub v (if b then v\<lparr>svc_engine := notify_published (svc_engine v) is\<rparr> else v)" for b v "is"
    by (auto simp: notify_published_def svc_progress.refl
        intro: svc_progress_engine eng_quiet_progress eng_quiet_others)
  then show ?thesis
    unfolding svc_publish_def Let_def by (intro quiet_rules progress_ops)
qed

lemma stream_ops_progress:
  "svc_progress K wf X sub v (snd (svc_lease_for_stream K X v now i))"
  "svc_progress K wf X sub v (snd (svc_stream_acknowledge K X v now i s ids))"
  "svc_progress K wf X sub v (snd (svc_stream_modify_ack_deadline K X v now i s ids secs))"
  "svc_progress K wf X sub v (svc_close_stream K v i)"
  "svc_progress K wf X sub v (snd (svc_open_stream K X v n secs mm mb))"
  "svc_progress K wf X sub v (svc_update_stream v i a b c)"
proof -
  have lease: "eng_progress K wf X sub e (snd (lease_for_stream K X e i now))" for e
    unfolding lease_for_stream_def Let_def
    by (auto intro!: quiet_rules lease_next_progress eng_quiet_progress [OF eng_quiet_others(1)] split: prod.split)
  show "svc_progress K wf X sub v (snd (svc_lease_for_stream K X v now i))"
    unfolding svc_lease_for_stream_def by (intro quiet_rules lease)
  have ack: "eng_progress K wf X sub e (snd (stream_acknowledge K X e i s ids))" for e
    unfolding stream_acknowledge_def
    by (intro quiet_rules acknowledge_progress eng_quiet_progress [OF eng_quiet_others(1)])
  show "svc_progress K wf X sub v (snd (svc_stream_acknowledge K X v now i s ids))"
    unfolding svc_stream_acknowledge_def by (intro quiet_rules ack)
  show "svc_progress K wf X sub v (snd (svc_stream_modify_ack_deadline K X v now i s ids secs))"
    unfolding svc_stream_modify_ack_deadline_def
    by (intro quiet_rules eng_quiet_progress [OF quiet_stream_modify])
  show "svc_progress K wf X sub v (svc_close_stream K v i)"
    unfolding svc_close_stream_def by (intro svc_progress_engine eng_quiet_progress quiet_stream_closed)
  show "svc_progress K wf X sub v (snd (svc_open_stream K X v n secs mm mb))"
    unfolding svc_open_stream_def open_stream_def
    by (auto intro!: quiet_rules svc_progress_engine eng_quiet_progress [OF eng_quiet_others(1)] split: prod.split)
  show "svc_progress K wf X sub v (svc_update_stream v i a b c)"
    unfolding svc_update_stream_def update_stream_def
    by (intro svc_progress_engine eng_quiet_progress [OF eng_quiet_others(1)])
qed

lemma create_snapshot_progress: "svc_progress K wf X sub v (snd (svc_create_snapshot K X v now n sn l))"
proof -
  have "svc_progress K wf X sub v (snd (svc_create_snapshot K X v now n sn l))" if "store_inv X (V (svc_kv v))"
  proof (cases "sub_get K X (svc_kv v) sn")
    case (Inr r)
    show ?thesis
    proof (cases "cursor_snapshot K X (svc_engine v) (sr_id r)")
      case c: (Inr c)
      then have "cursor_ok c" using load_cursor_inv(1) [OF that] by (simp add: cursor_snapshot_def)
      then show ?thesis
        unfolding svc_create_snapshot_def Inr c with_r_simps by (intro quiet_rules snapshot_create_progress)
    qed (simp add: svc_create_snapshot_def Inr svc_progress.refl)
  qed (simp add: svc_create_snapshot_def svc_progress.refl)
  then show ?thesis by (auto simp: svc_progress_def eng_progress_def)
qed

lemma seek_progress:
  "\<not> seeks K X v sub (SeekToSnapshot n snap) \<Longrightarrow> svc_progress K wf X sub v (snd (svc_seek_to_snapshot K X v n snap))"
  "\<not> seeks K X v sub (SeekToTime n t) \<Longrightarrow> svc_progress K wf X sub v (snd (svc_seek_to_time K X v n t))"
proof -
  have "svc_progress K wf X sub v (snd (svc_seek_to_snapshot K X v n snap))"
    if "\<not> seeks K X v sub (SeekToSnapshot n snap)" "store_inv X (V (svc_kv v))"
  proof (cases "sub_get K X (svc_kv v) n")
    case (Inr r)
    have r: "sr_id r \<noteq> sub" "sr_id r \<le> counter_value (V (svc_kv v)) id_seq_key"
      using that Inr sub_get_id by auto
    show ?thesis
    proof (cases "snapshot_get K X (svc_kv v) snap")
      case sn: (Inr x)
      show ?thesis
        unfolding svc_seek_to_snapshot_def Inr sn with_r_simps
        by (intro quiet_rules restore_cursor_progress r snapshot_get_cursor_ok [OF that(2) sn])
    qed (simp add: svc_seek_to_snapshot_def Inr svc_progress.refl)
  qed (simp add: svc_seek_to_snapshot_def svc_progress.refl)
  then show "\<not> seeks K X v sub (SeekToSnapshot n snap) \<Longrightarrow>
      svc_progress K wf X sub v (snd (svc_seek_to_snapshot K X v n snap))"
    by (auto simp: svc_progress_def eng_progress_def)
  have "svc_progress K wf X sub v (snd (svc_seek_to_time K X v n t))"
    if "\<not> seeks K X v sub (SeekToTime n t)" "store_inv X (V (svc_kv v))"
  proof (cases "sub_get K X (svc_kv v) n")
    case (Inr r)
    have "sr_id r \<noteq> sub" "sr_id r \<le> counter_value (V (svc_kv v)) id_seq_key"
      using that Inr sub_get_id by auto
    then show ?thesis
      unfolding svc_seek_to_time_def Inr with_r_simps Let_def
      by (intro quiet_rules restore_cursor_progress) (simp_all add: cursor_ok_def)
  qed (simp add: svc_seek_to_time_def svc_progress.refl)
  then show "\<not> seeks K X v sub (SeekToTime n t) \<Longrightarrow> svc_progress K wf X sub v (snd (svc_seek_to_time K X v n t))"
    by (auto simp: svc_progress_def eng_progress_def)
qed

lemma restart_progress: "svc_progress K wf X sub v (svc_exec K X Restart v)"
  using recover_spec [of "svc_kv v"]
  by (auto simp: svc_progress_def eng_progress_def with_max_disk_bytes_def service_new_def)

lemma sweeps_progress:
  "svc_progress K wf X sub v (snd (svc_sweep_subscription X v now i grace))"
  "svc_progress K wf X sub v (snd (svc_sweep_retention K X v now))"
  "svc_progress K wf X sub v (svc_exec K X (SweepSnapshots fuel now p) v)"
proof -
  show "svc_progress K wf X sub v (snd (svc_sweep_subscription X v now i grace))"
    using eng_quiet_progress [OF quiet_sweep [of "svc_engine v" i now grace]]
    by (auto simp: svc_sweep_subscription_def svc_progress_def split: prod.split)
  obtain st s where sw: "sweep_expired_messages K X (svc_kv v) now = (st, s)" by fastforce
  have "progress K wf X sub (svc_kv v) (snd (sub_sweep_expired K X s now))"
  proof (rule progress.trans [OF quiet_progress sub_sweep_progress])
    show "quiet K wf (svc_kv v) s" using quiet_sweep_messages [of "svc_kv v" now] by (simp add: sw)
  qed
  then show "svc_progress K wf X sub v (snd (svc_sweep_retention K X v now))"
    by (simp add: svc_sweep_retention_def sw svc_progress_def eng_progress_def progress_def ignore_result_def)
  show "svc_progress K wf X sub v (svc_exec K X (SweepSnapshots fuel now p) v)"
  proof (cases "snapshot_sweep_expired fuel K X (svc_kv v) p now")
    case (Some rs)
    then show ?thesis
      using snapshot_sweep_progress [of fuel "svc_kv v" p now "fst rs" "snd rs" sub]
      by (auto simp: svc_sweep_expired_snapshots_def svc_progress_def eng_progress_def progress_def split: prod.split)
  qed (simp add: svc_sweep_expired_snapshots_def svc_progress.refl)
qed

lemma svc_exec_progress:
  assumes "\<not> seeks K X v sub op"
  shows "svc_progress K wf X sub v (svc_exec K X op v)"
proof (cases op)
  case (DeleteTopic n)
  then show ?thesis
    by (simp add: svc_delete_topic_def) (intro quiet_rules detach_all_progress progress_ops)
next
  case (CreateSubscription now n t opts)
  then show ?thesis
    by (simp add: svc_create_subscription_def Let_def) (intro quiet_rules sub_create_progress)
next
  case (PullWaiter n)
  then show ?thesis
    by (simp add: svc_pull_waiter_def)
      (intro quiet_rules svc_progress_engine eng_quiet_progress [OF waiter_quiet])
next
  case (SeekToSnapshot n snap)
  then show ?thesis using assms seek_progress(1) by simp
next
  case (SeekToTime n t)
  then show ?thesis using assms seek_progress(2) by simp
next
  case Restart
  then show ?thesis using restart_progress by simp
next
  case (SweepSnapshots fuel now p)
  then show ?thesis using sweeps_progress(3) by simp
qed (auto simp: svc_create_topic_full_def svc_update_topic_full_def svc_acknowledge_def svc_modify_ack_deadline_def
    svc_update_subscription_def svc_delete_subscription_def svc_detach_subscription_def svc_modify_push_config_def
    svc_stream_waiter_def svc_update_snapshot_labels_def svc_delete_snapshot_def
    intro!: quiet_rules topic_create_progress progress_ops acknowledge_progress
    eng_quiet_progress [OF quiet_modify_ack_deadline] sub_update_progress sub_delete_progress sub_detach_progress
    sub_set_push_config_progress svc_progress_engine eng_quiet_progress [OF waiter_quiet]
    snapshot_update_progress snapshot_delete_progress stream_ops_progress pull_progress publish_progress
    sweeps_progress(1,2) create_snapshot_progress simp del: bind_st_simps)

section \<open>Reachable states\<close>

lemma not_seeking: "\<exists>sub. \<not> seeks K X v sub op"
proof -
  have "\<exists>sub. \<not> (case x of Inr r \<Rightarrow> sr_id r = sub | Inl _ \<Rightarrow> False)" for x :: "subscription_record result"
  proof (cases x)
    case (Inr r)
    then have "\<not> (case x of Inr r \<Rightarrow> sr_id r = sr_id r + 1 | Inl _ \<Rightarrow> False)" by simp
    with Inr show ?thesis by (intro exI [of _ "sr_id r + 1"]) simp
  qed simp
  then show ?thesis by (cases op) simp_all
qed

lemma svc_exec_inv: "svc_inv v \<Longrightarrow> svc_inv (svc_exec K X op v)"
  using not_seeking [of v op] svc_exec_progress [of v _ op] by (auto simp: svc_progress_def eng_progress_def)

lemma fold_exec_inv: "svc_inv v \<Longrightarrow> svc_inv (fold (svc_exec K X) ops v)"
  by (induction ops arbitrary: v) (simp_all add: svc_exec_inv del: svc_exec.simps)

lemma svc_new_inv:
  assumes "wf s" and "store_inv X (V s)"
  shows "svc_inv (service_new K X s)"
  using recover_spec [OF assms(1)] assms by (simp add: service_new_def)

lemma svc_reachable_inv:
  assumes "wf s" and "store_inv X (V s)" and "svc_reachable K X s v"
  shows "svc_inv v"
  using assms(3)
proof induction
  case initial
  show ?case using assms(1,2) by (rule svc_new_inv)
next
  case (step v op)
  then show ?case by (intro svc_exec_inv)
qed

lemma svc_run_progress: "svc_run K X sub v v' \<Longrightarrow> svc_progress K wf X sub v v'"
  by (induction rule: svc_run.induct)
    (auto intro: svc_progress.refl svc_progress.trans svc_exec_progress)

text \<open>What is acknowledged stays done, for as long as the subscription has a cursor.\<close>

lemma advances_settled: "advances X i W W' \<Longrightarrow> settled X W i q \<Longrightarrow> settled X W' i q"
  unfolding advances_def settled_def by (blast intro: order_trans)

lemma svc_run_settled:
  assumes "svc_inv v" and "settled X (V (svc_kv v)) i q" and "svc_run K X i v v'"
  shows "svc_inv v'" and "settled X (V (svc_kv v')) i q"
  using svc_run_progress [OF assms(3)] assms(1,2) advances_settled
  by (auto simp: svc_progress_def eng_progress_def)

lemma settled_not_leased:
  assumes "svc_inv v" and "settled X (V (svc_kv v)) i q"
    and pull: "lease_next K X (svc_engine v) i t mx now secs = (Inr out, e')"
  shows "q \<notin> d_seq ` set out"
proof (cases "nat (max mx 0) = 0")
  case True
  then show ?thesis using pull by (simp add: lease_next_def)
next
  case False
  then obtain c where c: "load_cursor K X (svc_kv v) i = Inr c"
    using pull by (auto simp: lease_next_def with_r_Inr_iff)
  then have "q \<in> done_seqs c" using assms(2) by (auto simp: settled_def load_cursor_at)
  then show ?thesis
    using lease_next_spec [OF _ c load_cursor_inv(1) [OF _ c] pull] assms(1) by force
qed

lemma engine_ack_settled:
  assumes inv: "svc_inv v" and ack: "acknowledge K X (svc_engine v) i ids = (Inr (), e1)"
    and v1: "v1 = svc_touch K X (v\<lparr>svc_engine := e1\<lparr>eng_streams := R\<rparr>\<rparr>) i now"
    and hit: "(i, q) \<in> ack_hits X (eng_leases (svc_engine v)) ids"
  shows "svc_inv v1" and "settled X (V (svc_kv v1)) i q"
proof -
  have "ids \<noteq> []" using hit by auto
  then obtain c0 where c0: "load_cursor K X (svc_kv v) i = Inr c0"
    using ack by (auto simp: acknowledge_def with_r_Inr_iff)
  have ok: "cursor_ok c0" using load_cursor_inv(1) [OF _ c0] inv by simp
  obtain c1 where c1: "load_cursor K X (eng_kv e1) i = Inr c1"
      "done_seqs c1 = done_seqs c0 \<union> snd ` ack_hits X (eng_leases (svc_engine v)) ids"
    using acknowledge_spec [OF _ c0 ok ack] inv by blast
  have inv1: "svc_inv (v\<lparr>svc_engine := e1\<lparr>eng_streams := R\<rparr>\<rparr>)"
    using acknowledge_progress [of i "svc_engine v" i ids] inv ack by (simp add: eng_progress_def)
  have "q \<in> done_seqs c1" using c1(2) hit by force
  then have "settled X (V (eng_kv e1)) i q"
    using load_cursor_inv(2) [OF _ c1(1)] inv1 c1(1) by (simp add: settled_def load_cursor_at)
  moreover have "svc_progress K wf X i (v\<lparr>svc_engine := e1\<lparr>eng_streams := R\<rparr>\<rparr>) v1"
    unfolding v1 by (rule svc_touch_progress)
  ultimately show "svc_inv v1" and "settled X (V (svc_kv v1)) i q"
    using inv1 advances_settled by (auto simp: svc_progress_def eng_progress_def)
qed

lemma acked_not_leased_again:
  assumes inv: "svc_inv v" and get: "sub_get K X (svc_kv v) n = Inr r"
    and ack: "svc_acknowledge K X v now n ids = (Inr (), v1)"
    and hit: "(sr_id r, q) \<in> ack_hits X (eng_leases (svc_engine v)) ids"
    and run: "svc_run K X (sr_id r) v1 v2"
    and pull: "lease_next K X (svc_engine v2) (sr_id r) t mx now' secs = (Inr out, e')"
  shows "q \<notin> d_seq ` set out"
proof -
  obtain e1 where e1: "acknowledge K X (svc_engine v) (sr_id r) ids = (Inr (), e1)"
    and v1: "v1 = svc_touch K X (v\<lparr>svc_engine := e1\<lparr>eng_streams := eng_streams e1\<rparr>\<rparr>) (sr_id r) now"
    using ack get by (auto simp: svc_acknowledge_def bind_st_Inr_iff on_engine_def split: prod.splits)
  from svc_run_settled [OF engine_ack_settled [OF inv e1 v1 hit] run] pull show ?thesis
    by (rule settled_not_leased)
qed

lemma stream_acked_not_leased_again:
  assumes inv: "svc_inv v" and ack: "svc_stream_acknowledge K X v now st i ids = (Inr (), v1)"
    and hit: "(i, q) \<in> ack_hits X (eng_leases (svc_engine v)) ids"
    and run: "svc_run K X i v1 v2"
    and pull: "lease_next K X (svc_engine v2) i t mx now' secs = (Inr out, e')"
  shows "q \<notin> d_seq ` set out"
proof -
  obtain e1 where e1: "acknowledge K X (svc_engine v) i ids = (Inr (), e1)"
    and v1: "v1 = svc_touch K X (v\<lparr>svc_engine := e1\<lparr>eng_streams := resolve_acks X st ids (eng_streams e1)\<rparr>\<rparr>) i now"
    using ack
    by (auto simp: svc_stream_acknowledge_def stream_acknowledge_def bind_st_Inr_iff on_engine_def split: prod.splits)
  from svc_run_settled [OF engine_ack_settled [OF inv e1 v1 hit] run] pull show ?thesis
    by (rule settled_not_leased)
qed

end

section \<open>Runs\<close>

lemma svc_run_trans: "svc_run K X sub v1 v2 \<Longrightarrow> svc_run K X sub v0 v1 \<Longrightarrow> svc_run K X sub v0 v2"
  by (induction rule: svc_run.induct) (auto intro: svc_run.step)

lemma svc_run_exec: "\<not> seeks K X v sub op \<Longrightarrow> svc_run K X sub v (svc_exec K X op v)"
  by (intro svc_run.intros)

context store_env
begin

lemma svc_run_inv: "svc_run K X sub v v' \<Longrightarrow> svc_inv v \<Longrightarrow> svc_inv v'"
  using svc_run_progress [of sub v v'] by (simp add: svc_progress_def eng_progress_def)

end

end
