(* ===== verification/Push.thy ===== *)
theory Push
  imports Service_Steps
begin

text \<open>
  Push delivery, \<open>crates/open-pubusb-core/src/push\<close>: the request built for a message
  (\<open>envelope.rs\<close>), the dispatcher task of one subscription (\<open>dispatcher.rs\<close>) and the manager
  that starts and stops dispatchers (\<open>manager.rs\<close>).

  \<^item> The libraries behind the envelope are the parameter \<open>push_ext\<close>: \<open>serde_json::to_vec\<close> on a
    JSON value, the standard base64 alphabet and \<open>jiff\<close>'s timestamp text. A JSON object is an
    association list with distinct keys.
  \<^item> The HTTP client is a function from the request to the status of the response, \<open>None\<close>
    when no response came; every delivery may use another function.
  \<^item> The dispatcher and the delivery tasks it spawns run concurrently with every other user of
    the service. Their interleaving is a step relation: one step is what the source does between
    two points where it may be suspended.
\<close>

section \<open>Envelope\<close>

datatype json = JNull | JBool bool | JNum int | JStr string | JArr "json list" | JObj "(string, json) hashmap"

record push_ext =
  json_to_vec :: "json \<Rightarrow> bytes option"
  b64_standard :: "bytes \<Rightarrow> string"
  jiff_timestamp :: "int \<Rightarrow> string option"

record push_request_body =
  rb_body :: bytes
  rb_content_type :: string
  rb_extra_headers :: "(string \<times> string) list"

definition rfc3339 :: "push_ext \<Rightarrow> int \<Rightarrow> string" where
  "rfc3339 P ms_since_epoch =
     (case jiff_timestamp P ms_since_epoch of Some t \<Rightarrow> t | None \<Rightarrow> ''1970-01-01T00:00:00Z'')"

definition build_wrapped :: "push_ext \<Rightarrow> string \<Rightarrow> pulled_message \<Rightarrow> u32 option \<Rightarrow> push_request_body" where
  "build_wrapped P subscription_full_name msg delivery_attempt =
     (let data_b64 = b64_standard P (pl_data msg);
          publish_time = rfc3339 P (pl_publish_time_ms msg);
          message =
            [(''data'', JStr data_b64),
             (''attributes'', JObj (map (map_prod id JStr) (pl_attributes msg))),
             (''messageId'', JStr (pl_message_id msg)), (''message_id'', JStr (pl_message_id msg)),
             (''publishTime'', JStr publish_time), (''publish_time'', JStr publish_time)];
          message =
            (if pl_ordering_key msg \<noteq> [] then
               hm_insert ''ordering_key'' (JStr (pl_ordering_key msg))
                 (hm_insert ''orderingKey'' (JStr (pl_ordering_key msg)) message)
             else message);
          message =
            (case delivery_attempt of
               Some attempt \<Rightarrow>
                 hm_insert ''delivery_attempt'' (JNum (uint attempt))
                   (hm_insert ''deliveryAttempt'' (JNum (uint attempt)) message)
             | None \<Rightarrow> message);
          envelope = JObj [(''message'', JObj message), (''subscription'', JStr subscription_full_name)]
      in \<lparr>rb_body = unwrap_or_default (json_to_vec P envelope),
          rb_content_type = ''application/json'', rb_extra_headers = []\<rparr>)"

definition build_no_wrapper :: "push_ext \<Rightarrow> string \<Rightarrow> pulled_message \<Rightarrow> bool \<Rightarrow> push_request_body" where
  "build_no_wrapper P subscription_full_name msg write_metadata =
     (let headers =
            [(''x-goog-pubsub-subscription-name'', subscription_full_name),
             (''x-goog-pubsub-message-id'', pl_message_id msg),
             (''x-goog-pubsub-publish-time'', rfc3339 P (pl_publish_time_ms msg))];
          headers =
            (if pl_ordering_key msg \<noteq> [] then headers @ [(''x-goog-pubsub-ordering-key'', pl_ordering_key msg)]
             else headers);
          headers = (if write_metadata then headers @ pl_attributes msg else headers)
      in \<lparr>rb_body = pl_data msg, rb_content_type = ''application/octet-stream'', rb_extra_headers = headers\<rparr>)"

definition build ::
    "push_ext \<Rightarrow> string \<Rightarrow> pulled_message \<Rightarrow> u32 option \<Rightarrow> bool \<Rightarrow> bool \<Rightarrow> push_request_body" where
  "build P subscription_full_name msg delivery_attempt no_wrapper write_metadata =
     (if no_wrapper then build_no_wrapper P subscription_full_name msg write_metadata
      else build_wrapped P subscription_full_name msg delivery_attempt)"

section \<open>One delivery\<close>

definition SUCCESS_CODES :: "nat list" where
  "SUCCESS_CODES = [102, 200, 201, 202, 204]"

text \<open>The arguments a dispatcher is spawned with.\<close>

record dispatcher_args =
  da_subscription_full_name :: string
  da_sub_id :: u64
  da_ack_deadline_secs :: int
  da_min_retry_backoff_secs :: int
  da_max_retry_backoff_secs :: int
  da_dead_letter_configured :: bool
  da_push_config :: push_config
  da_push_timeout_secs :: u64
  da_max_concurrency :: u32

record http_request =
  rq_url :: string
  rq_headers :: "(string \<times> string) list"
  rq_body :: bytes

definition push_request :: "push_ext \<Rightarrow> dispatcher_args \<Rightarrow> pulled_message \<Rightarrow> http_request" where
  "push_request P A msg =
     (let body = build P (da_subscription_full_name A) msg
            (if da_dead_letter_configured A then Some (pl_delivery_attempt msg) else None)
            (pc_no_wrapper (da_push_config A)) (pc_write_metadata (da_push_config A))
      in \<lparr>rq_url = pc_endpoint (da_push_config A),
          rq_headers = (''Content-Type'', rb_content_type body) # rb_extra_headers body,
          rq_body = rb_body body\<rparr>)"

text \<open>\<open>Duration::as_secs\<close>, and the deadline a failed attempt is put off by.\<close>

definition dur_as_secs :: "nat \<Rightarrow> nat" where
  "dur_as_secs d = d div 1000000000"

definition retry_deadline_secs :: "dispatcher_args \<Rightarrow> u32 \<Rightarrow> int" where
  "retry_deadline_secs A attempt =
     wrap_i32 (min (int (max (dur_as_secs (backoff_for_attempts attempt
       (da_min_retry_backoff_secs A) (da_max_retry_backoff_secs A))) 1)) i64_max)"

definition push_success :: "nat option \<Rightarrow> bool" where
  "push_success outcome = (case outcome of Some status \<Rightarrow> status \<in> set SUCCESS_CODES | None \<Rightarrow> False)"

definition deliver_one ::
    "'s kv_ops \<Rightarrow> ext \<Rightarrow> push_ext \<Rightarrow> (http_request \<Rightarrow> nat option) \<Rightarrow> int \<Rightarrow> dispatcher_args \<Rightarrow> u64 \<Rightarrow>
     pulled_message \<Rightarrow> 's service \<Rightarrow> 's service" where
  "deliver_one K X P send now_ms A stream_id msg v =
     (if push_success (send (push_request P A msg))
      then snd (svc_stream_acknowledge K X v now_ms stream_id (da_sub_id A) [pl_ack_id msg])
      else snd (svc_stream_modify_ack_deadline K X v now_ms stream_id (da_sub_id A) [pl_ack_id msg]
                  (retry_deadline_secs A (pl_delivery_attempt msg))))"

section \<open>The dispatcher task\<close>

datatype phase = Opening | Running | Draining | Stopped

text \<open>
  \<open>dp_queue\<close> are the leased messages the loop has not yet spawned a delivery for and
  \<open>dp_inflight\<close> those whose delivery task runs; each of the latter holds one permit of the
  semaphore.
\<close>

record 's dispatcher =
  dp_svc :: "'s service"
  dp_phase :: phase
  dp_stream :: u64
  dp_queue :: "pulled_message list"
  dp_inflight :: "pulled_message list"
  dp_cancelled :: bool

definition dispatcher_new :: "'s service \<Rightarrow> 's dispatcher" where
  "dispatcher_new v = \<lparr>dp_svc = v, dp_phase = Opening, dp_stream = 0, dp_queue = [], dp_inflight = [], dp_cancelled = False\<rparr>"

definition concurrency :: "dispatcher_args \<Rightarrow> u32" where
  "concurrency A = max (da_max_concurrency A) 1"

text \<open>From the start of the task to the loop; \<open>client_ok\<close> is whether the HTTP client could be built.\<close>

definition dispatcher_open ::
    "'s kv_ops \<Rightarrow> ext \<Rightarrow> dispatcher_args \<Rightarrow> bool \<Rightarrow> 's dispatcher \<Rightarrow> 's dispatcher" where
  "dispatcher_open K X A client_ok d =
     (case svc_open_stream K X (dp_svc d) (da_subscription_full_name A) (da_ack_deadline_secs A)
             (uint (concurrency A)) 0 of
        (Inl e, v) \<Rightarrow> d\<lparr>dp_svc := v, dp_phase := Stopped\<rparr>
      | (Inr (stream_id, _), v) \<Rightarrow>
          if client_ok
          then d\<lparr>dp_svc := svc_stream_waiter v (da_sub_id A), dp_phase := Running, dp_stream := stream_id\<rparr>
          else d\<lparr>dp_svc := svc_close_stream K v stream_id, dp_phase := Stopped, dp_stream := stream_id\<rparr>)"

text \<open>One turn of the loop, up to the first suspension.\<close>

definition dispatcher_poll :: "'s kv_ops \<Rightarrow> ext \<Rightarrow> int \<Rightarrow> 's dispatcher \<Rightarrow> 's dispatcher" where
  "dispatcher_poll K X now_ms d =
     (if dp_cancelled d then d\<lparr>dp_phase := Draining\<rparr>
      else case svc_lease_for_stream K X (dp_svc d) now_ms (dp_stream d) of
             (Inr messages, v) \<Rightarrow> d\<lparr>dp_svc := v, dp_queue := messages\<rparr>
           | (Inl e, v) \<Rightarrow> d\<lparr>dp_svc := v, dp_phase := Draining\<rparr>)"

inductive dispatcher_step ::
    "'s kv_ops \<Rightarrow> ext \<Rightarrow> push_ext \<Rightarrow> dispatcher_args \<Rightarrow> 's dispatcher \<Rightarrow> 's dispatcher \<Rightarrow> bool"
  for K X P A where
  opens: "dp_phase d = Opening \<Longrightarrow> dispatcher_step K X P A d (dispatcher_open K X A client_ok d)"
| poll: "dp_phase d = Running \<Longrightarrow> dp_queue d = [] \<Longrightarrow> dispatcher_step K X P A d (dispatcher_poll K X now_ms d)"
| spawn: "dp_phase d = Running \<Longrightarrow> dp_queue d = msg # rest \<Longrightarrow> length (dp_inflight d) < unat (concurrency A) \<Longrightarrow>
    dispatcher_step K X P A d (d\<lparr>dp_queue := rest, dp_inflight := dp_inflight d @ [msg]\<rparr>)"
| deliver: "dp_inflight d = before @ msg # after \<Longrightarrow>
    dispatcher_step K X P A d
      (d\<lparr>dp_svc := deliver_one K X P send now_ms A (dp_stream d) msg (dp_svc d), dp_inflight := before @ after\<rparr>)"
| close: "dp_phase d = Draining \<Longrightarrow> dp_inflight d = [] \<Longrightarrow>
    dispatcher_step K X P A d (d\<lparr>dp_svc := svc_close_stream K (dp_svc d) (dp_stream d), dp_phase := Stopped\<rparr>)"
| cancel: "dispatcher_step K X P A d (d\<lparr>dp_cancelled := True\<rparr>)"
| other: "op \<noteq> Restart \<Longrightarrow> dispatcher_step K X P A d (d\<lparr>dp_svc := svc_exec K X op (dp_svc d)\<rparr>)"

inductive dispatcher_reachable ::
    "'s kv_ops \<Rightarrow> ext \<Rightarrow> push_ext \<Rightarrow> dispatcher_args \<Rightarrow> 's service \<Rightarrow> 's dispatcher \<Rightarrow> bool"
  for K X P A v where
  start: "dispatcher_reachable K X P A v (dispatcher_new v)"
| step: "dispatcher_reachable K X P A v d \<Longrightarrow> dispatcher_step K X P A d d' \<Longrightarrow> dispatcher_reachable K X P A v d'"

section \<open>The manager\<close>

text \<open>
  A handle stands for the task it was spawned as, so it is the arguments of the spawn. What the
  manager does to the tasks is the list of events, in order: \<open>stop\<close> waits for the task to end.
\<close>

record push_entry =
  pe_push_config :: push_config
  pe_handle :: dispatcher_args

datatype push_event = Spawn dispatcher_args | Stop dispatcher_args

record push_manager =
  mg_entries :: "(u64, push_entry) hashmap"
  mg_push_timeout_secs :: u64
  mg_push_max_concurrency_per_sub :: u32

definition push_manager_new :: "u64 \<Rightarrow> u32 \<Rightarrow> push_manager" where
  "push_manager_new push_timeout_secs push_max_concurrency_per_sub =
     \<lparr>mg_entries = [], mg_push_timeout_secs = push_timeout_secs,
      mg_push_max_concurrency_per_sub = push_max_concurrency_per_sub\<rparr>"

definition spawn_args :: "push_manager \<Rightarrow> subscription_record \<Rightarrow> push_config \<Rightarrow> dispatcher_args" where
  "spawn_args M sub cfg =
     \<lparr>da_subscription_full_name = sr_name sub, da_sub_id = sr_id sub,
      da_ack_deadline_secs = sr_ack_deadline_secs sub,
      da_min_retry_backoff_secs = sr_min_retry_backoff_secs sub,
      da_max_retry_backoff_secs = sr_max_retry_backoff_secs sub,
      da_dead_letter_configured = (sr_dead_letter_topic sub \<noteq> None), da_push_config = cfg,
      da_push_timeout_secs = mg_push_timeout_secs M,
      da_max_concurrency = mg_push_max_concurrency_per_sub M\<rparr>"

definition needs_restart :: "push_config option \<Rightarrow> push_entry option \<Rightarrow> bool" where
  "needs_restart cfg entry =
     (case (cfg, entry) of
        (Some c, Some e) \<Rightarrow> pe_push_config e \<noteq> c
      | (Some _, None) \<Rightarrow> True
      | (None, Some _) \<Rightarrow> True
      | (None, None) \<Rightarrow> False)"

definition stop_entry :: "u64 \<Rightarrow> push_manager \<times> push_event list \<Rightarrow> push_manager \<times> push_event list" where
  "stop_entry i = (\<lambda>(M, evs).
     (case map_of (mg_entries M) i of
        Some entry \<Rightarrow> (M\<lparr>mg_entries := hm_remove i (mg_entries M)\<rparr>, evs @ [Stop (pe_handle entry)])
      | None \<Rightarrow> (M, evs)))"

definition reconcile_sub :: "subscription_record \<Rightarrow> push_manager \<times> push_event list \<Rightarrow> push_manager \<times> push_event list" where
  "reconcile_sub sub = (\<lambda>(M, evs).
     (if \<not> needs_restart (sr_push_config sub) (map_of (mg_entries M) (sr_id sub)) then (M, evs)
      else case stop_entry (sr_id sub) (M, evs) of (M, evs) \<Rightarrow>
        (case sr_push_config sub of
           Some cfg \<Rightarrow>
             (M\<lparr>mg_entries := hm_insert (sr_id sub)
                  \<lparr>pe_push_config = cfg, pe_handle = spawn_args M sub cfg\<rparr> (mg_entries M)\<rparr>,
              evs @ [Spawn (spawn_args M sub cfg)])
         | None \<Rightarrow> (M, evs))))"

definition reconcile :: "'s kv_ops \<Rightarrow> ext \<Rightarrow> 's service \<Rightarrow> push_manager \<Rightarrow> push_manager \<times> push_event list" where
  "reconcile K X v M =
     (let subs = svc_list_all_subscriptions K X v;
          seen = map sr_id subs;
          st = fold reconcile_sub subs (M, []);
          stale = filter (\<lambda>i. i \<notin> set seen) (map fst (mg_entries (fst st)))
      in fold stop_entry stale st)"

definition manager_shutdown :: "push_manager \<Rightarrow> push_manager \<times> push_event list" where
  "manager_shutdown M = (M\<lparr>mg_entries := []\<rparr>, map (\<lambda>(_, entry). Stop (pe_handle entry)) (mg_entries M))"

section \<open>One delivery: facts\<close>

lemma dur_as_secs_le: "d \<le> n * 1000000000 \<Longrightarrow> dur_as_secs d \<le> n"
  by (simp add: dur_as_secs_def)

lemma wrap_i32_id: "- (2 ^ 31) \<le> x \<Longrightarrow> x < 2 ^ 31 \<Longrightarrow> wrap_i32 x = x"
  by (simp add: wrap_i32_def mod_pos_pos_trivial)

lemma backoff_le:
  "backoff_for_attempts a lo hi \<le> max (nat (max hi 0) * 1000000000) (max (nat (max lo 0) * 1000000000) 100000000)"
  by (simp add: backoff_for_attempts_def Let_def dur_from_secs_def MIN_POSSIBLE_BACKOFF_def)

lemma retry_deadline_exact:
  assumes "da_min_retry_backoff_secs A \<le> 600" and "da_max_retry_backoff_secs A \<le> 600"
  shows "retry_deadline_secs A a = int (max (dur_as_secs (backoff_for_attempts a
      (da_min_retry_backoff_secs A) (da_max_retry_backoff_secs A))) 1)"
    and "1 \<le> retry_deadline_secs A a" and "retry_deadline_secs A a \<le> 600"
proof -
  let ?s = "dur_as_secs (backoff_for_attempts a (da_min_retry_backoff_secs A) (da_max_retry_backoff_secs A))"
  have "?s \<le> 600"
    using backoff_le [of a "da_min_retry_backoff_secs A" "da_max_retry_backoff_secs A"] assms
    by (intro dur_as_secs_le) linarith
  then show "retry_deadline_secs A a = int (max ?s 1)" "1 \<le> retry_deadline_secs A a"
    "retry_deadline_secs A a \<le> 600"
    by (simp_all add: retry_deadline_secs_def wrap_i32_id i64_max_def)
qed

section \<open>Dispatcher discipline\<close>

definition dispatcher_ok :: "dispatcher_args \<Rightarrow> 's dispatcher \<Rightarrow> bool" where
  "dispatcher_ok A d \<longleftrightarrow>
     length (dp_inflight d) \<le> unat (concurrency A) \<and>
     (dp_phase d \<noteq> Running \<longrightarrow> dp_queue d = []) \<and>
     (dp_phase d \<in> {Opening, Stopped} \<longrightarrow> dp_inflight d = [])"

lemma dispatcher_step_ok:
  assumes "dispatcher_step K X P A d d'" and "dispatcher_ok A d"
  shows "dispatcher_ok A d'"
  using assms
  by (induction rule: dispatcher_step.induct)
    (auto simp: dispatcher_ok_def dispatcher_open_def dispatcher_poll_def split: prod.split sum.split)

lemma dispatcher_reachable_ok: "dispatcher_reachable K X P A v d \<Longrightarrow> dispatcher_ok A d"
proof (induction rule: dispatcher_reachable.induct)
  case start
  show ?case by (simp add: dispatcher_ok_def dispatcher_new_def)
next
  case (step d d')
  show ?case by (rule dispatcher_step_ok [OF step.hyps(2) step.IH])
qed

lemma deliver_one_svc:
  obtains op where "op \<noteq> Restart" and "\<And>sub v'. \<not> seeks K X v' sub op"
    and "deliver_one K X P send now A st msg v = svc_exec K X op v"
proof (cases "push_success (send (push_request P A msg))")
  case True
  then show ?thesis
    using that [of "StreamAcknowledge now st (da_sub_id A) [pl_ack_id msg]"] by (simp add: deliver_one_def)
next
  case False
  then show ?thesis
    using that [of "StreamModifyAckDeadline now st (da_sub_id A) [pl_ack_id msg]
      (retry_deadline_secs A (pl_delivery_attempt msg))"] by (simp add: deliver_one_def)
qed

text \<open>A dispatcher changes the service only through the service's own operations.\<close>

lemma dispatcher_open_run: "svc_run K X sub (dp_svc d) (dp_svc (dispatcher_open K X A ok d))"
proof -
  let ?v = "svc_exec K X (OpenStream (da_subscription_full_name A) (da_ack_deadline_secs A) (uint (concurrency A)) 0) (dp_svc d)"
  have v: "svc_run K X sub (dp_svc d) ?v" by (intro svc_run_exec) simp
  moreover have "svc_run K X sub (dp_svc d) (svc_exec K X (StreamWaiter i) ?v)"
    "svc_run K X sub (dp_svc d) (svc_exec K X (CloseStream i) ?v)" for i
    by (intro svc_run.step [OF v]; simp)+
  ultimately show ?thesis
    by (auto simp: dispatcher_open_def split: prod.split sum.split)
qed

lemma dispatcher_poll_run: "svc_run K X sub (dp_svc d) (dp_svc (dispatcher_poll K X now d))"
  using svc_run_exec [of K X "dp_svc d" sub "LeaseForStream now (dp_stream d)"] svc_run.start [of K X sub "dp_svc d"]
  by (auto simp: dispatcher_poll_def split: prod.split sum.split)

lemma dispatcher_step_reachable:
  assumes "dispatcher_step K X P A d d'"
  shows "(\<exists>op. dp_svc d' = svc_exec K X op (dp_svc d)) \<or> (\<forall>sub. svc_run K X sub (dp_svc d) (dp_svc d'))"
  using assms
proof cases
  case (opens ok)
  then show ?thesis using dispatcher_open_run by blast
next
  case (poll now)
  then show ?thesis using dispatcher_poll_run by blast
next
  case (deliver before msg after send now)
  then show ?thesis
    using deliver_one_svc [of K X P send now A "dp_stream d" msg "dp_svc d"] by simp metis
next
  case close
  then have "dp_svc d' = svc_exec K X (CloseStream (dp_stream d)) (dp_svc d)" by simp
  then show ?thesis by blast
qed (auto intro: svc_run.start)

context store_env
begin

lemma dispatcher_reachable_inv: "dispatcher_reachable K X P A v d \<Longrightarrow> svc_inv v \<Longrightarrow> svc_inv (dp_svc d)"
proof (induction rule: dispatcher_reachable.induct)
  case start
  then show ?case by (simp add: dispatcher_new_def)
next
  case (step d d')
  then show ?case
    using dispatcher_step_reachable [OF step.hyps(2)] svc_exec_inv svc_run_inv by metis
qed

end

section \<open>Manager: facts\<close>

text \<open>
  The tasks alive after a list of events, as handles; spawning adds the task, stopping removes it.
\<close>

definition tasks_after :: "push_event list \<Rightarrow> dispatcher_args set \<Rightarrow> dispatcher_args set" where
  "tasks_after evs = fold (\<lambda>ev T. case ev of Spawn a \<Rightarrow> insert a T | Stop a \<Rightarrow> T - {a}) evs"

lemma tasks_after_append [simp]: "tasks_after (xs @ ys) T = tasks_after ys (tasks_after xs T)"
  by (simp add: tasks_after_def)

definition manager_ok :: "push_manager \<Rightarrow> bool" where
  "manager_ok M \<longleftrightarrow> hm_wf (mg_entries M) \<and>
     (\<forall>i e. map_of (mg_entries M) i = Some e \<longrightarrow> da_sub_id (pe_handle e) = i \<and> da_push_config (pe_handle e) = pe_push_config e)"

definition handles :: "push_manager \<Rightarrow> dispatcher_args set" where
  "handles M = pe_handle ` ran (map_of (mg_entries M))"

lemma handles_removed:
  assumes "m i = Some e" and "\<And>j e'. m j = Some e' \<Longrightarrow> da_sub_id (pe_handle e') = j"
  shows "pe_handle ` ran (m(i := None)) = pe_handle ` ran m - {pe_handle e}"
proof -
  have "j = i \<longleftrightarrow> pe_handle e' = pe_handle e" if "m j = Some e'" for j e'
    using assms that by (metis option.inject)
  then show ?thesis by (auto simp: ran_def image_iff)
qed

text \<open>
  A step of the manager logs what it does to the tasks: if the tasks alive are those of its
  entries before it, they are after it.
\<close>

definition logged :: "push_manager \<times> push_event list \<Rightarrow> push_manager \<times> push_event list \<Rightarrow> bool" where
  "logged st st' \<longleftrightarrow> (manager_ok (fst st) \<longrightarrow> manager_ok (fst st') \<and>
     mg_push_timeout_secs (fst st') = mg_push_timeout_secs (fst st) \<and>
     mg_push_max_concurrency_per_sub (fst st') = mg_push_max_concurrency_per_sub (fst st) \<and>
     (\<exists>new. snd st' = snd st @ new \<and> tasks_after new (handles (fst st)) = handles (fst st')))"

interpretation logged: step_frame logged
proof
  show "logged s s''" if "logged s s'" and "logged s' s''" for s s' s''
    using that unfolding logged_def by (metis append.assoc tasks_after_append)
qed (auto simp: logged_def tasks_after_def)

lemma stop_entry_logged: "logged st (stop_entry i st)"
proof (cases "map_of (mg_entries (fst st)) i")
  case None
  then show ?thesis by (cases st) (simp add: stop_entry_def logged.refl)
next
  case (Some e)
  obtain M evs where st: "st = (M, evs)" by (cases st)
  have "stop_entry i st = (M\<lparr>mg_entries := hm_remove i (mg_entries M)\<rparr>, evs @ [Stop (pe_handle e)])"
    using Some by (simp add: stop_entry_def st)
  moreover have "tasks_after [Stop (pe_handle e)] (handles M) = pe_handle ` ran ((map_of (mg_entries M))(i := None))"
    if "manager_ok M"
    using handles_removed [of "map_of (mg_entries M)" i e] Some that
    by (simp add: manager_ok_def handles_def tasks_after_def st del: map_of_eq_Some_iff)
  ultimately show ?thesis
    by (simp add: logged_def st manager_ok_def handles_def del: map_of_eq_Some_iff)
qed

lemma stop_entry_entries: "map_of (mg_entries (fst (stop_entry i st))) = (map_of (mg_entries (fst st)))(i := None)"
  by (auto simp: stop_entry_def split: prod.split option.split)

text \<open>The entry a subscription should have, given the one it has.\<close>

definition wanted :: "push_manager \<Rightarrow> subscription_record \<Rightarrow> push_entry option \<Rightarrow> push_entry option" where
  "wanted M sub entry =
     (case sr_push_config sub of
        None \<Rightarrow> None
      | Some cfg \<Rightarrow>
          if map_option pe_push_config entry = Some cfg then entry
          else Some \<lparr>pe_push_config = cfg, pe_handle = spawn_args M sub cfg\<rparr>)"

lemma wanted_restart: "\<not> needs_restart (sr_push_config sub) entry \<longleftrightarrow> wanted M sub entry = entry"
  by (auto simp: needs_restart_def wanted_def split: option.splits)

lemma reconcile_sub_spec:
  "logged st (reconcile_sub sub st)"
  "map_of (mg_entries (fst (reconcile_sub sub st))) =
     (map_of (mg_entries (fst st)))(sr_id sub := wanted (fst st) sub (map_of (mg_entries (fst st)) (sr_id sub)))"
  "wanted (fst st) sub (map_of (mg_entries (fst st)) (sr_id sub)) = map_of (mg_entries (fst st)) (sr_id sub) \<Longrightarrow>
     reconcile_sub sub st = st"
proof -
  let ?i = "sr_id sub"
  obtain M1 evs1 where st1: "stop_entry ?i st = (M1, evs1)" by (cases "stop_entry ?i st")
  have l1: "logged st (M1, evs1)" using stop_entry_logged [of st ?i] by (simp add: st1)
  have m1: "map_of (mg_entries M1) = (map_of (mg_entries (fst st)))(?i := None)"
    using stop_entry_entries [of ?i st] by (simp add: st1)
  have args: "spawn_args M1 sub cfg = spawn_args (fst st) sub cfg" for cfg
    using st1 by (auto simp: spawn_args_def stop_entry_def split: prod.splits option.splits)
  let ?add = "\<lambda>cfg. (M1\<lparr>mg_entries := hm_insert ?i \<lparr>pe_push_config = cfg, pe_handle = spawn_args M1 sub cfg\<rparr>
      (mg_entries M1)\<rparr>, evs1 @ [Spawn (spawn_args M1 sub cfg)])"
  have "map_of (mg_entries M1) ?i = None" using m1 by simp
  then have "handles (fst (?add cfg)) = insert (spawn_args M1 sub cfg) (handles M1)" for cfg
    by (simp add: handles_def ran_map_upd)
  moreover have "manager_ok M1 \<Longrightarrow> manager_ok (fst (?add cfg))" for cfg
    by (simp add: manager_ok_def spawn_args_def del: map_of_eq_Some_iff)
  ultimately have "logged (M1, evs1) (?add cfg)" for cfg
    by (simp add: logged_def tasks_after_def)
  then have add: "logged st (?add cfg)" for cfg using l1 logged.trans by blast
  have "reconcile_sub sub st = (if wanted (fst st) sub (map_of (mg_entries (fst st)) ?i) = map_of (mg_entries (fst st)) ?i
      then st else case sr_push_config sub of Some cfg \<Rightarrow> ?add cfg | None \<Rightarrow> (M1, evs1))"
    using wanted_restart [of sub "map_of (mg_entries (fst st)) ?i" "fst st"] st1
    by (cases st) (simp add: reconcile_sub_def)
  then show "logged st (reconcile_sub sub st)"
    and "map_of (mg_entries (fst (reconcile_sub sub st))) =
     (map_of (mg_entries (fst st)))(?i := wanted (fst st) sub (map_of (mg_entries (fst st)) ?i))"
    and "wanted (fst st) sub (map_of (mg_entries (fst st)) ?i) = map_of (mg_entries (fst st)) ?i \<Longrightarrow>
     reconcile_sub sub st = st"
    using l1 add by (auto simp: logged.refl m1 args wanted_def fun_upd_idem split: option.split)
qed

lemma wanted_params:
  "mg_push_timeout_secs M' = mg_push_timeout_secs M \<Longrightarrow>
   mg_push_max_concurrency_per_sub M' = mg_push_max_concurrency_per_sub M \<Longrightarrow> wanted M' = wanted M"
  by (auto simp: wanted_def spawn_args_def fun_eq_iff split: option.split)

abbreviation sub_table :: "subscription_record list \<Rightarrow> u64 \<Rightarrow> subscription_record option" where
  "sub_table subs \<equiv> map_of (map (\<lambda>s. (sr_id s, s)) subs)"

lemma reconcile_subs_entries:
  assumes "distinct (map sr_id subs)" and "manager_ok (fst st)"
  shows "map_of (mg_entries (fst (fold reconcile_sub subs st))) i =
    (case sub_table subs i of
       None \<Rightarrow> map_of (mg_entries (fst st)) i
     | Some sub \<Rightarrow> wanted (fst st) sub (map_of (mg_entries (fst st)) i))"
  using assms
proof (induction subs arbitrary: st)
  case (Cons sub subs)
  have "logged st (reconcile_sub sub st)" by (rule reconcile_sub_spec)
  then have "manager_ok (fst (reconcile_sub sub st))" "wanted (fst (reconcile_sub sub st)) = wanted (fst st)"
    using Cons.prems(2) by (auto simp: logged_def intro: wanted_params)
  moreover have "sub_table subs (sr_id sub) = None"
    using Cons.prems(1) by (auto simp: map_of_eq_None_iff)
  ultimately show ?case
    using Cons.IH [of "reconcile_sub sub st"] Cons.prems(1)
    by (auto simp: reconcile_sub_spec(2) simp del: map_of_eq_Some_iff split: option.split)
qed simp

lemma stop_entries_entries:
  "map_of (mg_entries (fst (fold stop_entry is st))) i =
     (if i \<in> set is then None else map_of (mg_entries (fst st)) i)"
  by (induction "is" arbitrary: st) (auto simp: stop_entry_entries)

lemma reconcile_logged: "logged (M, []) (reconcile K X v M)"
  unfolding reconcile_def Let_def
  by (rule logged.trans [OF logged.fold_frame logged.fold_frame]) (rule reconcile_sub_spec stop_entry_logged)+

lemma reconcile_entries:
  assumes "manager_ok M" and "distinct (map sr_id (svc_list_all_subscriptions K X v))"
  shows "map_of (mg_entries (fst (reconcile K X v M))) i =
    (case sub_table (svc_list_all_subscriptions K X v) i of
       None \<Rightarrow> None | Some sub \<Rightarrow> wanted M sub (map_of (mg_entries M) i))"
proof -
  let ?subs = "svc_list_all_subscriptions K X v"
  let ?st = "fold reconcile_sub ?subs (M, [])"
  have m: "map_of (mg_entries (fst ?st)) i =
    (case sub_table ?subs i of None \<Rightarrow> map_of (mg_entries M) i | Some sub \<Rightarrow> wanted M sub (map_of (mg_entries M) i))"
    using reconcile_subs_entries [OF assms(2), of "(M, [])", unfolded fst_conv, OF assms(1)] .
  have seen: "i \<in> sr_id ` set ?subs \<longleftrightarrow> sub_table ?subs i \<noteq> None"
    by (force simp: map_of_eq_None_iff)
  have "map_of (mg_entries (fst ?st)) i = None" if "i \<notin> fst ` set (mg_entries (fst ?st))"
    using that by (simp add: map_of_eq_None_iff)
  then show ?thesis
    using m seen by (auto simp: reconcile_def Let_def stop_entries_entries split: option.splits)
qed

lemma fold_fixpoint: "(\<And>x. x \<in> set xs \<Longrightarrow> f x s = s) \<Longrightarrow> fold f xs s = s"
  by (induction xs) simp_all

lemma reconcile_settled:
  assumes "manager_ok M"
    and "\<And>i. map_of (mg_entries M) i =
      (case sub_table (svc_list_all_subscriptions K X v) i of
         None \<Rightarrow> None | Some sub \<Rightarrow> wanted M sub (map_of (mg_entries M) i))"
    and "distinct (map sr_id (svc_list_all_subscriptions K X v))"
  shows "reconcile K X v M = (M, [])"
proof -
  let ?subs = "svc_list_all_subscriptions K X v"
  have "wanted M sub (map_of (mg_entries M) (sr_id sub)) = map_of (mg_entries M) (sr_id sub)" if "sub \<in> set ?subs" for sub
  proof -
    have "sub_table ?subs (sr_id sub) = Some sub"
      using that assms(3) by (simp add: comp_def)
    then show ?thesis using assms(2) [of "sr_id sub"] by simp
  qed
  then have "fold reconcile_sub ?subs (M, []) = (M, [])"
    using reconcile_sub_spec(3) [where st = "(M, [])"] by (intro fold_fixpoint) simp
  moreover have "filter (\<lambda>i. i \<notin> set (map sr_id ?subs)) (map fst (mg_entries M)) = []"
  proof -
    have "i \<in> sr_id ` set ?subs" if i: "i \<in> fst ` set (mg_entries M)" for i
    proof -
      have "map_of (mg_entries M) i \<noteq> None" using i by (simp add: map_of_eq_None_iff)
      then have "sub_table ?subs i \<noteq> None" using assms(2) [of i] by (auto split: option.splits)
      then show ?thesis by (simp add: map_of_eq_None_iff image_image)
    qed
    then show ?thesis by (auto simp: filter_empty_conv)
  qed
  ultimately show ?thesis by (simp add: reconcile_def Let_def)
qed

section \<open>Envelope: facts\<close>

text \<open>
  A receiver of the wrapped envelope. \<open>camel\<close> says which of the two spellings of the field names
  it looks for; \<open>from_slice\<close> and \<open>b64d\<close> are its JSON and base64 decoders.
\<close>

record received =
  rc_subscription :: string
  rc_data :: bytes
  rc_attributes :: "(string, json) hashmap"
  rc_message_id :: string
  rc_publish_time :: string
  rc_ordering_key :: string
  rc_delivery_attempt :: "int option"

fun str_field :: "(string, json) hashmap \<Rightarrow> string \<Rightarrow> string option" where
  "str_field m k = (case map_of m k of Some (JStr s) \<Rightarrow> Some s | _ \<Rightarrow> None)"

fun num_field :: "(string, json) hashmap \<Rightarrow> string \<Rightarrow> int option" where
  "num_field m k = (case map_of m k of Some (JNum n) \<Rightarrow> Some n | _ \<Rightarrow> None)"

fun obj_field :: "(string, json) hashmap \<Rightarrow> string \<Rightarrow> (string, json) hashmap option" where
  "obj_field m k = (case map_of m k of Some (JObj n) \<Rightarrow> Some n | _ \<Rightarrow> None)"

definition receive ::
    "(bytes \<Rightarrow> json option) \<Rightarrow> (string \<Rightarrow> bytes option) \<Rightarrow> bool \<Rightarrow> bytes \<Rightarrow> received option" where
  "receive from_slice b64d camel body =
     (let name = (\<lambda>c n. if camel then c else n) in
      case from_slice body of
        Some (JObj env) \<Rightarrow>
          Option.bind (str_field env ''subscription'') (\<lambda>sub.
          Option.bind (obj_field env ''message'') (\<lambda>m.
          Option.bind (Option.bind (str_field m ''data'') b64d) (\<lambda>data.
          Option.bind (obj_field m ''attributes'') (\<lambda>attrs.
          Option.bind (str_field m (name ''messageId'' ''message_id'')) (\<lambda>i.
          Option.bind (str_field m (name ''publishTime'' ''publish_time'')) (\<lambda>t.
          Some \<lparr>rc_subscription = sub, rc_data = data, rc_attributes = attrs, rc_message_id = i, rc_publish_time = t,
            rc_ordering_key = (case str_field m (name ''orderingKey'' ''ordering_key'') of Some k \<Rightarrow> k | None \<Rightarrow> []),
            rc_delivery_attempt = num_field m (name ''deliveryAttempt'' ''delivery_attempt'')\<rparr>))))))
      | _ \<Rightarrow> None)"

text \<open>
  The deadline a failed push is put off by. With the retry bounds a subscription can have
  (at most 600 seconds) the deadline is the whole seconds of the backoff, but at least one and at
  most 600 seconds: the conversion to 32 bits loses nothing and a failed push is never turned
  into an immediate nack.
\<close>

theorem retry_deadline_bounds:
  assumes "validate_retry_backoff_secs (da_min_retry_backoff_secs A) = Inr ()"
    and "validate_retry_backoff_secs (da_max_retry_backoff_secs A) = Inr ()"
  shows "retry_deadline_secs A a = int (max (dur_as_secs (backoff_for_attempts a
      (da_min_retry_backoff_secs A) (da_max_retry_backoff_secs A))) 1) \<and>
    1 \<le> retry_deadline_secs A a \<and> retry_deadline_secs A a \<le> 600"
  using retry_deadline_exact [of A a] assms
  by (simp add: validate_retry_backoff_secs_def MAX_RETRY_BACKOFF_SECS_def split: if_splits)

theorem retry_deadline_bounds_witness:
  "retry_deadline_secs \<lparr>da_subscription_full_name = [], da_sub_id = 2, da_ack_deadline_secs = 10,
     da_min_retry_backoff_secs = 0, da_max_retry_backoff_secs = 600, da_dead_letter_configured = False,
     da_push_config = \<lparr>pc_endpoint = [], pc_no_wrapper = False, pc_write_metadata = False\<rparr>,
     da_push_timeout_secs = 10, da_max_concurrency = 4\<rparr> 3 = 1"
  by (subst retry_deadline_bounds [THEN conjunct1])
    (simp_all add: validate_retry_backoff_secs_def MIN_RETRY_BACKOFF_SECS_def MAX_RETRY_BACKOFF_SECS_def
      dur_as_secs_def backoff_exact Let_def)

end
