(* ===== verification/Demo_Codec.thy ===== *)
theory Demo_Codec
  imports Codec
begin

text \<open>
  A concrete instance of the third-party interface: every value is written as a
  self-delimiting byte string, built up from a variable-length number format. It shows that
  the laws of \<open>ext_laws\<close> can be met by computable functions, and it is the instance the
  concrete evaluations of the development run on.
\<close>

section \<open>Self-delimiting formats\<close>

type_synonym 'a writer = "'a \<Rightarrow> bytes"
type_synonym 'a reader = "bytes \<Rightarrow> ('a \<times> bytes) option"

definition format_ok :: "'a writer \<Rightarrow> 'a reader \<Rightarrow> bool" where
  "format_ok w r \<longleftrightarrow> (\<forall>x rest. r (w x @ rest) = Some (x, rest))"

fun w_nat :: "nat writer" where
  "w_nat n = (if n < 128 then [word_of_nat n] else word_of_nat (128 + n mod 128) # w_nat (n div 128))"

fun r_nat :: "nat reader" where
  "r_nat [] = None"
| "r_nat (b # bs) =
     (if b < 128 then Some (unat b, bs)
      else (case r_nat bs of None \<Rightarrow> None | Some (n, rest) \<Rightarrow> Some (n * 128 + (unat b - 128), rest)))"

declare w_nat.simps [simp del]

definition r_map :: "('a \<Rightarrow> 'b) \<Rightarrow> 'a reader \<Rightarrow> 'b reader" where
  "r_map f r bs = (case r bs of None \<Rightarrow> None | Some (x, rest) \<Rightarrow> Some (f x, rest))"

definition w_pair :: "'a writer \<Rightarrow> 'b writer \<Rightarrow> ('a \<times> 'b) writer" where
  "w_pair wa wb x = wa (fst x) @ wb (snd x)"

definition r_pair :: "'a reader \<Rightarrow> 'b reader \<Rightarrow> ('a \<times> 'b) reader" where
  "r_pair ra rb bs = (case ra bs of None \<Rightarrow> None | Some (a, bs') \<Rightarrow> r_map (Pair a) rb bs')"

fun r_times :: "nat \<Rightarrow> 'a reader \<Rightarrow> 'a list reader" where
  "r_times 0 r bs = Some ([], bs)"
| "r_times (Suc n) r bs =
     (case r bs of None \<Rightarrow> None | Some (a, bs') \<Rightarrow> r_map (Cons a) (r_times n r) bs')"

definition w_list :: "'a writer \<Rightarrow> 'a list writer" where
  "w_list w xs = w_nat (length xs) @ concat (map w xs)"

definition r_list :: "'a reader \<Rightarrow> 'a list reader" where
  "r_list r bs = (case r_nat bs of None \<Rightarrow> None | Some (n, bs') \<Rightarrow> r_times n r bs')"

definition w_int :: "int writer" where
  "w_int i = (if i < 0 then w_nat (2 * nat (- i) + 1) else w_nat (2 * nat i))"

definition r_int :: "int reader" where
  "r_int = r_map (\<lambda>n. if odd n then - int (n div 2) else int (n div 2)) r_nat"

definition w_word :: "'a::len word writer" where
  "w_word w = w_nat (unat w)"

definition r_word :: "'a::len word reader" where
  "r_word = r_map word_of_nat r_nat"

definition w_bool :: "bool writer" where
  "w_bool b = w_nat (if b then 1 else 0)"

definition r_bool :: "bool reader" where
  "r_bool = r_map (\<lambda>n. n = 1) r_nat"

definition w_string :: "string writer" where
  "w_string = w_list (\<lambda>c. w_nat (of_char c))"

definition r_string :: "string reader" where
  "r_string = r_list (r_map char_of r_nat)"

definition w_option :: "'a writer \<Rightarrow> 'a option writer" where
  "w_option w x = w_list w (case x of None \<Rightarrow> [] | Some a \<Rightarrow> [a])"

definition r_option :: "'a reader \<Rightarrow> 'a option reader" where
  "r_option r = r_map (\<lambda>xs. case xs of [] \<Rightarrow> None | a # _ \<Rightarrow> Some a) (r_list r)"

definition w_attrs :: "attributes writer" where
  "w_attrs = w_list (w_pair w_string w_string)"

definition r_attrs :: "attributes reader" where
  "r_attrs = r_list (r_pair r_string r_string)"

lemma w_nat_ok [simp]: "r_nat (w_nat n @ rest) = Some (n, rest)"
proof (induction n rule: w_nat.induct)
  case (1 n)
  show ?case
  proof (cases "n < 128")
    case True
    then show ?thesis
      by (simp add: w_nat.simps word_less_nat_alt unsigned_of_nat take_bit_nat_eq_self)
  next
    case False
    have "unat (word_of_nat (128 + n mod 128) :: u8) = 128 + n mod 128"
      by (simp add: unsigned_of_nat take_bit_nat_eq_self del: of_nat_add)
    with False 1 show ?thesis
      by (simp add: w_nat.simps [of n] word_less_nat_alt del: of_nat_add)
  qed
qed

lemma format_map:
  "format_ok w r \<Longrightarrow> (\<And>x. g (f x) = x) \<Longrightarrow> format_ok (\<lambda>x. w (f x)) (r_map g r)"
  by (simp add: format_ok_def r_map_def)

lemma format_nat: "format_ok w_nat r_nat"
  by (simp add: format_ok_def)

lemma format_pair: "format_ok wa ra \<Longrightarrow> format_ok wb rb \<Longrightarrow> format_ok (w_pair wa wb) (r_pair ra rb)"
  by (simp add: format_ok_def w_pair_def r_pair_def r_map_def)

lemma r_times_ok: "format_ok w r \<Longrightarrow> r_times (length xs) r (concat (map w xs) @ rest) = Some (xs, rest)"
  by (induction xs arbitrary: rest) (simp_all add: format_ok_def r_map_def)

lemma format_list: "format_ok w r \<Longrightarrow> format_ok (w_list w) (r_list r)"
  by (simp add: format_ok_def [of "w_list w"] w_list_def r_list_def r_times_ok)

lemma format_int: "format_ok w_int r_int"
  by (auto simp: format_ok_def w_int_def r_int_def r_map_def)

lemma format_word: "format_ok w_word r_word"
  by (simp add: format_ok_def w_word_def r_word_def r_map_def)

lemma format_bool: "format_ok w_bool r_bool"
  by (simp add: format_ok_def w_bool_def r_bool_def r_map_def)

lemma format_string: "format_ok w_string r_string"
  unfolding w_string_def r_string_def by (intro format_list format_map format_nat) simp

lemma format_option:
  assumes "format_ok w r"
  shows "format_ok (w_option w) (r_option r)"
proof -
  have "w_option w = (\<lambda>x. w_list w (case x of None \<Rightarrow> [] | Some a \<Rightarrow> [a]))"
    by (simp add: w_option_def fun_eq_iff)
  moreover have "format_ok \<dots> (r_option r)"
    unfolding r_option_def
    by (rule format_map [OF format_list [OF assms]]) (simp split: option.splits)
  ultimately show ?thesis by simp
qed

lemma format_attrs: "format_ok w_attrs r_attrs"
  unfolding w_attrs_def r_attrs_def by (intro format_list format_pair format_string)

lemmas formats =
  format_pair format_list format_int format_word format_bool format_string format_option
  format_attrs

section \<open>One format per record\<close>

definition w_message :: "message_record writer" where
  "w_message m = w_pair w_int (w_pair w_string (w_pair w_attrs (w_pair (w_list w_word) w_int)))
     (mr_publish_ts_ms m, mr_ordering_key m, mr_attributes m, mr_payload m, mr_expire_at_ms m)"

definition r_message :: "message_record reader" where
  "r_message = r_map (\<lambda>(a, b, c, d, e).
       \<lparr>mr_publish_ts_ms = a, mr_ordering_key = b, mr_attributes = c, mr_payload = d,
        mr_expire_at_ms = e\<rparr>)
     (r_pair r_int (r_pair r_string (r_pair r_attrs (r_pair (r_list r_word) r_int))))"

definition w_cursor :: "cursor_record writer" where
  "w_cursor c = w_pair w_word (w_pair w_word (w_list w_word))
     (cr_attach_seq c, cr_acked_floor c, cr_acked_above_floor c)"

definition r_cursor :: "cursor_record reader" where
  "r_cursor = r_map (\<lambda>(a, b, c).
       \<lparr>cr_attach_seq = a, cr_acked_floor = b, cr_acked_above_floor = c\<rparr>)
     (r_pair r_word (r_pair r_word (r_list r_word)))"

definition w_delivery :: "delivery_record writer" where
  "w_delivery d = w_pair w_int (w_pair w_word w_word)
     (dr_deadline_ms d, dr_attempts d, dr_generation d)"

definition r_delivery :: "delivery_record reader" where
  "r_delivery = r_map (\<lambda>(a, b, c).
       \<lparr>dr_deadline_ms = a, dr_attempts = b, dr_generation = c\<rparr>)
     (r_pair r_int (r_pair r_word r_word))"

definition w_lane :: "lane_record writer" where
  "w_lane l = w_pair w_word (w_pair w_word (w_pair w_word (w_option w_int)))
     (lr_head_seq l, lr_outstanding_from l, lr_outstanding_to l, lr_blocked_until_ms l)"

definition r_lane :: "lane_record reader" where
  "r_lane = r_map (\<lambda>(a, b, c, d).
       \<lparr>lr_head_seq = a, lr_outstanding_from = b, lr_outstanding_to = c, lr_blocked_until_ms = d\<rparr>)
     (r_pair r_word (r_pair r_word (r_pair r_word (r_option r_int))))"

definition w_snapshot :: "snapshot_record writer" where
  "w_snapshot s =
     w_pair w_word (w_pair w_string (w_pair w_string (w_pair w_word
       (w_pair w_attrs (w_pair w_cursor w_int)))))
     (sn_id s, sn_name s, sn_topic s, sn_topic_id s, sn_labels s, sn_cursor s, sn_expire_at_ms s)"

definition r_snapshot :: "snapshot_record reader" where
  "r_snapshot = r_map (\<lambda>(a, b, c, d, e, f, g).
       \<lparr>sn_id = a, sn_name = b, sn_topic = c, sn_topic_id = d, sn_labels = e, sn_cursor = f,
        sn_expire_at_ms = g\<rparr>)
     (r_pair r_word (r_pair r_string (r_pair r_string (r_pair r_word
       (r_pair r_attrs (r_pair r_cursor r_int))))))"

definition w_topic :: "topic_record writer" where
  "w_topic t = w_pair w_word (w_pair w_string (w_pair w_attrs (w_pair w_int (w_option w_string))))
     (tr_id t, tr_name t, tr_labels t, tr_message_retention_secs t, tr_kms_key_name t)"

definition r_topic :: "topic_record reader" where
  "r_topic = r_map (\<lambda>(a, b, c, d, e).
       \<lparr>tr_id = a, tr_name = b, tr_labels = c, tr_message_retention_secs = d,
        tr_kms_key_name = e\<rparr>)
     (r_pair r_word (r_pair r_string (r_pair r_attrs (r_pair r_int (r_option r_string)))))"

definition w_push :: "push_config writer" where
  "w_push p = w_pair w_string (w_pair w_bool w_bool)
     (pc_endpoint p, pc_no_wrapper p, pc_write_metadata p)"

definition r_push :: "push_config reader" where
  "r_push = r_map (\<lambda>(a, b, c).
       \<lparr>pc_endpoint = a, pc_no_wrapper = b, pc_write_metadata = c\<rparr>)
     (r_pair r_string (r_pair r_bool r_bool))"

definition w_sub :: "subscription_record writer" where
  "w_sub s =
     w_pair w_word (w_pair w_string (w_pair w_string (w_pair w_word (w_pair w_int
       (w_pair w_bool (w_pair w_int (w_pair w_attrs (w_pair w_bool (w_pair (w_option w_int)
       (w_pair w_string (w_pair (w_option w_string) (w_pair w_int (w_pair w_int (w_pair w_int
       (w_pair w_bool (w_pair w_bool (w_pair w_bool (w_pair (w_option w_push) w_int))))))))))))))))))
     (sr_id s, sr_name s, sr_topic s, sr_topic_id s, sr_ack_deadline_secs s,
      sr_retain_acked_messages s, sr_message_retention_secs s, sr_labels s,
      sr_enable_message_ordering s, sr_expiration_ttl_secs s, sr_filter s, sr_dead_letter_topic s,
      sr_max_delivery_attempts s, sr_min_retry_backoff_secs s, sr_max_retry_backoff_secs s,
      sr_retry_policy_explicit s, sr_detached s, sr_enable_exactly_once_delivery s,
      sr_push_config s, sr_last_activity_ts_ms s)"

definition r_sub :: "subscription_record reader" where
  "r_sub = r_map (\<lambda>(a, b, c, d, e, f, g, h, i, j, k, l, m, n, q, p, r, s, t, u).
       \<lparr>sr_id = a, sr_name = b, sr_topic = c, sr_topic_id = d, sr_ack_deadline_secs = e,
        sr_retain_acked_messages = f, sr_message_retention_secs = g, sr_labels = h,
        sr_enable_message_ordering = i, sr_expiration_ttl_secs = j, sr_filter = k,
        sr_dead_letter_topic = l, sr_max_delivery_attempts = m, sr_min_retry_backoff_secs = n,
        sr_max_retry_backoff_secs = q, sr_retry_policy_explicit = p, sr_detached = r,
        sr_enable_exactly_once_delivery = s, sr_push_config = t, sr_last_activity_ts_ms = u\<rparr>)
     (r_pair r_word (r_pair r_string (r_pair r_string (r_pair r_word (r_pair r_int
       (r_pair r_bool (r_pair r_int (r_pair r_attrs (r_pair r_bool (r_pair (r_option r_int)
       (r_pair r_string (r_pair (r_option r_string) (r_pair r_int (r_pair r_int (r_pair r_int
       (r_pair r_bool (r_pair r_bool (r_pair r_bool (r_pair (r_option r_push) r_int)))))))))))))))))))"

lemma format_message: "format_ok w_message r_message"
  unfolding w_message_def [abs_def] r_message_def by (intro format_map formats) simp

lemma format_cursor: "format_ok w_cursor r_cursor"
  unfolding w_cursor_def [abs_def] r_cursor_def by (intro format_map formats) simp

lemma format_delivery: "format_ok w_delivery r_delivery"
  unfolding w_delivery_def [abs_def] r_delivery_def by (intro format_map formats) simp

lemma format_lane: "format_ok w_lane r_lane"
  unfolding w_lane_def [abs_def] r_lane_def by (intro format_map formats) simp

lemma format_snapshot: "format_ok w_snapshot r_snapshot"
  unfolding w_snapshot_def [abs_def] r_snapshot_def
  by (intro format_map formats format_cursor) simp

lemma format_topic: "format_ok w_topic r_topic"
  unfolding w_topic_def [abs_def] r_topic_def by (intro format_map formats) simp

lemma format_push: "format_ok w_push r_push"
  unfolding w_push_def [abs_def] r_push_def by (intro format_map formats) simp

lemma format_sub: "format_ok w_sub r_sub"
  unfolding w_sub_def [abs_def] r_sub_def by (intro format_map formats format_push) simp

section \<open>The instance\<close>

definition to_vec_of :: "'a writer \<Rightarrow> 'a \<Rightarrow> bytes option" where
  "to_vec_of w x = Some (w x)"

definition from_slice_of :: "'a reader \<Rightarrow> bytes \<Rightarrow> 'a option" where
  "from_slice_of r bs = (case r bs of Some (x, []) \<Rightarrow> Some x | _ \<Rightarrow> None)"

text \<open>A parser of one filter: the tree of \<open>attributes:k\<close>, for the text \<open>attributes:k\<close>.\<close>

definition demo_pest :: "string \<Rightarrow> pair list option" where
  "demo_pest s =
     (if s = ''attributes:k'' then
        Some [PestPair R_filter s
          [PestPair R_expr s [PestPair R_unary s [PestPair R_primary s
             [PestPair R_has_attr s [PestPair R_key ''k'' [PestPair R_identifier ''k'' []]]]]],
           PestPair R_EOI [] []]]
      else None)"

definition demo :: ext where
  "demo =
     \<lparr>message_to_vec = to_vec_of w_message, message_from_slice = from_slice_of r_message,
      cursor_to_vec = to_vec_of w_cursor, cursor_from_slice = from_slice_of r_cursor,
      delivery_to_vec = to_vec_of w_delivery, delivery_from_slice = from_slice_of r_delivery,
      lane_to_vec = to_vec_of w_lane, lane_from_slice = from_slice_of r_lane,
      snapshot_to_vec = to_vec_of w_snapshot, snapshot_from_slice = from_slice_of r_snapshot,
      topic_to_vec = to_vec_of w_topic, topic_from_slice = from_slice_of r_topic,
      sub_to_vec = to_vec_of w_sub, sub_from_slice = from_slice_of r_sub,
      b64_encode = map (\<lambda>b. char_of (unat b)), b64_decode = (\<lambda>s. Some (map of_char s)),
      pest_filter = demo_pest\<rparr>"

lemma format_roundtrip: "format_ok w r \<Longrightarrow> serde_roundtrip (to_vec_of w) (from_slice_of r)"
proof -
  assume "format_ok w r"
  then have "r (w x @ []) = Some (x, [])" for x
    unfolding format_ok_def by blast
  then show ?thesis
    by (simp add: serde_roundtrip_def to_vec_of_def from_slice_of_def)
qed

lemma of_char_char_of_byte [simp]: "of_char (char_of (unat (b :: u8))) = b"
proof -
  have "unat b < 2 ^ LENGTH(8)" by (rule unsigned_less)
  then have "(of_char (char_of (unat b)) :: nat) = unat b" by simp
  moreover have "(of_char c :: u8) = of_nat (of_char c)" for c
    by (simp add: of_nat_of_char)
  ultimately show ?thesis by (simp only: word_nchotomy) simp
qed

interpretation demo: ext_laws demo
  by unfold_locales
    (simp_all add: demo_def format_roundtrip format_message format_cursor format_delivery
      format_lane format_snapshot format_topic format_sub comp_def)

end
