(* ===== verification/Demo_State.thy ===== *)
theory Demo_State
  imports Service_Steps Demo_Codec
begin

text \<open>
  A small concrete broker on the in-memory store and the concrete codec: one topic with one
  message, one subscription that has not seen it. The concrete instances of the properties
  are evaluated on it.
\<close>

interpretation demo_env: store_env_reliable mem_kv_ops hm_wf demo ..

lemma demo_store_env: "store_env mem_kv_ops hm_wf demo" ..

lemma demo_store_env_reliable: "store_env_reliable mem_kv_ops hm_wf demo" ..

definition demo_cursor :: cursor_record where
  "demo_cursor = \<lparr>cr_attach_seq = 0, cr_acked_floor = 0, cr_acked_above_floor = []\<rparr>"

definition demo_message :: message_record where
  "demo_message = \<lparr>mr_publish_ts_ms = 5, mr_ordering_key = [], mr_attributes = [], mr_payload = [1],
     mr_expire_at_ms = 100\<rparr>"

definition demo_topic_name :: string where
  "demo_topic_name = ''projects/p/topics/news''"

definition demo_sub_name :: string where
  "demo_sub_name = ''projects/p/subscriptions/inbox''"

definition demo_topic :: topic_record where
  "demo_topic = \<lparr>tr_id = 1, tr_name = demo_topic_name, tr_labels = [], tr_message_retention_secs = 0,
     tr_kms_key_name = None\<rparr>"

definition demo_push_config :: push_config where
  "demo_push_config = \<lparr>pc_endpoint = ''http://localhost:8080/hook'', pc_no_wrapper = False, pc_write_metadata = False\<rparr>"

definition demo_sub :: subscription_record where
  "demo_sub = \<lparr>sr_id = 2, sr_name = demo_sub_name, sr_topic = demo_topic_name, sr_topic_id = 1,
     sr_ack_deadline_secs = 10, sr_retain_acked_messages = False, sr_message_retention_secs = 604800,
     sr_labels = [], sr_enable_message_ordering = False, sr_expiration_ttl_secs = None, sr_filter = [],
     sr_dead_letter_topic = None, sr_max_delivery_attempts = 0, sr_min_retry_backoff_secs = 10,
     sr_max_retry_backoff_secs = 600, sr_retry_policy_explicit = False, sr_detached = False,
     sr_enable_exactly_once_delivery = False, sr_push_config = Some demo_push_config, sr_last_activity_ts_ms = 0\<rparr>"

definition demo_topic_row :: bytes where
  "demo_topic_row = unwrap_or_default (topic_to_vec demo demo_topic)"

definition demo_sub_row :: bytes where
  "demo_sub_row = unwrap_or_default (sub_to_vec demo demo_sub)"

definition demo_kv :: mem_kv where
  "demo_kv = [((''meta'', id_seq_key), to_be_bytes 2),
              ((''meta'', topic_key 1), demo_topic_row),
              ((''meta'', name_key KTopic demo_topic_name), to_be_bytes 1),
              ((''meta'', topic_seq_counter_key 1), to_be_bytes 1),
              ((''meta'', sub_key 2), demo_sub_row),
              ((''meta'', name_key KSubscription demo_sub_name), to_be_bytes 2),
              ((''idx'', topic_sub_idx_key 1 2), []),
              ((''sub'', cursor_key 2), cursor_encode demo demo_cursor),
              ((''msg'', msg_key 1 1), message_encode demo demo_message)]"

definition demo_engine :: "mem_kv engine" where
  "demo_engine = engine_new demo_kv"

definition demo_delivery :: delivered where
  "demo_delivery = \<lparr>d_seq = 1, d_ack_id = encode_ack_id demo 2 1 1, d_message = demo_message,
     d_delivery_attempt = 1\<rparr>"

definition demo_lease :: lease where
  "demo_lease = \<lparr>l_sub_id = 2, l_seq = 1, l_deadline_ms = 10007, l_attempts = 1, l_generation = 1\<rparr>"

text \<open>The broker after the message was pulled at time 7 with a deadline of 10 seconds.\<close>

definition demo_leased :: "mem_kv engine" where
  "demo_leased =
     \<lparr>eng_kv = hm_insert (''dlv'', delivery_key 2 1) (delivery_encode demo (row_of_lease demo_lease)) demo_kv,
      eng_leases = \<lparr>by_deadline = [(10007, 2, 1)], by_key = [((2, 1), demo_lease)]\<rparr>,
      eng_waiters = [], eng_streams = stream_registry_new, eng_filters = [(2, None)]\<rparr>"

lemma demo_kv_wf [simp]: "hm_wf demo_kv"
  by (simp add: demo_kv_def)

lemma demo_cursor_ok [simp]: "cursor_ok demo_cursor"
  by (simp add: demo_cursor_def cursor_ok_def)

lemma demo_rows [simp]:
  "topic_from_slice demo demo_topic_row = Some demo_topic" "sub_from_slice demo demo_sub_row = Some demo_sub"
  by (simp_all add: demo_topic_row_def demo_sub_row_def serde_unwrap demo.topic_rt demo.sub_rt)

lemma demo_kv_view [simp]:
  "map_of demo_kv (''sub'', cursor_key s) = (if s = 2 then Some (cursor_encode demo demo_cursor) else None)"
  "map_of demo_kv (''dlv'', k) = None"
  "map_of demo_kv (''meta'', id_seq_key) = Some (to_be_bytes 2)"
  "map_of demo_kv (''meta'', topic_key i) = (if i = 1 then Some demo_topic_row else None)"
  "map_of demo_kv (''meta'', sub_key i) = (if i = 2 then Some demo_sub_row else None)"
  "map_of demo_kv (''meta'', snapshot_key i) = None"
  "map_of demo_kv (''meta'', topic_seq_counter_key i) = (if i = 1 then Some (to_be_bytes 1) else None)"
  "map_of demo_kv (''meta'', name_key kind n) =
     (if kind = KTopic \<and> n = demo_topic_name then Some (to_be_bytes 1)
      else if kind = KSubscription \<and> n = demo_sub_name then Some (to_be_bytes 2) else None)"
  "map_of demo_kv (''msg'', msg_key t q) =
     (if t = 1 \<and> q = 1 then Some (message_encode demo demo_message) else None)"
  by (auto simp: demo_kv_def)

lemma demo_filter [simp]: "filter_compile p [] = Inr None"
  by (simp add: filter_compile_def)

lemma demo_load: "load_cursor mem_kv_ops demo demo_kv 2 = Inr demo_cursor"
  by (simp add: load_cursor_def mem_get_map_of)

lemma demo_scan:
  "mem_scan_prefix demo_kv ''msg'' (msg_key_prefix 1) = [(msg_key 1 1, message_encode demo demo_message)]"
  by (simp add: mem_scan_prefix_def demo_kv_def)

lemma demo_engine_wf [simp]: "hm_wf (eng_kv demo_engine)" "lease_table_wf (eng_leases demo_engine)"
  by (simp_all add: demo_engine_def engine_new_def wf_new)

lemma demo_pull:
  "lease_next mem_kv_ops demo demo_engine 2 1 10 7 10 = (Inr [demo_delivery], demo_leased)"
  by (simp add: lease_next_def demo_load demo_scan demo_engine_def engine_new_def compiled_filter_def Let_def
      sub_record_of_def mem_get_map_of demo_sub_def lease_step_def demo_cursor_def reclaim_def
      lease_get_def lease_table_new_def persisted_delivery_record_def grant_def lease_insert_def
      word_sat_add_def on_kv_def mem_put_def demo_leased_def demo_delivery_def demo_lease_def row_of_lease_def
      hm_insert_def bt_insert_def insort_insert_key_def i64_sat_add_def sat_i64_def i64_max_def i64_min_def)

lemma demo_leased_wf [simp]: "hm_wf (eng_kv demo_leased)" "lease_table_wf (eng_leases demo_leased)"
proof -
  have "eng_kv demo_leased = eng_kv (snd (lease_next mem_kv_ops demo demo_engine 2 1 10 7 10))"
    "eng_leases demo_leased = eng_leases (snd (lease_next mem_kv_ops demo demo_engine 2 1 10 7 10))"
    by (simp_all add: demo_pull)
  then show "hm_wf (eng_kv demo_leased)" "lease_table_wf (eng_leases demo_leased)"
    using demo_env.lease_next_spec [OF _ _ demo_cursor_ok demo_pull] demo_load
    by (simp_all add: demo_engine_def engine_new_def wf_new)
qed

lemma demo_leased_load: "load_cursor mem_kv_ops demo (eng_kv demo_leased) 2 = Inr demo_cursor"
  by (simp add: load_cursor_def mem_get_map_of demo_leased_def)

lemma demo_ack_id [simp]: "decode_ack_id demo (encode_ack_id demo s q g) = Some (s, q, g)"
  by (rule ext_laws.decode_encode_ack_id) (rule demo.ext_laws_axioms)

lemma demo_junk_id [simp]: "decode_ack_id demo ''junk'' = None"
  by (simp add: decode_ack_id_def demo_def)

lemma demo_hits: "ack_hits demo (eng_leases demo_leased) [d_ack_id demo_delivery, ''junk''] = {(2, 1)}"
  by (auto simp: ack_hits_def demo_leased_def demo_delivery_def demo_lease_def split: if_splits)

text \<open>The broker after the message was acknowledged.\<close>

definition demo_acked :: "mem_kv engine" where
  "demo_acked = snd (acknowledge mem_kv_ops demo demo_leased 2 [d_ack_id demo_delivery, ''junk''])"

lemma demo_ack:
  "acknowledge mem_kv_ops demo demo_leased 2 [d_ack_id demo_delivery, ''junk''] = (Inr (), demo_acked)"
proof -
  have "fst (acknowledge mem_kv_ops demo demo_leased 2 [d_ack_id demo_delivery, ''junk'']) = Inr ()"
    by (simp add: acknowledge_def demo_leased_load)
      (simp add: demo_leased_def demo_delivery_def demo_lease_def lease_ack_def lease_remove_def on_kv_def
        mem_delete_def save_cursor_def mem_put_def)
  then show ?thesis by (simp add: demo_acked_def prod_eq_iff)
qed

text \<open>The broker after the deadline was moved to 20 seconds from time 100, and after a seek.\<close>

definition demo_extended :: "mem_kv engine" where
  "demo_extended = snd (modify_ack_deadline mem_kv_ops demo demo_leased 2 [d_ack_id demo_delivery, ''junk''] 100 20)"

lemma demo_extend:
  "modify_ack_deadline mem_kv_ops demo demo_leased 2 [d_ack_id demo_delivery, ''junk''] 100 20 =
     (Inr (), demo_extended)"
proof -
  have "fst (modify_ack_deadline mem_kv_ops demo demo_leased 2 [d_ack_id demo_delivery, ''junk''] 100 20) = Inr ()"
    by (simp add: modify_ack_deadline_def demo_leased_def demo_delivery_def demo_lease_def lease_extend_def
        on_kv_def mem_put_def Let_def lease_set_deadline_def)
  then show ?thesis by (simp add: demo_extended_def prod_eq_iff)
qed

definition demo_rewound :: "mem_kv engine" where
  "demo_rewound = snd (restore_cursor mem_kv_ops demo demo_leased 2 demo_cursor)"

lemma demo_rewind: "restore_cursor mem_kv_ops demo demo_leased 2 demo_cursor = (Inr (), demo_rewound)"
proof -
  have total: "fst (delete_keys mem_kv_ops ks s) = Inr ()" for ks s
    by (induction ks arbitrary: s) (simp_all add: mem_delete_def)
  have "fst (restore_cursor mem_kv_ops demo demo_leased 2 demo_cursor) = Inr ()"
    using total [of _ "_ :: mem_kv"]
    by (auto simp: restore_cursor_def on_kv_def bind_st_def save_cursor_def mem_put_def
        split: prod.splits sum.splits) (metis fst_conv sum.distinct(1) total)+
  then show ?thesis by (simp add: demo_rewound_def prod_eq_iff)
qed

section \<open>The service on it\<close>

definition demo_service :: "mem_kv service" where
  "demo_service = \<lparr>svc_engine = demo_leased, svc_max_disk_bytes = 0\<rparr>"

lemma demo_leased_view:
  "map_of (eng_kv demo_leased) = (map_of demo_kv)
     ((''dlv'', delivery_key 2 1) \<mapsto> delivery_encode demo (row_of_lease demo_lease))"
  by (simp add: demo_leased_def)

lemma demo_service_inv:
  "hm_wf (svc_kv demo_service)" "store_inv demo (kv_view mem_kv_ops (svc_kv demo_service))"
  "lease_table_wf (eng_leases (svc_engine demo_service))"
  by (auto simp: demo_service_def store_inv_def mem_view demo_leased_view counter_value_def demo_sub_def
      split: if_splits)

lemma demo_sub_get: "sub_get mem_kv_ops demo (svc_kv demo_service) demo_sub_name = Inr demo_sub"
  by (simp add: sub_get_def sub_load_def decode_id_def mem_get_map_of demo_service_def demo_leased_view)

text \<open>The service after the message was acknowledged through it, and after a restart.\<close>

definition demo_service_acked :: "mem_kv service" where
  "demo_service_acked =
     snd (svc_acknowledge mem_kv_ops demo demo_service 30 demo_sub_name [d_ack_id demo_delivery, ''junk''])"

lemma demo_service_ack:
  "svc_acknowledge mem_kv_ops demo demo_service 30 demo_sub_name [d_ack_id demo_delivery, ''junk''] =
     (Inr (), demo_service_acked)"
proof -
  have "acknowledge mem_kv_ops demo (svc_engine demo_service) 2 [d_ack_id demo_delivery, ''junk''] =
      (Inr (), demo_acked)"
    using demo_ack by (simp add: demo_service_def)
  then have "fst (svc_acknowledge mem_kv_ops demo demo_service 30 demo_sub_name
      [d_ack_id demo_delivery, ''junk'']) = Inr ()"
    by (simp add: svc_acknowledge_def demo_sub_get on_engine_def demo_sub_def)
  then show ?thesis by (simp add: demo_service_acked_def prod_eq_iff)
qed

lemma touch_other_keyspaces:
  "ks \<noteq> ''meta'' \<Longrightarrow> map_of (svc_kv (svc_touch mem_kv_ops demo v i now)) (ks, k) = map_of (svc_kv v) (ks, k)"
  by (auto simp: svc_touch_def ignore_result_def on_store_def on_engine_def on_kv_def sub_touch_def sub_persist_def
      mem_put_def with_r_def split: sum.split prod.split option.split)

lemma demo_service_acked_rows:
  "ks \<noteq> ''meta'' \<Longrightarrow> map_of (svc_kv demo_service_acked) (ks, k) = map_of (eng_kv demo_acked) (ks, k)"
proof -
  assume ks: "ks \<noteq> ''meta''"
  have "acknowledge mem_kv_ops demo (svc_engine demo_service) 2 [d_ack_id demo_delivery, ''junk''] =
      (Inr (), demo_acked)"
    using demo_ack by (simp add: demo_service_def)
  with ks touch_other_keyspaces show ?thesis
    by (simp add: demo_service_acked_def svc_acknowledge_def demo_sub_get on_engine_def demo_sub_def)
qed

lemma demo_pull_after_ack:
  assumes "hm_wf (svc_kv v)"
    and rows: "\<And>ks k. ks \<noteq> ''meta'' \<Longrightarrow> map_of (svc_kv v) (ks, k) = map_of (eng_kv demo_acked) (ks, k)"
  shows "\<exists>e'. lease_next mem_kv_ops demo (svc_engine v) 2 1 10 40 10 = (Inr [], e')"
proof -
  obtain c where c: "load_cursor mem_kv_ops demo (eng_kv demo_acked) 2 = Inr c" "done_seqs c = done_seqs demo_cursor \<union> {1}"
    and msgs: "map_of (eng_kv demo_acked) (''msg'', k) = map_of demo_kv (''msg'', k)" for k
    using demo_env.acknowledge_spec [OF _ demo_leased_load demo_cursor_ok demo_ack] demo_leased_wf
    by (auto simp: mem_view demo_leased_view demo_hits)
  have "load_cursor mem_kv_ops demo (svc_kv v) 2 = Inr c"
    using c(1) by (simp add: load_cursor_def mem_get_map_of rows)
  moreover have "\<forall>q b. kv_view mem_kv_ops (svc_kv v) (''msg'', msg_key 1 q) = Some b \<longrightarrow> q \<in> done_seqs c"
    using c(2) msgs by (auto simp: mem_view rows split: if_splits)
  ultimately have "fst (lease_next mem_kv_ops demo (svc_engine v) 2 1 10 40 10) = Inr []"
    using assms(1) by (intro demo_env.lease_next_all_done [where c = c])
  then show ?thesis by (metis prod.collapse)
qed

lemma demo_restarted:
  "\<exists>e'. lease_next mem_kv_ops demo (svc_engine (svc_exec mem_kv_ops demo Restart demo_service_acked)) 2 1 10 40 10 =
     (Inr [], e')"
proof -
  let ?v = "svc_exec mem_kv_ops demo Restart demo_service_acked"
  have kv: "svc_kv ?v = svc_kv demo_service_acked"
    by (simp add: with_max_disk_bytes_def service_new_def recover_def engine_new_def)
  have "hm_wf (svc_kv demo_service_acked)"
    using demo_env.svc_exec_inv [of demo_service "Acknowledge 30 demo_sub_name [d_ack_id demo_delivery, ''junk'']"]
      demo_service_inv demo_service_ack by simp
  then show ?thesis
    by (intro demo_pull_after_ack) (simp_all only: kv demo_service_acked_rows not_False_eq_True)
qed

text \<open>The service after the message was acknowledged on a stream.\<close>

definition demo_stream_acked :: "mem_kv service" where
  "demo_stream_acked =
     snd (svc_stream_acknowledge mem_kv_ops demo demo_service 30 1 2 [d_ack_id demo_delivery])"

lemma demo_ack_one: "acknowledge mem_kv_ops demo demo_leased 2 [d_ack_id demo_delivery] = (Inr (), demo_acked)"
proof -
  have "ack_loop mem_kv_ops demo 2 [''junk''] st e = ack_loop mem_kv_ops demo 2 [] st e"
    for st and e :: "mem_kv engine"
    by (cases st) (simp add: lease_ack_def)
  then have skip: "ack_loop mem_kv_ops demo 2 [''junk''] = ack_loop mem_kv_ops demo 2 []"
    by (intro ext)
  from demo_ack show ?thesis
    by (simp add: acknowledge_def demo_leased_load) (simp only: skip [symmetric])
qed

lemma demo_stream_ack_engine:
  "stream_acknowledge mem_kv_ops demo demo_leased 1 2 [d_ack_id demo_delivery] =
     (Inr (), demo_acked\<lparr>eng_streams := resolve_acks demo 1 [d_ack_id demo_delivery] (eng_streams demo_acked)\<rparr>)"
  using demo_ack_one by (simp add: stream_acknowledge_def)

lemma demo_stream_ack:
  "svc_stream_acknowledge mem_kv_ops demo demo_service 30 1 2 [d_ack_id demo_delivery] =
     (Inr (), demo_stream_acked)"
  using demo_stream_ack_engine
  by (simp add: demo_stream_acked_def svc_stream_acknowledge_def demo_service_def on_engine_def)

lemma demo_stream_pull: "\<exists>e'. lease_next mem_kv_ops demo (svc_engine demo_stream_acked) 2 1 10 40 10 = (Inr [], e')"
proof (rule demo_pull_after_ack)
  show "hm_wf (svc_kv demo_stream_acked)"
    using demo_env.svc_exec_inv [of demo_service "StreamAcknowledge 30 1 2 [d_ack_id demo_delivery]"]
      demo_service_inv demo_stream_ack by simp
  show "map_of (svc_kv demo_stream_acked) (ks, k) = map_of (eng_kv demo_acked) (ks, k)" if "ks \<noteq> ''meta''" for ks k
    using that demo_stream_ack_engine touch_other_keyspaces
    by (simp add: demo_stream_acked_def svc_stream_acknowledge_def demo_service_def on_engine_def)
qed

lemma sub_prefix:
  "prefix (as_bytes ''s/'') (sub_key i)" "\<not> prefix (as_bytes ''s/'') (topic_key i)"
  "\<not> prefix (as_bytes ''s/'') id_seq_key" "\<not> prefix (as_bytes ''s/'') (topic_seq_counter_key i)"
  "\<not> prefix (as_bytes ''s/'') (name_key kind n)"
  by (simp_all add: sub_key_def topic_key_def id_seq_key_def topic_seq_counter_key_def name_key_def as_bytes_def)
    (cases kind; simp add: as_bytes_def)+

lemma demo_sub_rows: "mem_scan_prefix (eng_kv demo_leased) ''meta'' (as_bytes ''s/'') = [(sub_key 2, demo_sub_row)]"
  by (simp add: mem_scan_prefix_def demo_leased_def demo_kv_def sub_prefix)

lemma demo_subs: "svc_list_all_subscriptions mem_kv_ops demo demo_service = [demo_sub]"
  by (simp add: svc_list_all_subscriptions_def sub_list_all_def demo_service_def demo_sub_rows map_filter_simps)

end
