(* ===== verification/Push_Claims.thy ===== *)
theory Push_Claims
  imports Push Demo_State
begin

text \<open>
  What push delivery guarantees, with concrete instances: a JSON format, the demo service with a
  push subscription, and its dispatcher.
\<close>

section \<open>A JSON format\<close>

fun w_json :: "json writer" where
  "w_json JNull = w_nat 0"
| "w_json (JBool b) = w_nat 1 @ w_bool b"
| "w_json (JNum i) = w_nat 2 @ w_int i"
| "w_json (JStr s) = w_nat 3 @ w_string s"
| "w_json (JArr xs) = w_nat 4 @ w_nat (length xs) @ concat (map w_json xs)"
| "w_json (JObj m) = w_nat 5 @ w_nat (length m) @ concat (map (\<lambda>(k, j). w_string k @ w_json j) m)"

fun r_json :: "nat \<Rightarrow> json reader" where
  "r_json 0 bs = None"
| "r_json (Suc n) bs =
     (case r_nat bs of
        None \<Rightarrow> None
      | Some (t, bs) \<Rightarrow>
          if t = 0 then Some (JNull, bs)
          else if t = 1 then r_map JBool r_bool bs
          else if t = 2 then r_map JNum r_int bs
          else if t = 3 then r_map JStr r_string bs
          else if t = 4 then r_map JArr (r_list (r_json n)) bs
          else r_map JObj (r_list (r_pair r_string (r_json n))) bs)"

lemma r_list_ok:
  assumes "\<And>x rest. x \<in> set xs \<Longrightarrow> r (w x @ rest) = Some (x, rest)"
  shows "r_list r (w_nat (length xs) @ concat (map w xs) @ rest) = Some (xs, rest)"
proof -
  have "r_times (length xs) r (concat (map w xs) @ rest) = Some (xs, rest)"
    using assms by (induction xs) (simp_all add: r_map_def)
  then show ?thesis by (simp add: r_list_def)
qed

lemma w_json_ok: "size j < n \<Longrightarrow> r_json n (w_json j @ rest) = Some (j, rest)"
proof (induction n arbitrary: j rest)
  case 0
  then show ?case by simp
next
  case (Suc n)
  show ?case
  proof (cases j)
    case (JArr xs)
    have "r_json n (w_json x @ rest') = Some (x, rest')" if "x \<in> set xs" for x rest'
      using Suc.prems that size_list_estimation' [of x xs "size x" size] JArr
      by (intro Suc.IH) simp
    from r_list_ok [of xs "r_json n" w_json, OF this] JArr show ?thesis by (simp add: r_map_def)
  next
    case (JObj m)
    have "r_pair r_string (r_json n) ((case x of (k, j) \<Rightarrow> w_string k @ w_json j) @ rest') = Some (x, rest')"
      if "x \<in> set m" for x rest'
    proof -
      obtain k j' where x: "x = (k, j')" by (cases x)
      have "size j' < n"
        using Suc.prems that size_list_estimation' [of x m "size j'" "size_prod (\<lambda>_. 0) size"] JObj x by simp
      from Suc.IH [OF this] show ?thesis
        using format_string by (simp add: x r_pair_def r_map_def format_ok_def)
    qed
    from r_list_ok [of m "r_pair r_string (r_json n)" "\<lambda>(k, j). w_string k @ w_json j", OF this] JObj
    show ?thesis by (simp add: r_map_def)
  qed (use format_bool format_int format_string in \<open>simp_all add: r_map_def format_ok_def\<close>)
qed

definition json_from :: "bytes \<Rightarrow> json option" where
  "json_from bs = (case r_nat bs of None \<Rightarrow> None | Some (n, bs) \<Rightarrow> map_option fst (r_json n bs))"

definition demo_push :: push_ext where
  "demo_push = \<lparr>json_to_vec = (\<lambda>j. Some (w_nat (Suc (size j)) @ w_json j)),
     b64_standard = map (\<lambda>b. char_of (unat b)), jiff_timestamp = (\<lambda>t. None)\<rparr>"

lemma json_roundtrip: "\<exists>b. json_to_vec demo_push j = Some b \<and> json_from b = Some j"
  using w_json_ok [of j "Suc (size j)" "[]"] by (simp add: demo_push_def json_from_def)

text \<open>A manager with one stale dispatcher, and the dispatcher of the demo subscription.\<close>

definition demo_stale :: push_manager where
  "demo_stale =
     (push_manager_new 10 4)\<lparr>mg_entries := [(7, \<lparr>pe_push_config = demo_push_config,
        pe_handle = spawn_args (push_manager_new 10 4) (demo_sub\<lparr>sr_id := 7\<rparr>) demo_push_config\<rparr>)]\<rparr>"

definition demo_args :: dispatcher_args where
  "demo_args = spawn_args (push_manager_new 10 4) demo_sub demo_push_config"

lemma demo_args_fields [simp]: "da_sub_id demo_args = 2" "da_max_concurrency demo_args = 4"
  by (simp_all add: demo_args_def spawn_args_def demo_sub_def push_manager_new_def)

section \<open>Claims\<close>

text \<open>
  C20: the wrapped push envelope carries the whole message. A receiver that decodes the JSON body
  gets back the subscription, the data, the attributes, the message id, the publish time, the
  ordering key and the delivery attempt, whichever of the two spellings of the field names it
  reads.
\<close>

theorem envelope_roundtrip:
  assumes "\<And>j. \<exists>b. json_to_vec P j = Some b \<and> from_slice b = Some j"
    and "\<And>d. b64d (b64_standard P d) = Some d"
  shows "receive from_slice b64d camel (rb_body (build_wrapped P name msg attempt)) =
    Some \<lparr>rc_subscription = name, rc_data = pl_data msg, rc_attributes = map (map_prod id JStr) (pl_attributes msg),
      rc_message_id = pl_message_id msg, rc_publish_time = rfc3339 P (pl_publish_time_ms msg),
      rc_ordering_key = pl_ordering_key msg, rc_delivery_attempt = map_option uint attempt\<rparr>"
proof -
  have "from_slice (unwrap_or_default (json_to_vec P j)) = Some j" for j
    using assms(1) [of j] by (auto simp: unwrap_or_default_def)
  then show ?thesis
    using assms(2) by (cases attempt; cases "pl_ordering_key msg = []")
      (simp_all add: build_wrapped_def Let_def receive_def)
qed

theorem envelope_roundtrip_witness:
  "map_option rc_data (receive json_from (Some \<circ> map (\<lambda>c. of_nat (of_char c))) False
     (rb_body (build_wrapped demo_push ''s'' (pulled_of True demo_delivery) (Some 1)))) = Some (pl_data (pulled_of True demo_delivery))"
proof -
  have "(Some \<circ> map (\<lambda>c. of_nat (of_char c))) (b64_standard demo_push d) = Some d" for d
  proof -
    have "unat x mod 256 = unat x" for x :: u8 using unsigned_less [of x] by (intro mod_less) simp
    then show ?thesis by (simp add: demo_push_def comp_def map_idI)
  qed
  from envelope_roundtrip [of demo_push json_from, OF json_roundtrip this] show ?thesis by (simp add: comp_def)
qed









end
