(* ===== verification/Config.thy ===== *)
theory Config
  imports Sub_Filter
begin

text \<open>
  Configuration, \<open>crates/open-pubusb/src/config.rs\<close>: the sections with their defaults, the
  strict loader and the validation.

  The \<open>config\<close> crate, which reads the file and the environment and merges them, is the
  parameter \<open>cfg_ext\<close>: the merged table, the conversions of a leaf value, and the error for a
  key no field has. A table is an association list in the order the deserializer visits it. The
  derived deserializer of the structs is modelled: every entry sets its field, an entry without
  a field is an error, a field without an entry keeps its default.
\<close>

section \<open>Sections\<close>

record server_config =
  sv_listen :: string
  sv_admin_listen :: string
  sv_max_message_size_bytes :: u64
  sv_shutdown_grace_secs :: u64
  sv_enable_reflection :: bool

record storage_config =
  st_data_dir :: string
  st_ephemeral :: bool
  st_sync_interval_ms :: u64
  st_cache_size_bytes :: u64
  st_max_disk_bytes :: u64

record delivery_config =
  dl_pull_max_wait_secs :: u64
  dl_streaming_pull_max_lifetime_secs :: u64
  dl_push_timeout_secs :: u64
  dl_push_max_concurrency_per_sub :: u32
  dl_default_ack_deadline_secs :: u32
  dl_lease_scan_interval_ms :: u64
  dl_retention_sweep_interval_secs :: u64

record log_config =
  lg_format :: string
  lg_level :: string

record metrics_config =
  mt_enabled :: bool

record config =
  cf_server :: server_config
  cf_storage :: storage_config
  cf_delivery :: delivery_config
  cf_log :: log_config
  cf_metrics :: metrics_config

definition SYNC_INTERVAL_MS_MAX :: u64 where "SYNC_INTERVAL_MS_MAX = 5000"
definition SHUTDOWN_GRACE_SECS_MAX :: u64 where "SHUTDOWN_GRACE_SECS_MAX = 600"
definition ACK_DEADLINE_SECS_MIN :: u32 where "ACK_DEADLINE_SECS_MIN = 10"
definition ACK_DEADLINE_SECS_MAX :: u32 where "ACK_DEADLINE_SECS_MAX = 600"
definition VALID_LOG_FORMATS :: "string list" where "VALID_LOG_FORMATS = [''json'', ''text'', ''journald'']"

section \<open>Defaults\<close>

definition default_true :: bool where "default_true = True"
definition default_false :: bool where "default_false = False"
definition default_server_listen :: string where "default_server_listen = ''0.0.0.0:8085''"
definition default_server_admin_listen :: string where "default_server_admin_listen = ''0.0.0.0:8086''"
definition default_max_message_size_bytes :: u64 where "default_max_message_size_bytes = 10485760"
definition default_shutdown_grace_secs :: u64 where "default_shutdown_grace_secs = 30"
definition default_data_dir :: string where "default_data_dir = ''/var/lib/open-pubusb''"
definition default_sync_interval_ms :: u64 where "default_sync_interval_ms = 50"
definition default_cache_size_bytes :: u64 where "default_cache_size_bytes = 33554432"
definition default_max_disk_bytes :: u64 where "default_max_disk_bytes = 0"
definition default_pull_max_wait_secs :: u64 where "default_pull_max_wait_secs = 90"
definition default_streaming_pull_max_lifetime_secs :: u64 where "default_streaming_pull_max_lifetime_secs = 1800"
definition default_push_timeout_secs :: u64 where "default_push_timeout_secs = 10"
definition default_push_max_concurrency_per_sub :: u32 where "default_push_max_concurrency_per_sub = 16"
definition default_ack_deadline_secs_value :: u32 where "default_ack_deadline_secs_value = 10"
definition default_lease_scan_interval_ms :: u64 where "default_lease_scan_interval_ms = 100"
definition default_retention_sweep_interval_secs :: u64 where "default_retention_sweep_interval_secs = 60"
definition default_log_format :: string where "default_log_format = ''json''"
definition default_log_level :: string where "default_log_level = ''info''"

definition server_default :: server_config where
  "server_default = \<lparr>sv_listen = default_server_listen, sv_admin_listen = default_server_admin_listen,
     sv_max_message_size_bytes = default_max_message_size_bytes,
     sv_shutdown_grace_secs = default_shutdown_grace_secs, sv_enable_reflection = default_true\<rparr>"

definition storage_default :: storage_config where
  "storage_default = \<lparr>st_data_dir = default_data_dir, st_ephemeral = default_false,
     st_sync_interval_ms = default_sync_interval_ms, st_cache_size_bytes = default_cache_size_bytes,
     st_max_disk_bytes = default_max_disk_bytes\<rparr>"

definition delivery_default :: delivery_config where
  "delivery_default = \<lparr>dl_pull_max_wait_secs = default_pull_max_wait_secs,
     dl_streaming_pull_max_lifetime_secs = default_streaming_pull_max_lifetime_secs,
     dl_push_timeout_secs = default_push_timeout_secs,
     dl_push_max_concurrency_per_sub = default_push_max_concurrency_per_sub,
     dl_default_ack_deadline_secs = default_ack_deadline_secs_value,
     dl_lease_scan_interval_ms = default_lease_scan_interval_ms,
     dl_retention_sweep_interval_secs = default_retention_sweep_interval_secs\<rparr>"

definition log_default :: log_config where
  "log_default = \<lparr>lg_format = default_log_format, lg_level = default_log_level\<rparr>"

definition metrics_default :: metrics_config where
  "metrics_default = \<lparr>mt_enabled = default_true\<rparr>"

definition config_default :: config where
  "config_default = \<lparr>cf_server = server_default, cf_storage = storage_default,
     cf_delivery = delivery_default, cf_log = log_default, cf_metrics = metrics_default\<rparr>"

lemmas config_defaults =
  config_default_def server_default_def storage_default_def delivery_default_def log_default_def
  metrics_default_def default_true_def default_false_def default_server_listen_def
  default_server_admin_listen_def default_max_message_size_bytes_def default_shutdown_grace_secs_def
  default_data_dir_def default_sync_interval_ms_def default_cache_size_bytes_def
  default_max_disk_bytes_def default_pull_max_wait_secs_def
  default_streaming_pull_max_lifetime_secs_def default_push_timeout_secs_def
  default_push_max_concurrency_per_sub_def default_ack_deadline_secs_value_def
  default_lease_scan_interval_ms_def default_retention_sweep_interval_secs_def
  default_log_format_def default_log_level_def

section \<open>Errors\<close>

text \<open>The variants of \<open>config::ConfigError\<close> the code looks at, and all others.\<close>

datatype load_error = LoadType "string option" | LoadAt "string option" | LoadOther string

datatype config_error = Invalid string | Load load_error

fun config_key :: "config_error \<Rightarrow> string option" where
  "config_key (Invalid key) = Some key"
| "config_key (Load (LoadType (Some k))) = Some k"
| "config_key (Load (LoadAt (Some k))) = Some k"
| "config_key (Load _) = None"

section \<open>Loading\<close>

datatype 'v raw = Leaf 'v | Table "(string, 'v) hashmap"

record 'v cfg_ext =
  cfg_build :: "string option \<Rightarrow> load_error + (string, 'v raw) hashmap"
  cfg_string :: "'v \<Rightarrow> load_error + string"
  cfg_u64 :: "'v \<Rightarrow> load_error + u64"
  cfg_u32 :: "'v \<Rightarrow> load_error + u32"
  cfg_bool :: "'v \<Rightarrow> load_error + bool"
  cfg_unknown_field :: "string \<Rightarrow> load_error"
  cfg_not_a_table :: "string \<Rightarrow> load_error"

text \<open>The visitor of a derived \<open>Deserialize\<close>: one entry after the other, from the defaults.\<close>

fun visit_map :: "('r \<Rightarrow> string \<Rightarrow> 'v \<Rightarrow> load_error + 'r) \<Rightarrow> 'r \<Rightarrow> (string \<times> 'v) list \<Rightarrow> load_error + 'r" where
  "visit_map f r [] = Inr r"
| "visit_map f r ((k, v) # m) = bind_r (f r k v) (\<lambda>r. visit_map f r m)"

definition server_field :: "'v cfg_ext \<Rightarrow> server_config \<Rightarrow> string \<Rightarrow> 'v \<Rightarrow> load_error + server_config" where
  "server_field E r k v =
     (if k = ''listen'' then bind_r (cfg_string E v) (\<lambda>x. Inr (r\<lparr>sv_listen := x\<rparr>))
      else if k = ''admin_listen'' then bind_r (cfg_string E v) (\<lambda>x. Inr (r\<lparr>sv_admin_listen := x\<rparr>))
      else if k = ''max_message_size_bytes'' then bind_r (cfg_u64 E v) (\<lambda>x. Inr (r\<lparr>sv_max_message_size_bytes := x\<rparr>))
      else if k = ''shutdown_grace_secs'' then bind_r (cfg_u64 E v) (\<lambda>x. Inr (r\<lparr>sv_shutdown_grace_secs := x\<rparr>))
      else if k = ''enable_reflection'' then bind_r (cfg_bool E v) (\<lambda>x. Inr (r\<lparr>sv_enable_reflection := x\<rparr>))
      else Inl (cfg_unknown_field E k))"

definition storage_field :: "'v cfg_ext \<Rightarrow> storage_config \<Rightarrow> string \<Rightarrow> 'v \<Rightarrow> load_error + storage_config" where
  "storage_field E r k v =
     (if k = ''data_dir'' then bind_r (cfg_string E v) (\<lambda>x. Inr (r\<lparr>st_data_dir := x\<rparr>))
      else if k = ''ephemeral'' then bind_r (cfg_bool E v) (\<lambda>x. Inr (r\<lparr>st_ephemeral := x\<rparr>))
      else if k = ''sync_interval_ms'' then bind_r (cfg_u64 E v) (\<lambda>x. Inr (r\<lparr>st_sync_interval_ms := x\<rparr>))
      else if k = ''cache_size_bytes'' then bind_r (cfg_u64 E v) (\<lambda>x. Inr (r\<lparr>st_cache_size_bytes := x\<rparr>))
      else if k = ''max_disk_bytes'' then bind_r (cfg_u64 E v) (\<lambda>x. Inr (r\<lparr>st_max_disk_bytes := x\<rparr>))
      else Inl (cfg_unknown_field E k))"

definition delivery_field :: "'v cfg_ext \<Rightarrow> delivery_config \<Rightarrow> string \<Rightarrow> 'v \<Rightarrow> load_error + delivery_config" where
  "delivery_field E r k v =
     (if k = ''pull_max_wait_secs'' then bind_r (cfg_u64 E v) (\<lambda>x. Inr (r\<lparr>dl_pull_max_wait_secs := x\<rparr>))
      else if k = ''streaming_pull_max_lifetime_secs''
        then bind_r (cfg_u64 E v) (\<lambda>x. Inr (r\<lparr>dl_streaming_pull_max_lifetime_secs := x\<rparr>))
      else if k = ''push_timeout_secs'' then bind_r (cfg_u64 E v) (\<lambda>x. Inr (r\<lparr>dl_push_timeout_secs := x\<rparr>))
      else if k = ''push_max_concurrency_per_sub''
        then bind_r (cfg_u32 E v) (\<lambda>x. Inr (r\<lparr>dl_push_max_concurrency_per_sub := x\<rparr>))
      else if k = ''default_ack_deadline_secs''
        then bind_r (cfg_u32 E v) (\<lambda>x. Inr (r\<lparr>dl_default_ack_deadline_secs := x\<rparr>))
      else if k = ''lease_scan_interval_ms'' then bind_r (cfg_u64 E v) (\<lambda>x. Inr (r\<lparr>dl_lease_scan_interval_ms := x\<rparr>))
      else if k = ''retention_sweep_interval_secs''
        then bind_r (cfg_u64 E v) (\<lambda>x. Inr (r\<lparr>dl_retention_sweep_interval_secs := x\<rparr>))
      else Inl (cfg_unknown_field E k))"

definition log_field :: "'v cfg_ext \<Rightarrow> log_config \<Rightarrow> string \<Rightarrow> 'v \<Rightarrow> load_error + log_config" where
  "log_field E r k v =
     (if k = ''format'' then bind_r (cfg_string E v) (\<lambda>x. Inr (r\<lparr>lg_format := x\<rparr>))
      else if k = ''level'' then bind_r (cfg_string E v) (\<lambda>x. Inr (r\<lparr>lg_level := x\<rparr>))
      else Inl (cfg_unknown_field E k))"

definition metrics_field :: "'v cfg_ext \<Rightarrow> metrics_config \<Rightarrow> string \<Rightarrow> 'v \<Rightarrow> load_error + metrics_config" where
  "metrics_field E r k v =
     (if k = ''enabled'' then bind_r (cfg_bool E v) (\<lambda>x. Inr (r\<lparr>mt_enabled := x\<rparr>))
      else Inl (cfg_unknown_field E k))"

definition section_of :: "'v cfg_ext \<Rightarrow> string \<Rightarrow> 'v raw \<Rightarrow> load_error + (string, 'v) hashmap" where
  "section_of E k x = (case x of Table m \<Rightarrow> Inr m | Leaf _ \<Rightarrow> Inl (cfg_not_a_table E k))"

definition config_field :: "'v cfg_ext \<Rightarrow> config \<Rightarrow> string \<Rightarrow> 'v raw \<Rightarrow> load_error + config" where
  "config_field E c k x =
     (if k = ''server'' then bind_r (section_of E k x) (\<lambda>m.
        bind_r (visit_map (server_field E) server_default m) (\<lambda>r. Inr (c\<lparr>cf_server := r\<rparr>)))
      else if k = ''storage'' then bind_r (section_of E k x) (\<lambda>m.
        bind_r (visit_map (storage_field E) storage_default m) (\<lambda>r. Inr (c\<lparr>cf_storage := r\<rparr>)))
      else if k = ''delivery'' then bind_r (section_of E k x) (\<lambda>m.
        bind_r (visit_map (delivery_field E) delivery_default m) (\<lambda>r. Inr (c\<lparr>cf_delivery := r\<rparr>)))
      else if k = ''log'' then bind_r (section_of E k x) (\<lambda>m.
        bind_r (visit_map (log_field E) log_default m) (\<lambda>r. Inr (c\<lparr>cf_log := r\<rparr>)))
      else if k = ''metrics'' then bind_r (section_of E k x) (\<lambda>m.
        bind_r (visit_map (metrics_field E) metrics_default m) (\<lambda>r. Inr (c\<lparr>cf_metrics := r\<rparr>)))
      else Inl (cfg_unknown_field E k))"

definition map_err :: "('e \<Rightarrow> 'f) \<Rightarrow> 'e + 'a \<Rightarrow> 'f + 'a" where
  "map_err f r = (case r of Inl e \<Rightarrow> Inl (f e) | Inr a \<Rightarrow> Inr a)"

definition config_load :: "'v cfg_ext \<Rightarrow> string option \<Rightarrow> config_error + config" where
  "config_load E config_file =
     map_err Load (bind_r (cfg_build E config_file) (visit_map (config_field E) config_default))"

section \<open>Validation\<close>

definition trim_is_empty :: "string \<Rightarrow> bool" where
  "trim_is_empty s = all_whitespace (map of_char s)"

definition config_validate :: "config \<Rightarrow> config_error + unit" where
  "config_validate c =
     (if st_sync_interval_ms (cf_storage c) = 0 \<or> st_sync_interval_ms (cf_storage c) > SYNC_INTERVAL_MS_MAX
      then Inl (Invalid ''storage.sync_interval_ms'')
      else if sv_shutdown_grace_secs (cf_server c) = 0 \<or> sv_shutdown_grace_secs (cf_server c) > SHUTDOWN_GRACE_SECS_MAX
      then Inl (Invalid ''server.shutdown_grace_secs'')
      else if dl_pull_max_wait_secs (cf_delivery c) = 0 then Inl (Invalid ''delivery.pull_max_wait_secs'')
      else if dl_push_timeout_secs (cf_delivery c) = 0 then Inl (Invalid ''delivery.push_timeout_secs'')
      else if dl_default_ack_deadline_secs (cf_delivery c) < ACK_DEADLINE_SECS_MIN
        \<or> dl_default_ack_deadline_secs (cf_delivery c) > ACK_DEADLINE_SECS_MAX
      then Inl (Invalid ''delivery.default_ack_deadline_secs'')
      else if lg_format (cf_log c) \<notin> set VALID_LOG_FORMATS then Inl (Invalid ''log.format'')
      else if trim_is_empty (lg_level (cf_log c)) then Inl (Invalid ''log.level'')
      else if \<not> st_ephemeral (cf_storage c) \<and> trim_is_empty (st_data_dir (cf_storage c))
      then Inl (Invalid ''storage.data_dir'')
      else Inr ())"

definition effective_log_filter :: "string option \<Rightarrow> log_config \<Rightarrow> string" where
  "effective_log_filter rust_log cfg = (case rust_log of Some f \<Rightarrow> f | None \<Rightarrow> lg_level cfg)"

section \<open>Command line\<close>

text \<open>
  From \<open>crates/open-pubusb/src/main.rs\<close>: the choice of the file, the overrides of the command
  line, and what \<open>check-config\<close> and \<open>serve\<close> do before the server starts. A process exit is its
  code.
\<close>

definition resolve_config :: "string option \<Rightarrow> string option \<Rightarrow> bool \<Rightarrow> string option" where
  "resolve_config cli_flag env_var default_exists =
     (case cli_flag of
        Some p \<Rightarrow> Some p
      | None \<Rightarrow>
          (case env_var of
             Some p \<Rightarrow> Some p
           | None \<Rightarrow> if default_exists then Some ''/etc/open-pubusb/config.toml'' else None))"

definition apply_cli_overrides ::
    "config \<Rightarrow> string option \<Rightarrow> string option \<Rightarrow> string option \<Rightarrow> bool \<Rightarrow> config" where
  "apply_cli_overrides cfg listen admin_listen data_dir ephemeral =
     (let cfg = (case listen of Some v \<Rightarrow> cfg\<lparr>cf_server := (cf_server cfg)\<lparr>sv_listen := v\<rparr>\<rparr> | None \<Rightarrow> cfg);
          cfg = (case admin_listen of Some v \<Rightarrow> cfg\<lparr>cf_server := (cf_server cfg)\<lparr>sv_admin_listen := v\<rparr>\<rparr> | None \<Rightarrow> cfg);
          cfg = (case data_dir of Some v \<Rightarrow> cfg\<lparr>cf_storage := (cf_storage cfg)\<lparr>st_data_dir := v\<rparr>\<rparr> | None \<Rightarrow> cfg);
          cfg = (if ephemeral then cfg\<lparr>cf_storage := (cf_storage cfg)\<lparr>st_ephemeral := True\<rparr>\<rparr> else cfg)
      in cfg)"

definition check_config :: "'v cfg_ext \<Rightarrow> string option \<Rightarrow> nat" where
  "check_config E path =
     (case config_load E path of
        Inr cfg \<Rightarrow> (case config_validate cfg of Inr _ \<Rightarrow> 0 | Inl e \<Rightarrow> 2)
      | Inl e \<Rightarrow> 2)"

definition serve_config ::
    "'v cfg_ext \<Rightarrow> string option \<Rightarrow> string option \<Rightarrow> string option \<Rightarrow> string option \<Rightarrow> bool \<Rightarrow> nat + config" where
  "serve_config E path listen admin_listen data_dir ephemeral =
     (case config_load E path of
        Inl e \<Rightarrow> Inl 2
      | Inr cfg \<Rightarrow>
          let cfg = apply_cli_overrides cfg listen admin_listen data_dir ephemeral in
          (case config_validate cfg of Inl e \<Rightarrow> Inl 2 | Inr _ \<Rightarrow> Inr cfg))"

section \<open>Facts\<close>

text \<open>
  One field of a deserialized struct: \<open>k\<close> is its key, \<open>g\<close> reads it and \<open>conv\<close> converts the value.
  The entry for \<open>k\<close> sets the field and no other entry touches it.
\<close>

locale visited_field =
  fixes f :: "'r \<Rightarrow> string \<Rightarrow> 'v \<Rightarrow> load_error + 'r" and k :: string and g :: "'r \<Rightarrow> 'a"
    and conv :: "'v \<Rightarrow> load_error + 'a"
  assumes own: "f r k v = Inr r' \<Longrightarrow> conv v = Inr (g r')"
    and other: "f r k' v = Inr r' \<Longrightarrow> k' \<noteq> k \<Longrightarrow> g r' = g r"
begin

lemma kept: "visit_map f r m = Inr r' \<Longrightarrow> k \<notin> fst ` set m \<Longrightarrow> g r' = g r"
proof (induction m arbitrary: r)
  case (Cons e m)
  then show ?case using other by (cases e) (fastforce simp: bind_r_Inr_iff)
qed simp

lemma visited:
  assumes "visit_map f r m = Inr r'" and "hm_wf m"
  shows "case map_of m k of Some v \<Rightarrow> conv v = Inr (g r') | None \<Rightarrow> g r' = g r"
  using assms
proof (induction m arbitrary: r)
  case (Cons e m)
  obtain k' v r1 where e: "e = (k', v)" and step: "f r k' v = Inr r1" "visit_map f r1 m = Inr r'"
    using Cons.prems(1) by (cases e) (auto simp: bind_r_Inr_iff)
  show ?case
  proof (cases "k' = k")
    case True
    then show ?thesis using kept [OF step(2)] own step(1) Cons.prems(2) e by simp
  next
    case False
    then show ?thesis
      using Cons.IH [OF step(2)] Cons.prems(2) other [OF step(1)] e
      by (simp del: map_of_eq_Some_iff split: option.splits)
  qed
qed simp

end

interpretation server_listen: visited_field "server_field E" "''listen''" sv_listen "cfg_string E" for E
  by unfold_locales (auto simp: server_field_def bind_r_Inr_iff split: if_splits)

interpretation server_admin_listen: visited_field "server_field E" "''admin_listen''" sv_admin_listen "cfg_string E" for E
  by unfold_locales (auto simp: server_field_def bind_r_Inr_iff split: if_splits)

interpretation server_max_message_size_bytes: visited_field "server_field E" "''max_message_size_bytes''" sv_max_message_size_bytes "cfg_u64 E" for E
  by unfold_locales (auto simp: server_field_def bind_r_Inr_iff split: if_splits)

interpretation server_shutdown_grace_secs: visited_field "server_field E" "''shutdown_grace_secs''" sv_shutdown_grace_secs "cfg_u64 E" for E
  by unfold_locales (auto simp: server_field_def bind_r_Inr_iff split: if_splits)

interpretation server_enable_reflection: visited_field "server_field E" "''enable_reflection''" sv_enable_reflection "cfg_bool E" for E
  by unfold_locales (auto simp: server_field_def bind_r_Inr_iff split: if_splits)

interpretation storage_data_dir: visited_field "storage_field E" "''data_dir''" st_data_dir "cfg_string E" for E
  by unfold_locales (auto simp: storage_field_def bind_r_Inr_iff split: if_splits)

interpretation storage_ephemeral: visited_field "storage_field E" "''ephemeral''" st_ephemeral "cfg_bool E" for E
  by unfold_locales (auto simp: storage_field_def bind_r_Inr_iff split: if_splits)

interpretation storage_sync_interval_ms: visited_field "storage_field E" "''sync_interval_ms''" st_sync_interval_ms "cfg_u64 E" for E
  by unfold_locales (auto simp: storage_field_def bind_r_Inr_iff split: if_splits)

interpretation storage_cache_size_bytes: visited_field "storage_field E" "''cache_size_bytes''" st_cache_size_bytes "cfg_u64 E" for E
  by unfold_locales (auto simp: storage_field_def bind_r_Inr_iff split: if_splits)

interpretation storage_max_disk_bytes: visited_field "storage_field E" "''max_disk_bytes''" st_max_disk_bytes "cfg_u64 E" for E
  by unfold_locales (auto simp: storage_field_def bind_r_Inr_iff split: if_splits)

interpretation delivery_pull_max_wait_secs: visited_field "delivery_field E" "''pull_max_wait_secs''" dl_pull_max_wait_secs "cfg_u64 E" for E
  by unfold_locales (auto simp: delivery_field_def bind_r_Inr_iff split: if_splits)

interpretation delivery_streaming_pull_max_lifetime_secs: visited_field "delivery_field E" "''streaming_pull_max_lifetime_secs''" dl_streaming_pull_max_lifetime_secs "cfg_u64 E" for E
  by unfold_locales (auto simp: delivery_field_def bind_r_Inr_iff split: if_splits)

interpretation delivery_push_timeout_secs: visited_field "delivery_field E" "''push_timeout_secs''" dl_push_timeout_secs "cfg_u64 E" for E
  by unfold_locales (auto simp: delivery_field_def bind_r_Inr_iff split: if_splits)

interpretation delivery_push_max_concurrency_per_sub: visited_field "delivery_field E" "''push_max_concurrency_per_sub''" dl_push_max_concurrency_per_sub "cfg_u32 E" for E
  by unfold_locales (auto simp: delivery_field_def bind_r_Inr_iff split: if_splits)

interpretation delivery_default_ack_deadline_secs: visited_field "delivery_field E" "''default_ack_deadline_secs''" dl_default_ack_deadline_secs "cfg_u32 E" for E
  by unfold_locales (auto simp: delivery_field_def bind_r_Inr_iff split: if_splits)

interpretation delivery_lease_scan_interval_ms: visited_field "delivery_field E" "''lease_scan_interval_ms''" dl_lease_scan_interval_ms "cfg_u64 E" for E
  by unfold_locales (auto simp: delivery_field_def bind_r_Inr_iff split: if_splits)

interpretation delivery_retention_sweep_interval_secs: visited_field "delivery_field E" "''retention_sweep_interval_secs''" dl_retention_sweep_interval_secs "cfg_u64 E" for E
  by unfold_locales (auto simp: delivery_field_def bind_r_Inr_iff split: if_splits)

interpretation log_format: visited_field "log_field E" "''format''" lg_format "cfg_string E" for E
  by unfold_locales (auto simp: log_field_def bind_r_Inr_iff split: if_splits)

interpretation log_level: visited_field "log_field E" "''level''" lg_level "cfg_string E" for E
  by unfold_locales (auto simp: log_field_def bind_r_Inr_iff split: if_splits)

interpretation metrics_enabled: visited_field "metrics_field E" "''enabled''" mt_enabled "cfg_bool E" for E
  by unfold_locales (auto simp: metrics_field_def bind_r_Inr_iff split: if_splits)

interpretation server_section: visited_field "config_field E" "''server''" cf_server
    "\<lambda>x. bind_r (section_of E ''server'' x) (visit_map (server_field E) server_default)" for E
  by unfold_locales (auto simp: config_field_def bind_r_Inr_iff split: if_splits)

interpretation storage_section: visited_field "config_field E" "''storage''" cf_storage
    "\<lambda>x. bind_r (section_of E ''storage'' x) (visit_map (storage_field E) storage_default)" for E
  by unfold_locales (auto simp: config_field_def bind_r_Inr_iff split: if_splits)

interpretation delivery_section: visited_field "config_field E" "''delivery''" cf_delivery
    "\<lambda>x. bind_r (section_of E ''delivery'' x) (visit_map (delivery_field E) delivery_default)" for E
  by unfold_locales (auto simp: config_field_def bind_r_Inr_iff split: if_splits)

interpretation log_section: visited_field "config_field E" "''log''" cf_log
    "\<lambda>x. bind_r (section_of E ''log'' x) (visit_map (log_field E) log_default)" for E
  by unfold_locales (auto simp: config_field_def bind_r_Inr_iff split: if_splits)

interpretation metrics_section: visited_field "config_field E" "''metrics''" cf_metrics
    "\<lambda>x. bind_r (section_of E ''metrics'' x) (visit_map (metrics_field E) metrics_default)" for E
  by unfold_locales (auto simp: config_field_def bind_r_Inr_iff split: if_splits)

text \<open>
  \<open>from_table conv d t s k x\<close>: \<open>x\<close> is the value of key \<open>k\<close> of section \<open>s\<close> of the table \<open>t\<close>, or the
  default \<open>d\<close> when the table has no such key.
\<close>

definition from_table ::
    "('v \<Rightarrow> load_error + 'a) \<Rightarrow> 'a \<Rightarrow> (string, 'v raw) hashmap \<Rightarrow> string \<Rightarrow> string \<Rightarrow> 'a \<Rightarrow> bool" where
  "from_table conv d t s k x \<longleftrightarrow>
     (case map_of t s of
        Some (Table m) \<Rightarrow> (case map_of m k of Some v \<Rightarrow> conv v = Inr x | None \<Rightarrow> x = d)
      | _ \<Rightarrow> x = d)"

definition table_wf :: "(string, 'v raw) hashmap \<Rightarrow> bool" where
  "table_wf t \<longleftrightarrow> hm_wf t \<and> (\<forall>s m. map_of t s = Some (Table m) \<longrightarrow> hm_wf m)"

lemma from_tableI:
  assumes sec: "case map_of t s of
      Some x \<Rightarrow> bind_r (section_of E s x) (visit_map f r) = Inr r' | None \<Rightarrow> r' = r"
    and "table_wf t"
    and visited: "\<And>m. visit_map f r m = Inr r' \<Longrightarrow> hm_wf m \<Longrightarrow>
      case map_of m k of Some v \<Rightarrow> conv v = Inr (g r') | None \<Rightarrow> g r' = g r"
  shows "from_table conv (g r) t s k (g r')"
proof (cases "map_of t s")
  case None
  then show ?thesis using sec by (simp add: from_table_def)
next
  case (Some x)
  then obtain m where m: "x = Table m" "visit_map f r m = Inr r'"
    using sec by (cases x) (auto simp: section_of_def)
  then have "hm_wf m" using assms(2) Some unfolding table_wf_def by blast
  from visited [OF m(2) this] Some m(1) show ?thesis
    by (simp add: from_table_def)
qed

lemma visit_map_rejects:
  assumes "(k, v) \<in> set m" and "\<And>r. \<exists>e. f r k v = Inl e"
  shows "\<exists>e. visit_map f r m = Inl e"
  using assms(1)
proof (induction m arbitrary: r)
  case (Cons e m)
  obtain k' v' where e: "e = (k', v')" by (cases e)
  show ?case
  proof (cases "f r k' v'")
    case (Inr r1)
    then show ?thesis using Cons e assms(2) [of r] by auto
  qed (simp add: e)
qed simp

lemma server_loaded:
  assumes "visit_map (config_field E) config_default t = Inr c" and "table_wf t"
  shows
    "from_table (cfg_string E) (sv_listen server_default) t ''server'' ''listen'' (sv_listen (cf_server c))"
    "from_table (cfg_string E) (sv_admin_listen server_default) t ''server'' ''admin_listen'' (sv_admin_listen (cf_server c))"
    "from_table (cfg_u64 E) (sv_max_message_size_bytes server_default) t ''server'' ''max_message_size_bytes'' (sv_max_message_size_bytes (cf_server c))"
    "from_table (cfg_u64 E) (sv_shutdown_grace_secs server_default) t ''server'' ''shutdown_grace_secs'' (sv_shutdown_grace_secs (cf_server c))"
    "from_table (cfg_bool E) (sv_enable_reflection server_default) t ''server'' ''enable_reflection'' (sv_enable_reflection (cf_server c))"
proof -
  have sec: "case map_of t ''server'' of
      Some x \<Rightarrow> bind_r (section_of E ''server'' x) (visit_map (server_field E) server_default) = Inr (cf_server c)
    | None \<Rightarrow> cf_server c = server_default"
    using server_section.visited [OF assms(1)] assms(2)
    by (simp add: table_wf_def config_default_def del: map_of_eq_Some_iff split: option.splits)
  show "from_table (cfg_string E) (sv_listen server_default) t ''server'' ''listen'' (sv_listen (cf_server c))"
    by (rule from_tableI [OF sec assms(2) server_listen.visited])
  show "from_table (cfg_string E) (sv_admin_listen server_default) t ''server'' ''admin_listen'' (sv_admin_listen (cf_server c))"
    by (rule from_tableI [OF sec assms(2) server_admin_listen.visited])
  show "from_table (cfg_u64 E) (sv_max_message_size_bytes server_default) t ''server'' ''max_message_size_bytes'' (sv_max_message_size_bytes (cf_server c))"
    by (rule from_tableI [OF sec assms(2) server_max_message_size_bytes.visited])
  show "from_table (cfg_u64 E) (sv_shutdown_grace_secs server_default) t ''server'' ''shutdown_grace_secs'' (sv_shutdown_grace_secs (cf_server c))"
    by (rule from_tableI [OF sec assms(2) server_shutdown_grace_secs.visited])
  show "from_table (cfg_bool E) (sv_enable_reflection server_default) t ''server'' ''enable_reflection'' (sv_enable_reflection (cf_server c))"
    by (rule from_tableI [OF sec assms(2) server_enable_reflection.visited])
qed

lemma storage_loaded:
  assumes "visit_map (config_field E) config_default t = Inr c" and "table_wf t"
  shows
    "from_table (cfg_string E) (st_data_dir storage_default) t ''storage'' ''data_dir'' (st_data_dir (cf_storage c))"
    "from_table (cfg_bool E) (st_ephemeral storage_default) t ''storage'' ''ephemeral'' (st_ephemeral (cf_storage c))"
    "from_table (cfg_u64 E) (st_sync_interval_ms storage_default) t ''storage'' ''sync_interval_ms'' (st_sync_interval_ms (cf_storage c))"
    "from_table (cfg_u64 E) (st_cache_size_bytes storage_default) t ''storage'' ''cache_size_bytes'' (st_cache_size_bytes (cf_storage c))"
    "from_table (cfg_u64 E) (st_max_disk_bytes storage_default) t ''storage'' ''max_disk_bytes'' (st_max_disk_bytes (cf_storage c))"
proof -
  have sec: "case map_of t ''storage'' of
      Some x \<Rightarrow> bind_r (section_of E ''storage'' x) (visit_map (storage_field E) storage_default) = Inr (cf_storage c)
    | None \<Rightarrow> cf_storage c = storage_default"
    using storage_section.visited [OF assms(1)] assms(2)
    by (simp add: table_wf_def config_default_def del: map_of_eq_Some_iff split: option.splits)
  show "from_table (cfg_string E) (st_data_dir storage_default) t ''storage'' ''data_dir'' (st_data_dir (cf_storage c))"
    by (rule from_tableI [OF sec assms(2) storage_data_dir.visited])
  show "from_table (cfg_bool E) (st_ephemeral storage_default) t ''storage'' ''ephemeral'' (st_ephemeral (cf_storage c))"
    by (rule from_tableI [OF sec assms(2) storage_ephemeral.visited])
  show "from_table (cfg_u64 E) (st_sync_interval_ms storage_default) t ''storage'' ''sync_interval_ms'' (st_sync_interval_ms (cf_storage c))"
    by (rule from_tableI [OF sec assms(2) storage_sync_interval_ms.visited])
  show "from_table (cfg_u64 E) (st_cache_size_bytes storage_default) t ''storage'' ''cache_size_bytes'' (st_cache_size_bytes (cf_storage c))"
    by (rule from_tableI [OF sec assms(2) storage_cache_size_bytes.visited])
  show "from_table (cfg_u64 E) (st_max_disk_bytes storage_default) t ''storage'' ''max_disk_bytes'' (st_max_disk_bytes (cf_storage c))"
    by (rule from_tableI [OF sec assms(2) storage_max_disk_bytes.visited])
qed

lemma delivery_loaded:
  assumes "visit_map (config_field E) config_default t = Inr c" and "table_wf t"
  shows
    "from_table (cfg_u64 E) (dl_pull_max_wait_secs delivery_default) t ''delivery'' ''pull_max_wait_secs'' (dl_pull_max_wait_secs (cf_delivery c))"
    "from_table (cfg_u64 E) (dl_streaming_pull_max_lifetime_secs delivery_default) t ''delivery'' ''streaming_pull_max_lifetime_secs'' (dl_streaming_pull_max_lifetime_secs (cf_delivery c))"
    "from_table (cfg_u64 E) (dl_push_timeout_secs delivery_default) t ''delivery'' ''push_timeout_secs'' (dl_push_timeout_secs (cf_delivery c))"
    "from_table (cfg_u32 E) (dl_push_max_concurrency_per_sub delivery_default) t ''delivery'' ''push_max_concurrency_per_sub'' (dl_push_max_concurrency_per_sub (cf_delivery c))"
    "from_table (cfg_u32 E) (dl_default_ack_deadline_secs delivery_default) t ''delivery'' ''default_ack_deadline_secs'' (dl_default_ack_deadline_secs (cf_delivery c))"
    "from_table (cfg_u64 E) (dl_lease_scan_interval_ms delivery_default) t ''delivery'' ''lease_scan_interval_ms'' (dl_lease_scan_interval_ms (cf_delivery c))"
    "from_table (cfg_u64 E) (dl_retention_sweep_interval_secs delivery_default) t ''delivery'' ''retention_sweep_interval_secs'' (dl_retention_sweep_interval_secs (cf_delivery c))"
proof -
  have sec: "case map_of t ''delivery'' of
      Some x \<Rightarrow> bind_r (section_of E ''delivery'' x) (visit_map (delivery_field E) delivery_default) = Inr (cf_delivery c)
    | None \<Rightarrow> cf_delivery c = delivery_default"
    using delivery_section.visited [OF assms(1)] assms(2)
    by (simp add: table_wf_def config_default_def del: map_of_eq_Some_iff split: option.splits)
  show "from_table (cfg_u64 E) (dl_pull_max_wait_secs delivery_default) t ''delivery'' ''pull_max_wait_secs'' (dl_pull_max_wait_secs (cf_delivery c))"
    by (rule from_tableI [OF sec assms(2) delivery_pull_max_wait_secs.visited])
  show "from_table (cfg_u64 E) (dl_streaming_pull_max_lifetime_secs delivery_default) t ''delivery'' ''streaming_pull_max_lifetime_secs'' (dl_streaming_pull_max_lifetime_secs (cf_delivery c))"
    by (rule from_tableI [OF sec assms(2) delivery_streaming_pull_max_lifetime_secs.visited])
  show "from_table (cfg_u64 E) (dl_push_timeout_secs delivery_default) t ''delivery'' ''push_timeout_secs'' (dl_push_timeout_secs (cf_delivery c))"
    by (rule from_tableI [OF sec assms(2) delivery_push_timeout_secs.visited])
  show "from_table (cfg_u32 E) (dl_push_max_concurrency_per_sub delivery_default) t ''delivery'' ''push_max_concurrency_per_sub'' (dl_push_max_concurrency_per_sub (cf_delivery c))"
    by (rule from_tableI [OF sec assms(2) delivery_push_max_concurrency_per_sub.visited])
  show "from_table (cfg_u32 E) (dl_default_ack_deadline_secs delivery_default) t ''delivery'' ''default_ack_deadline_secs'' (dl_default_ack_deadline_secs (cf_delivery c))"
    by (rule from_tableI [OF sec assms(2) delivery_default_ack_deadline_secs.visited])
  show "from_table (cfg_u64 E) (dl_lease_scan_interval_ms delivery_default) t ''delivery'' ''lease_scan_interval_ms'' (dl_lease_scan_interval_ms (cf_delivery c))"
    by (rule from_tableI [OF sec assms(2) delivery_lease_scan_interval_ms.visited])
  show "from_table (cfg_u64 E) (dl_retention_sweep_interval_secs delivery_default) t ''delivery'' ''retention_sweep_interval_secs'' (dl_retention_sweep_interval_secs (cf_delivery c))"
    by (rule from_tableI [OF sec assms(2) delivery_retention_sweep_interval_secs.visited])
qed

lemma log_loaded:
  assumes "visit_map (config_field E) config_default t = Inr c" and "table_wf t"
  shows
    "from_table (cfg_string E) (lg_format log_default) t ''log'' ''format'' (lg_format (cf_log c))"
    "from_table (cfg_string E) (lg_level log_default) t ''log'' ''level'' (lg_level (cf_log c))"
proof -
  have sec: "case map_of t ''log'' of
      Some x \<Rightarrow> bind_r (section_of E ''log'' x) (visit_map (log_field E) log_default) = Inr (cf_log c)
    | None \<Rightarrow> cf_log c = log_default"
    using log_section.visited [OF assms(1)] assms(2)
    by (simp add: table_wf_def config_default_def del: map_of_eq_Some_iff split: option.splits)
  show "from_table (cfg_string E) (lg_format log_default) t ''log'' ''format'' (lg_format (cf_log c))"
    by (rule from_tableI [OF sec assms(2) log_format.visited])
  show "from_table (cfg_string E) (lg_level log_default) t ''log'' ''level'' (lg_level (cf_log c))"
    by (rule from_tableI [OF sec assms(2) log_level.visited])
qed

lemma metrics_loaded:
  assumes "visit_map (config_field E) config_default t = Inr c" and "table_wf t"
  shows
    "from_table (cfg_bool E) (mt_enabled metrics_default) t ''metrics'' ''enabled'' (mt_enabled (cf_metrics c))"
proof -
  have sec: "case map_of t ''metrics'' of
      Some x \<Rightarrow> bind_r (section_of E ''metrics'' x) (visit_map (metrics_field E) metrics_default) = Inr (cf_metrics c)
    | None \<Rightarrow> cf_metrics c = metrics_default"
    using metrics_section.visited [OF assms(1)] assms(2)
    by (simp add: table_wf_def config_default_def del: map_of_eq_Some_iff split: option.splits)
  show "from_table (cfg_bool E) (mt_enabled metrics_default) t ''metrics'' ''enabled'' (mt_enabled (cf_metrics c))"
    by (rule from_tableI [OF sec assms(2) metrics_enabled.visited])
qed

section \<open>Claims\<close>

text \<open>A concrete reader: one file with a longer grace period, and without it a misspelt key.\<close>

definition demo_cfg :: "(string + u64) cfg_ext" where
  "demo_cfg =
    \<lparr>cfg_build = (\<lambda>path. Inr (case path of
        Some _ \<Rightarrow> [(''server'', Table [(''shutdown_grace_secs'', Inr 60)])]
      | None \<Rightarrow> [(''log'', Table [(''levle'', Inl ''debug'')])])),
     cfg_string = (\<lambda>v. case v of Inl s \<Rightarrow> Inr s | Inr _ \<Rightarrow> Inl (LoadType None)),
     cfg_u64 = (\<lambda>v. case v of Inr n \<Rightarrow> Inr n | Inl _ \<Rightarrow> Inl (LoadType None)),
     cfg_u32 = (\<lambda>v. case v of Inr n \<Rightarrow> Inr (ucast n) | Inl _ \<Rightarrow> Inl (LoadType None)),
     cfg_bool = (\<lambda>v. case v of Inr n \<Rightarrow> Inr (n \<noteq> 0) | Inl _ \<Rightarrow> Inl (LoadType None)),
     cfg_unknown_field = (\<lambda>k. LoadOther k), cfg_not_a_table = (\<lambda>k. LoadType (Some k))\<rparr>"

lemma demo_cfg_load:
  "config_load demo_cfg (Some p) = Inr (config_default\<lparr>cf_server := server_default\<lparr>sv_shutdown_grace_secs := 60\<rparr>\<rparr>)"
  by (simp add: config_load_def map_err_def demo_cfg_def config_field_def section_of_def server_field_def)

text \<open>The keys of each section, and the rules of the validation in their order.\<close>

definition known_keys :: "(string \<times> string list) list" where
  "known_keys =
    [(''server'', [''listen'', ''admin_listen'', ''max_message_size_bytes'', ''shutdown_grace_secs'', ''enable_reflection'']),
     (''storage'', [''data_dir'', ''ephemeral'', ''sync_interval_ms'', ''cache_size_bytes'', ''max_disk_bytes'']),
     (''delivery'', [''pull_max_wait_secs'', ''streaming_pull_max_lifetime_secs'', ''push_timeout_secs'',
        ''push_max_concurrency_per_sub'', ''default_ack_deadline_secs'', ''lease_scan_interval_ms'',
        ''retention_sweep_interval_secs'']),
     (''log'', [''format'', ''level'']),
     (''metrics'', [''enabled''])]"

definition config_rules :: "(string \<times> (config \<Rightarrow> bool)) list" where
  "config_rules =
    [(''storage.sync_interval_ms'', \<lambda>c. unat (st_sync_interval_ms (cf_storage c)) \<in> {1..5000}),
     (''server.shutdown_grace_secs'', \<lambda>c. unat (sv_shutdown_grace_secs (cf_server c)) \<in> {1..600}),
     (''delivery.pull_max_wait_secs'', \<lambda>c. dl_pull_max_wait_secs (cf_delivery c) > 0),
     (''delivery.push_timeout_secs'', \<lambda>c. dl_push_timeout_secs (cf_delivery c) > 0),
     (''delivery.default_ack_deadline_secs'', \<lambda>c. unat (dl_default_ack_deadline_secs (cf_delivery c)) \<in> {10..600}),
     (''log.format'', \<lambda>c. lg_format (cf_log c) \<in> {''json'', ''text'', ''journald''}),
     (''log.level'', \<lambda>c. \<not> trim_is_empty (lg_level (cf_log c))),
     (''storage.data_dir'', \<lambda>c. st_ephemeral (cf_storage c) \<or> \<not> trim_is_empty (st_data_dir (cf_storage c)))]"

lemma word_bounds:
  "unat x \<in> {1..5000} \<longleftrightarrow> \<not> (x = 0 \<or> 5000 < x)" "unat x \<in> {1..600} \<longleftrightarrow> \<not> (x = 0 \<or> 600 < x)"
  "unat y \<in> {10..600} \<longleftrightarrow> \<not> (y < 10 \<or> 600 < y)" for x :: u64 and y :: u32
  by (auto simp: word_less_nat_alt unat_eq_0 [symmetric] Suc_le_eq)

lemma find_first:
  "(case List.find (\<lambda>(k, ok). \<not> ok c) [] of None \<Rightarrow> Inr () | Some (k, ok) \<Rightarrow> Inl (Invalid k)) = Inr ()"
  "(case List.find (\<lambda>(k, ok). \<not> ok c) ((k, ok) # rules) of None \<Rightarrow> Inr () | Some (k, ok) \<Rightarrow> Inl (Invalid k)) =
     (if \<not> ok c then Inl (Invalid k)
      else case List.find (\<lambda>(k, ok). \<not> ok c) rules of None \<Rightarrow> Inr () | Some (k, ok) \<Rightarrow> Inl (Invalid k))"
  by simp_all

lemma word_zero_less: "0 < x \<longleftrightarrow> \<not> (x = 0)" for x :: u64
  by (simp add: word_neq_0_conv)

lemma unknown_fields:
  "k \<notin> set (the (map_of known_keys ''server'')) \<Longrightarrow> \<exists>e. server_field E r1 k v = Inl e"
  "k \<notin> set (the (map_of known_keys ''storage'')) \<Longrightarrow> \<exists>e. storage_field E r2 k v = Inl e"
  "k \<notin> set (the (map_of known_keys ''delivery'')) \<Longrightarrow> \<exists>e. delivery_field E r3 k v = Inl e"
  "k \<notin> set (the (map_of known_keys ''log'')) \<Longrightarrow> \<exists>e. log_field E r4 k v = Inl e"
  "k \<notin> set (the (map_of known_keys ''metrics'')) \<Longrightarrow> \<exists>e. metrics_field E r5 k v = Inl e"
  by (simp_all add: known_keys_def server_field_def storage_field_def delivery_field_def log_field_def
      metrics_field_def)

lemma known_sections: "fst ` set known_keys = {''server'', ''storage'', ''delivery'', ''log'', ''metrics''}"
  by (simp add: known_keys_def)

lemma section_rejects:
  "\<exists>e. visit_map (server_field E) server_default m = Inl e \<Longrightarrow> \<exists>e. config_field E c ''server'' (Table m) = Inl e"
  "\<exists>e. visit_map (storage_field E) storage_default m = Inl e \<Longrightarrow> \<exists>e. config_field E c ''storage'' (Table m) = Inl e"
  "\<exists>e. visit_map (delivery_field E) delivery_default m = Inl e \<Longrightarrow> \<exists>e. config_field E c ''delivery'' (Table m) = Inl e"
  "\<exists>e. visit_map (log_field E) log_default m = Inl e \<Longrightarrow> \<exists>e. config_field E c ''log'' (Table m) = Inl e"
  "\<exists>e. visit_map (metrics_field E) metrics_default m = Inl e \<Longrightarrow> \<exists>e. config_field E c ''metrics'' (Table m) = Inl e"
  by (elim exE, simp add: config_field_def section_of_def)+

lemma config_field_rejects:
  assumes "s \<notin> fst ` set known_keys \<or> (\<exists>m k v. x = Table m \<and> (k, v) \<in> set m \<and> k \<notin> set (the (map_of known_keys s)))"
  shows "\<exists>e. config_field E c s x = Inl e"
proof (cases "s \<in> fst ` set known_keys")
  case True
  then obtain m k v where x: "x = Table m" "(k, v) \<in> set m" and k: "k \<notin> set (the (map_of known_keys s))"
    using assms by blast
  note rejects = visit_map_rejects [OF x(2)]
  consider "s = ''server''" | "s = ''storage''" | "s = ''delivery''" | "s = ''log''" | "s = ''metrics''"
    using True by (auto simp only: known_sections insert_iff empty_iff)
  then show ?thesis
  proof cases
    case 1
    have "\<exists>e. visit_map (server_field E) server_default m = Inl e"
      by (rule rejects, rule unknown_fields(1)) (rule k [unfolded 1])
    then show ?thesis unfolding 1 x(1) by (rule section_rejects)
  next
    case 2
    have "\<exists>e. visit_map (storage_field E) storage_default m = Inl e"
      by (rule rejects, rule unknown_fields(2)) (rule k [unfolded 2])
    then show ?thesis unfolding 2 x(1) by (rule section_rejects)
  next
    case 3
    have "\<exists>e. visit_map (delivery_field E) delivery_default m = Inl e"
      by (rule rejects, rule unknown_fields(3)) (rule k [unfolded 3])
    then show ?thesis unfolding 3 x(1) by (rule section_rejects)
  next
    case 4
    have "\<exists>e. visit_map (log_field E) log_default m = Inl e"
      by (rule rejects, rule unknown_fields(4)) (rule k [unfolded 4])
    then show ?thesis unfolding 4 x(1) by (rule section_rejects)
  next
    case 5
    have "\<exists>e. visit_map (metrics_field E) metrics_default m = Inl e"
      by (rule rejects, rule unknown_fields(5)) (rule k [unfolded 5])
    then show ?thesis unfolding 5 x(1) by (rule section_rejects)
  qed
qed (simp add: known_sections config_field_def)


text \<open>
  Loading applies the table over the defaults. When loading succeeds every field has the value
  the merged table of file and environment gives its key, or its default when the table does not
  mention it, independent of the order of the keys.
\<close>

theorem config_load_fields:
  assumes "cfg_build E path = Inr t" and "table_wf t" and "config_load E path = Inr c"
  shows "from_table (cfg_string E) (sv_listen server_default) t ''server'' ''listen'' (sv_listen (cf_server c)) \<and>
    from_table (cfg_string E) (sv_admin_listen server_default) t ''server'' ''admin_listen'' (sv_admin_listen (cf_server c)) \<and>
    from_table (cfg_u64 E) (sv_max_message_size_bytes server_default) t ''server'' ''max_message_size_bytes'' (sv_max_message_size_bytes (cf_server c)) \<and>
    from_table (cfg_u64 E) (sv_shutdown_grace_secs server_default) t ''server'' ''shutdown_grace_secs'' (sv_shutdown_grace_secs (cf_server c)) \<and>
    from_table (cfg_bool E) (sv_enable_reflection server_default) t ''server'' ''enable_reflection'' (sv_enable_reflection (cf_server c)) \<and>
    from_table (cfg_string E) (st_data_dir storage_default) t ''storage'' ''data_dir'' (st_data_dir (cf_storage c)) \<and>
    from_table (cfg_bool E) (st_ephemeral storage_default) t ''storage'' ''ephemeral'' (st_ephemeral (cf_storage c)) \<and>
    from_table (cfg_u64 E) (st_sync_interval_ms storage_default) t ''storage'' ''sync_interval_ms'' (st_sync_interval_ms (cf_storage c)) \<and>
    from_table (cfg_u64 E) (st_cache_size_bytes storage_default) t ''storage'' ''cache_size_bytes'' (st_cache_size_bytes (cf_storage c)) \<and>
    from_table (cfg_u64 E) (st_max_disk_bytes storage_default) t ''storage'' ''max_disk_bytes'' (st_max_disk_bytes (cf_storage c)) \<and>
    from_table (cfg_u64 E) (dl_pull_max_wait_secs delivery_default) t ''delivery'' ''pull_max_wait_secs'' (dl_pull_max_wait_secs (cf_delivery c)) \<and>
    from_table (cfg_u64 E) (dl_streaming_pull_max_lifetime_secs delivery_default) t ''delivery'' ''streaming_pull_max_lifetime_secs'' (dl_streaming_pull_max_lifetime_secs (cf_delivery c)) \<and>
    from_table (cfg_u64 E) (dl_push_timeout_secs delivery_default) t ''delivery'' ''push_timeout_secs'' (dl_push_timeout_secs (cf_delivery c)) \<and>
    from_table (cfg_u32 E) (dl_push_max_concurrency_per_sub delivery_default) t ''delivery'' ''push_max_concurrency_per_sub'' (dl_push_max_concurrency_per_sub (cf_delivery c)) \<and>
    from_table (cfg_u32 E) (dl_default_ack_deadline_secs delivery_default) t ''delivery'' ''default_ack_deadline_secs'' (dl_default_ack_deadline_secs (cf_delivery c)) \<and>
    from_table (cfg_u64 E) (dl_lease_scan_interval_ms delivery_default) t ''delivery'' ''lease_scan_interval_ms'' (dl_lease_scan_interval_ms (cf_delivery c)) \<and>
    from_table (cfg_u64 E) (dl_retention_sweep_interval_secs delivery_default) t ''delivery'' ''retention_sweep_interval_secs'' (dl_retention_sweep_interval_secs (cf_delivery c)) \<and>
    from_table (cfg_string E) (lg_format log_default) t ''log'' ''format'' (lg_format (cf_log c)) \<and>
    from_table (cfg_string E) (lg_level log_default) t ''log'' ''level'' (lg_level (cf_log c)) \<and>
    from_table (cfg_bool E) (mt_enabled metrics_default) t ''metrics'' ''enabled'' (mt_enabled (cf_metrics c))"
proof -
  have "visit_map (config_field E) config_default t = Inr c"
    using assms(1,3) by (auto simp: config_load_def map_err_def split: sum.splits)
  note loaded = server_loaded [OF this assms(2)] storage_loaded [OF this assms(2)] delivery_loaded [OF this assms(2)]
    log_loaded [OF this assms(2)] metrics_loaded [OF this assms(2)]
  show ?thesis by (intro conjI loaded)
qed

theorem config_load_fields_witness:
  "\<exists>c. config_load demo_cfg (Some ''f'') = Inr c \<and> sv_shutdown_grace_secs (cf_server c) = 60 \<and> lg_level (cf_log c) = ''info''"
proof -
  let ?t = "[(''server'', Table [(''shutdown_grace_secs'', Inr 60)])] :: (string, (string + u64) raw) hashmap"
  have "cfg_build demo_cfg (Some ''f'') = Inr ?t" by (simp add: demo_cfg_def)
  moreover have "table_wf ?t" by (auto simp: table_wf_def split: if_splits)
  ultimately obtain c where c: "config_load demo_cfg (Some ''f'') = Inr c"
    "from_table (cfg_u64 demo_cfg) (sv_shutdown_grace_secs server_default) ?t ''server'' ''shutdown_grace_secs''
       (sv_shutdown_grace_secs (cf_server c))"
    "from_table (cfg_string demo_cfg) (lg_level log_default) ?t ''log'' ''level'' (lg_level (cf_log c))"
    using config_load_fields [OF _ _ demo_cfg_load] demo_cfg_load by blast
  then show ?thesis by (simp add: from_table_def demo_cfg_def log_default_def default_log_level_def)
qed

text \<open>
  An unknown key stops the start. If the merged table has a section that does not exist, or a
  key that its section does not have, loading fails.
\<close>

theorem config_load_strict:
  assumes "cfg_build E path = Inr t" and "(s, x) \<in> set t"
    and "s \<notin> fst ` set known_keys \<or> (\<exists>m k v. x = Table m \<and> (k, v) \<in> set m \<and> k \<notin> set (the (map_of known_keys s)))"
  shows "\<exists>e. config_load E path = Inl (Load e)"
proof -
  from visit_map_rejects [OF assms(2), of "config_field E", OF config_field_rejects [OF assms(3)]]
  obtain e where "visit_map (config_field E) config_default t = Inl e" by blast
  with assms(1) show ?thesis by (simp add: config_load_def map_err_def)
qed

theorem config_load_strict_witness: "\<exists>e. config_load demo_cfg None = Inl (Load e)"
proof -
  have "cfg_build demo_cfg None = Inr [(''log'', Table [(''levle'', Inl ''debug'')])]" by (simp add: demo_cfg_def)
  from config_load_strict [OF this, of "''log''" "Table [(''levle'', Inl ''debug'')]"] show ?thesis
    by (simp add: known_keys_def)
qed

text \<open>
  \<open>check-config\<close> and \<open>serve\<close> agree. Without overrides on the command line the server starts
  exactly when \<open>check-config\<close> exits with 0 and otherwise exits with the same code; and whatever
  the overrides are, a configuration that reaches the server keeps every rule.
\<close>

theorem check_config_agrees:
  "(check_config E path = 0 \<longleftrightarrow> (\<exists>cfg. serve_config E path None None None False = Inr cfg)) \<and>
   (check_config E path \<noteq> 0 \<longleftrightarrow> serve_config E path None None None False = Inl (check_config E path)) \<and>
   (\<forall>l a d eph cfg. serve_config E path l a d eph = Inr cfg \<longrightarrow> config_validate cfg = Inr ())"
proof (intro conjI allI impI)
  have none: "apply_cli_overrides c None None None False = c" for c
    by (simp add: apply_cli_overrides_def)
  show "check_config E path = 0 \<longleftrightarrow> (\<exists>cfg. serve_config E path None None None False = Inr cfg)"
    and "check_config E path \<noteq> 0 \<longleftrightarrow> serve_config E path None None None False = Inl (check_config E path)"
    by (simp_all add: check_config_def serve_config_def none Let_def split: sum.split)
  show "config_validate cfg = Inr ()" if "serve_config E path l a d eph = Inr cfg" for l a d eph cfg
    using that by (auto simp: serve_config_def Let_def split: sum.splits)
qed

theorem check_config_agrees_witness:
  "check_config demo_cfg (Some ''f'') = 0 \<and>
   (\<exists>cfg. serve_config demo_cfg (Some ''f'') None None None False = Inr cfg \<and> config_validate cfg = Inr ())"
proof -
  have "trim_is_empty ''info'' = False" "trim_is_empty ''/var/lib/open-pubusb'' = False"
    by (simp_all add: trim_is_empty_def)
  then have "check_config demo_cfg (Some ''f'') = 0"
    by (simp add: check_config_def demo_cfg_load config_validate_def config_defaults SYNC_INTERVAL_MS_MAX_def
        SHUTDOWN_GRACE_SECS_MAX_def ACK_DEADLINE_SECS_MIN_def ACK_DEADLINE_SECS_MAX_def VALID_LOG_FORMATS_def)
  then show ?thesis using check_config_agrees [of demo_cfg "Some ''f''"] by blast
qed

end
