(* ===== verification/Catalog.thy ===== *)
theory Catalog
  imports Service_Steps
begin

text \<open>
  The subscription and snapshot stores as maps from names to records: both are instances of the
  registry interface, and their operations refine the operations of a map.
\<close>

section \<open>Patches\<close>

lemma unwrap_or_simps [simp]: "unwrap_or (Some v) d = v" "unwrap_or None d = d"
  by (simp_all add: unwrap_or_def)

lemma patch_fields:
  "(case x of Some v \<Rightarrow> r\<lparr>sr_ack_deadline_secs := v\<rparr> | None \<Rightarrow> r) = r\<lparr>sr_ack_deadline_secs := unwrap_or x (sr_ack_deadline_secs r)\<rparr>"
  "(case b of Some v \<Rightarrow> r\<lparr>sr_retain_acked_messages := v\<rparr> | None \<Rightarrow> r) = r\<lparr>sr_retain_acked_messages := unwrap_or b (sr_retain_acked_messages r)\<rparr>"
  "(case x of Some v \<Rightarrow> r\<lparr>sr_message_retention_secs := v\<rparr> | None \<Rightarrow> r) = r\<lparr>sr_message_retention_secs := unwrap_or x (sr_message_retention_secs r)\<rparr>"
  "(case l of Some v \<Rightarrow> r\<lparr>sr_labels := v\<rparr> | None \<Rightarrow> r) = r\<lparr>sr_labels := unwrap_or l (sr_labels r)\<rparr>"
  "(case t of Some v \<Rightarrow> r\<lparr>sr_expiration_ttl_secs := v\<rparr> | None \<Rightarrow> r) = r\<lparr>sr_expiration_ttl_secs := unwrap_or t (sr_expiration_ttl_secs r)\<rparr>"
  "(case d of Some v \<Rightarrow> r\<lparr>sr_dead_letter_topic := v\<rparr> | None \<Rightarrow> r) = r\<lparr>sr_dead_letter_topic := unwrap_or d (sr_dead_letter_topic r)\<rparr>"
  "(case x of Some v \<Rightarrow> r\<lparr>sr_max_delivery_attempts := if v = 0 then 5 else v\<rparr> | None \<Rightarrow> r) =
     r\<lparr>sr_max_delivery_attempts := unwrap_or (map_option (\<lambda>v. if v = 0 then 5 else v) x) (sr_max_delivery_attempts r)\<rparr>"
  "(case x of Some v \<Rightarrow> r\<lparr>sr_min_retry_backoff_secs := v, sr_retry_policy_explicit := True\<rparr> | None \<Rightarrow> r) =
     r\<lparr>sr_min_retry_backoff_secs := unwrap_or x (sr_min_retry_backoff_secs r),
       sr_retry_policy_explicit := (sr_retry_policy_explicit r \<or> x \<noteq> None)\<rparr>"
  "(case x of Some v \<Rightarrow> r\<lparr>sr_max_retry_backoff_secs := v, sr_retry_policy_explicit := True\<rparr> | None \<Rightarrow> r) =
     r\<lparr>sr_max_retry_backoff_secs := unwrap_or x (sr_max_retry_backoff_secs r),
       sr_retry_policy_explicit := (sr_retry_policy_explicit r \<or> x \<noteq> None)\<rparr>"
  "(case b of Some v \<Rightarrow> r\<lparr>sr_detached := v\<rparr> | None \<Rightarrow> r) = r\<lparr>sr_detached := unwrap_or b (sr_detached r)\<rparr>"
  "(case b of Some v \<Rightarrow> r\<lparr>sr_enable_exactly_once_delivery := v\<rparr> | None \<Rightarrow> r) =
     r\<lparr>sr_enable_exactly_once_delivery := unwrap_or b (sr_enable_exactly_once_delivery r)\<rparr>"
  "(case p of Some v \<Rightarrow> r\<lparr>sr_push_config := v\<rparr> | None \<Rightarrow> r) = r\<lparr>sr_push_config := unwrap_or p (sr_push_config r)\<rparr>"
  by (cases x; simp; fail | cases b; simp; fail | cases l; simp; fail | cases t; simp; fail | cases d; simp; fail | cases p; simp; fail)+

lemma checked_stage:
  "bind_r (case x of Some v \<Rightarrow> bind_r (chk v) (\<lambda>_. Inr (g v)) | None \<Rightarrow> Inr r) k = Inr r' \<longleftrightarrow>
     (\<forall>v. x = Some v \<longrightarrow> is_ok (chk v)) \<and> k (case x of Some v \<Rightarrow> g v | None \<Rightarrow> r) = Inr r'"
proof (cases x)
  case (Some v)
  then show ?thesis by (cases "chk v") simp_all
qed simp

lemma sub_patch_ok:
  assumes "sub_patch p r0 = Inr r"
  shows "r = r0\<lparr>sr_ack_deadline_secs := unwrap_or (up_ack_deadline_secs p) (sr_ack_deadline_secs r0),
      sr_retain_acked_messages := unwrap_or (up_retain_acked_messages p) (sr_retain_acked_messages r0),
      sr_message_retention_secs := unwrap_or (up_message_retention_secs p) (sr_message_retention_secs r0),
      sr_labels := unwrap_or (up_labels p) (sr_labels r0),
      sr_expiration_ttl_secs := unwrap_or (up_expiration_ttl_secs p) (sr_expiration_ttl_secs r0),
      sr_dead_letter_topic := unwrap_or (up_dead_letter_topic p) (sr_dead_letter_topic r0),
      sr_max_delivery_attempts :=
        unwrap_or (map_option (\<lambda>v. if v = 0 then 5 else v) (up_max_delivery_attempts p)) (sr_max_delivery_attempts r0),
      sr_min_retry_backoff_secs := unwrap_or (up_min_retry_backoff_secs p) (sr_min_retry_backoff_secs r0),
      sr_max_retry_backoff_secs := unwrap_or (up_max_retry_backoff_secs p) (sr_max_retry_backoff_secs r0),
      sr_retry_policy_explicit := (sr_retry_policy_explicit r0 \<or> up_min_retry_backoff_secs p \<noteq> None \<or> up_max_retry_backoff_secs p \<noteq> None),
      sr_detached := unwrap_or (up_detached p) (sr_detached r0),
      sr_enable_exactly_once_delivery := unwrap_or (up_enable_exactly_once_delivery p) (sr_enable_exactly_once_delivery r0),
      sr_push_config := unwrap_or (up_push_config p) (sr_push_config r0)\<rparr>"
  using assms unfolding sub_patch_def Let_def checked_stage patch_fields by (simp add: disj_assoc)

section \<open>Subscriptions\<close>

sublocale ext_laws \<subseteq> subs: registry KSubscription sub_key "sub_to_vec X" "sub_from_slice X" sr_id sr_name
  by unfold_locales (auto simp: sub_rt)

sublocale ext_laws \<subseteq> snaps: registry KSnapshot snapshot_key "snapshot_to_vec X" "snapshot_from_slice X" sn_id sn_name
  by unfold_locales (auto simp: snapshot_rt)

context store_env
begin

lemma sub_get_ok:
  assumes "subs.good (V s)"
  shows "sub_get K X s n = ok_or (subs.look (V s) n) (NotFound n)"
proof (cases "V s (''meta'', name_key KSubscription n)")
  case None
  then show ?thesis by (simp add: sub_get_def kv_get_view reg_lookup_def)
next
  case (Some b)
  with assms obtain i v r where "b = to_be_bytes i" "V s (''meta'', sub_key i) = Some v"
    "sub_from_slice X v = Some r" "subs.look (V s) n = Some r"
    by (rule subs.goodD_name)
  then show ?thesis using Some by (simp add: sub_get_def sub_load_def decode_id_def kv_get_view)
qed

lemma sub_persist_ok:
  assumes "wf s" and "sub_persist K X s r = (Inr u, s')"
  shows "\<exists>v. sub_to_vec X r = Some v \<and> wf s' \<and> V s' = subs.rows_of r v (V s)"
  using assms by (auto simp: sub_persist_def subs.rows_of_def result_iffs dest!: put_ok')

lemma sub_update_refines:
  assumes "wf s" and "subs.good (V s)" and "sub_update K X s n p = (Inr r, s')"
  shows "\<exists>r0. subs.look (V s) n = Some r0 \<and> sub_patch p r0 = Inr r \<and>
    subs.look (V s') = (subs.look (V s))(n \<mapsto> r) \<and> subs.good (V s') \<and> wf s'"
proof -
  obtain r0 where r0: "subs.look (V s) n = Some r0" and r: "sub_patch p r0 = Inr r"
    and put: "sub_persist K X s r = (Inr (), s')"
    using assms(3) by (auto simp: sub_update_def result_iffs sub_get_ok [OF assms(2)])
  have n: "sr_name r = n" "sr_id r = sr_id r0"
    using assms(2) r0 sub_patch_ok [OF r] by (auto elim: subs.look_Some)
  obtain v where v: "sub_to_vec X r = Some v" "wf s'" "V s' = subs.rows_of r v (V s)"
    using sub_persist_ok [OF assms(1) put] by blast
  have "V s (''meta'', name_key KSubscription n) = Some (to_be_bytes (sr_id r0))"
    using assms(2) r0 by (rule subs.look_Some)
  then have "V s' = (V s)((''meta'', sub_key (sr_id r)) \<mapsto> v)"
    using v(3) n by (auto simp: subs.rows_of_def fun_eq_iff subs.row_neq)
  then show ?thesis
    using subs.update_step [of "V s" r r0 v "V s'"] assms(2) r0 n r v by simp
qed

lemma sub_next_id_ok:
  assumes "wf s" and "sub_next_id K s = (Inr i, s')"
  shows "wf s' \<and> counter_value (V s) id_seq_key < i \<and> V s' = (V s)((''meta'', id_seq_key) \<mapsto> to_be_bytes i)"
proof -
  obtain c where c: "c = counter_value (V s) id_seq_key" "word_checked_add c 1 = Some i"
    and put: "kv_put K s ''meta'' id_seq_key (to_be_bytes i) = (Inr (), s')"
    using assms(2)
    by (auto simp: sub_next_id_def result_iffs kv_get_view counter_value_def decode_id_def split: option.splits)
  have "c < i" using c(2)
    by (auto simp: word_checked_add_def word_less_nat_alt unat_word_ariths split: if_splits)
  then show ?thesis using c(1) put_ok' [OF put assms(1)] by simp
qed

lemma sub_create_refines:
  assumes "wf s" and "subs.good (V s)"
    and "sub_create K X s n t tid attach now opts = (Inr r, s')"
  shows "subs.look (V s) n = None" and "subs.look (V s') = (subs.look (V s))(n \<mapsto> r)"
    and "subs.good (V s')" and "wf s'"
    and "\<exists>f. sub_build_record n t tid now opts = Inr f \<and> r = f (sr_id r)"
    and "V s' (''sub'', cursor_key (sr_id r)) =
      Some (cursor_encode X \<lparr>cr_attach_seq = attach, cr_acked_floor = attach, cr_acked_above_floor = []\<rparr>)"
    and "V s' (''idx'', topic_sub_idx_key tid (sr_id r)) = Some []"
proof -
  obtain f i s1 s2 s3 where f: "sub_build_record n t tid now opts = Inr f"
    and none: "V s (''meta'', name_key KSubscription n) = None" and r: "r = f i"
    and steps: "sub_next_id K s = (Inr i, s1)" "sub_persist K X s1 r = (Inr (), s2)"
      "kv_put K s2 ''sub'' (cursor_key i) (cursor_encode X
         \<lparr>cr_attach_seq = attach, cr_acked_floor = attach, cr_acked_above_floor = []\<rparr>) = (Inr (), s3)"
      "kv_put K s3 ''idx'' (topic_sub_idx_key tid i) [] = (Inr (), s')"
    using assms(3) by (auto simp: sub_create_def result_iffs Let_def kv_get_view split: if_splits)
  have "sr_id (f i) = i \<and> sr_name (f i) = n"
    using f by (auto simp: sub_build_record_def result_iffs Let_def)
  with r have i: "sr_id r = i" "sr_name r = n" by simp_all
  have 1: "wf s1" "counter_value (V s) id_seq_key < i" "V s1 = (V s)((''meta'', id_seq_key) \<mapsto> to_be_bytes i)"
    using sub_next_id_ok [OF assms(1) steps(1)] by simp_all
  obtain v where 2: "sub_to_vec X r = Some v" "wf s2" "V s2 = subs.rows_of r v (V s1)"
    using sub_persist_ok [OF 1(1) steps(2)] by blast
  have 3: "subs.good (V s2)" "subs.look (V s2) = (subs.look (V s))(n \<mapsto> r)"
    using subs.create_step [OF assms(2), of r v "V s2"] 1 2 none i by simp_all
  have f1: "subs.foreign (''sub'', k)" "subs.foreign (''idx'', k)" for k
    by (simp_all add: subs.foreign_def)
  have s3: "wf s3" "V s3 = (V s2)((''sub'', cursor_key i) \<mapsto> cursor_encode X
         \<lparr>cr_attach_seq = attach, cr_acked_floor = attach, cr_acked_above_floor = []\<rparr>)"
    using put_ok' [OF steps(3) 2(2)] by simp_all
  have s': "wf s'" "V s' = (V s3)((''idx'', topic_sub_idx_key tid i) \<mapsto> [])"
    using put_ok' [OF steps(4) s3(1)] by simp_all
  show "subs.look (V s) n = None" using none by (simp add: reg_lookup_def)
  show "subs.look (V s') = (subs.look (V s))(n \<mapsto> r)" "subs.good (V s')"
    using 3 by (simp_all add: s' s3 f1)
  show "wf s'" by (rule s')
  show "\<exists>f. sub_build_record n t tid now opts = Inr f \<and> r = f (sr_id r)" using f r i by auto
  show "V s' (''sub'', cursor_key (sr_id r)) =
      Some (cursor_encode X \<lparr>cr_attach_seq = attach, cr_acked_floor = attach, cr_acked_above_floor = []\<rparr>)"
    and "V s' (''idx'', topic_sub_idx_key tid (sr_id r)) = Some []"
    by (simp_all add: s' s3 i)
qed

lemma sub_delete_refines:
  assumes "wf s" and "subs.good (V s)" and "sub_delete K X s n = (Inr (), s')"
  shows "\<exists>r. subs.look (V s) n = Some r \<and> subs.look (V s') = (subs.look (V s))(n := None) \<and>
    subs.good (V s') \<and> wf s' \<and> V s' (''sub'', cursor_key (sr_id r)) = None"
proof -
  obtain r where r: "subs.look (V s) n = Some r"
    and V': "wf s' \<and> V s' = (V s)((''meta'', sub_key (sr_id r)) := None,
        (''meta'', name_key KSubscription (sr_name r)) := None,
        (''sub'', cursor_key (sr_id r)) := None, (''idx'', topic_sub_idx_key (sr_topic_id r) (sr_id r)) := None)"
    using assms by (auto simp: sub_delete_def result_iffs sub_get_ok dest!: delete_ok')
  have n: "sr_name r = n" using assms(2) r by (rule subs.look_Some)
  have f1: "subs.foreign (''sub'', k)" "subs.foreign (''idx'', k)" for k
    by (simp_all add: subs.foreign_def)
  have "subs.look (V s') = (subs.look (V s))(n := None)" and "subs.good (V s')"
    using subs.delete_step [OF assms(2) r, of "subs.no_rows_of r (V s)"] V' n
    by (simp_all add: subs.no_rows_of_def f1)
  with r V' show ?thesis by simp
qed

section \<open>Snapshots\<close>

lemma snapshot_get_ok:
  assumes "snaps.good (V s)" and "is_ok (snapshot_name_parse n)"
  shows "snapshot_get K X s n = ok_or (snaps.look (V s) n) (NotFound n)"
proof (cases "V s (''meta'', name_key KSnapshot n)")
  case None
  then show ?thesis
    using assms(2) by (cases "snapshot_name_parse n")
      (auto simp: snapshot_get_def snapshot_resolve_id_def kv_get_view reg_lookup_def)
next
  case (Some b)
  with assms(1) obtain i v r where "b = to_be_bytes i" "V s (''meta'', snapshot_key i) = Some v"
    "snapshot_from_slice X v = Some r" "snaps.look (V s) n = Some r"
    by (rule snaps.goodD_name)
  then show ?thesis
    using Some assms(2) by (cases "snapshot_name_parse n")
      (auto simp: snapshot_get_def snapshot_resolve_id_def snapshot_load_record_def kv_get_view)
qed

lemma snapshot_put_record_ok:
  assumes "wf s" and "snapshot_put_record K X s r = (Inr u, s')"
  shows "\<exists>v. snapshot_to_vec X r = Some v \<and> wf s' \<and> V s' = (V s)((''meta'', snapshot_key (sn_id r)) \<mapsto> v)"
  using assms by (auto simp: snapshot_put_record_def result_iffs dest!: put_ok')

lemma snapshot_create_refines:
  assumes "wf s" and "snaps.good (V s)" and "counter_value (V s) id_seq_key < - 1"
    and "snapshot_create K X s n t tid labels c ex = (Inr r, s')"
  shows "snaps.look (V s) n = None" and "snaps.look (V s') = (snaps.look (V s))(n \<mapsto> r)"
    and "snaps.good (V s')" and "wf s'"
    and "r = \<lparr>sn_id = sn_id r, sn_name = n, sn_topic = t, sn_topic_id = tid, sn_labels = labels, sn_cursor = c,
      sn_expire_at_ms = ex\<rparr>"
proof -
  obtain i s1 s2 where none: "V s (''meta'', name_key KSnapshot n) = None"
    and r: "r = \<lparr>sn_id = i, sn_name = n, sn_topic = t, sn_topic_id = tid, sn_labels = labels, sn_cursor = c,
      sn_expire_at_ms = ex\<rparr>"
    and steps: "snapshot_next_id K s = (Inr i, s1)" "snapshot_put_record K X s1 r = (Inr (), s2)"
      "kv_put K s2 ''meta'' (name_key KSnapshot n) (to_be_bytes i) = (Inr (), s')"
    using assms(4) by (auto simp: snapshot_create_def result_iffs Let_def kv_get_view split: if_splits)
  have 1: "wf s1" "i = word_sat_add (counter_value (V s) id_seq_key) 1"
    "V s1 = (V s)((''meta'', id_seq_key) \<mapsto> to_be_bytes i)"
    using steps(1) assms(1)
    by (auto simp: snapshot_next_id_def Let_def result_iffs snapshot_read_counter_def kv_get_view counter_value_def
        dest!: put_ok')
  obtain v where 2: "snapshot_to_vec X r = Some v" "wf s2" "V s2 = (V s1)((''meta'', snapshot_key (sn_id r)) \<mapsto> v)"
    using snapshot_put_record_ok [OF 1(1) steps(2)] by blast
  have 3: "wf s'" "V s' = (V s2)((''meta'', name_key KSnapshot n) \<mapsto> to_be_bytes i)"
    using put_ok' [OF steps(3) 2(2)] by simp_all
  have "counter_value (V s) id_seq_key < sn_id r"
    using assms(3) by (simp add: r 1(2) less_word_sat_add_one)
  then show "snaps.look (V s') = (snaps.look (V s))(n \<mapsto> r)" and "snaps.good (V s')"
    using snaps.create_step [OF assms(2), of r v "V s'"] none 1 2 3 by (simp_all add: r snaps.rows_of_def)
  show "snaps.look (V s) n = None" using none by (simp add: reg_lookup_def)
  show "wf s'" by (rule 3)
  show "r = \<lparr>sn_id = sn_id r, sn_name = n, sn_topic = t, sn_topic_id = tid, sn_labels = labels, sn_cursor = c,
      sn_expire_at_ms = ex\<rparr>" by (simp add: r)
qed

lemma snapshot_resolve_ok:
  "snaps.good (V s) \<Longrightarrow> snapshot_resolve_id K s n = Inr i \<longleftrightarrow>
     is_ok (snapshot_name_parse n) \<and> (\<exists>r. snaps.look (V s) n = Some r \<and> sn_id r = i)"
  by (cases "snapshot_name_parse n"; cases "V s (''meta'', name_key KSnapshot n)")
    (auto simp: snapshot_resolve_id_def kv_get_view ok_or_Inr_iff reg_lookup_def elim!: snaps.goodD_name)

lemma snapshot_delete_refines:
  assumes "wf s" and "snaps.good (V s)" and "snapshot_delete K s n = (Inr (), s')"
  shows "snaps.look (V s) n \<noteq> None" and "snaps.look (V s') = (snaps.look (V s))(n := None)"
    and "snaps.good (V s')" and "wf s'"
proof -
  obtain r where r: "snaps.look (V s) n = Some r"
    and V': "wf s' \<and> V s' = (V s)((''meta'', snapshot_key (sn_id r)) := None, (''meta'', name_key KSnapshot n) := None)"
    using assms by (auto simp: snapshot_delete_def result_iffs snapshot_resolve_ok dest!: delete_ok')
  have n: "sn_name r = n" using assms(2) r by (rule snaps.look_Some)
  show "snaps.look (V s') = (snaps.look (V s))(n := None)" and "snaps.good (V s')"
    using snaps.delete_step [OF assms(2) r] V' n by (simp_all add: snaps.no_rows_of_def)
  show "snaps.look (V s) n \<noteq> None" "wf s'" using r V' by simp_all
qed

end

section \<open>The three catalogs\<close>

text \<open>The map from names to records a store holds, and that its rows and name entries agree.\<close>

definition topics_of :: "'s kv_ops \<Rightarrow> ext \<Rightarrow> 's \<Rightarrow> string \<Rightarrow> topic_record option" where
  "topics_of K X s = reg_lookup KTopic topic_key (topic_from_slice X) (kv_view K s)"

definition topics_ok :: "'s kv_ops \<Rightarrow> ext \<Rightarrow> 's \<Rightarrow> bool" where
  "topics_ok K X s \<longleftrightarrow> reg_wf KTopic topic_key (topic_from_slice X) tr_id tr_name (kv_view K s)"

definition subscriptions_of :: "'s kv_ops \<Rightarrow> ext \<Rightarrow> 's \<Rightarrow> string \<Rightarrow> subscription_record option" where
  "subscriptions_of K X s = reg_lookup KSubscription sub_key (sub_from_slice X) (kv_view K s)"

definition subscriptions_ok :: "'s kv_ops \<Rightarrow> ext \<Rightarrow> 's \<Rightarrow> bool" where
  "subscriptions_ok K X s \<longleftrightarrow> reg_wf KSubscription sub_key (sub_from_slice X) sr_id sr_name (kv_view K s)"

definition snapshots_of :: "'s kv_ops \<Rightarrow> ext \<Rightarrow> 's \<Rightarrow> string \<Rightarrow> snapshot_record option" where
  "snapshots_of K X s = reg_lookup KSnapshot snapshot_key (snapshot_from_slice X) (kv_view K s)"

definition snapshots_ok :: "'s kv_ops \<Rightarrow> ext \<Rightarrow> 's \<Rightarrow> bool" where
  "snapshots_ok K X s \<longleftrightarrow> reg_wf KSnapshot snapshot_key (snapshot_from_slice X) sn_id sn_name (kv_view K s)"

lemmas catalog_defs =
  topics_of_def topics_ok_def subscriptions_of_def subscriptions_ok_def snapshots_of_def snapshots_ok_def

section \<open>Creation\<close>

text \<open>The record a create stores, and when it stores one.\<close>

definition built_record :: "string \<Rightarrow> string \<Rightarrow> u64 \<Rightarrow> int \<Rightarrow> create_subscription_options \<Rightarrow> u64 \<Rightarrow> subscription_record" where
  "built_record n t tid now opts i =
     \<lparr>sr_id = i, sr_name = n, sr_topic = t, sr_topic_id = tid,
      sr_ack_deadline_secs = unwrap_or (co_ack_deadline_secs opts) 10,
      sr_retain_acked_messages = co_retain_acked_messages opts,
      sr_message_retention_secs = unwrap_or (co_message_retention_secs opts) 604800,
      sr_labels = co_labels opts,
      sr_enable_message_ordering = co_enable_message_ordering opts,
      sr_expiration_ttl_secs = unwrap_or (co_expiration_ttl_secs opts) (Some 2678400),
      sr_filter = co_filter opts,
      sr_dead_letter_topic = co_dead_letter_topic opts,
      sr_max_delivery_attempts =
        (if co_dead_letter_topic opts = None then 0
         else if unwrap_or (co_max_delivery_attempts opts) 0 = 0 then 5 else unwrap_or (co_max_delivery_attempts opts) 0),
      sr_min_retry_backoff_secs = unwrap_or (co_min_retry_backoff_secs opts) 10,
      sr_max_retry_backoff_secs = unwrap_or (co_max_retry_backoff_secs opts) 600,
      sr_retry_policy_explicit = (co_min_retry_backoff_secs opts \<noteq> None \<or> co_max_retry_backoff_secs opts \<noteq> None),
      sr_detached = False,
      sr_enable_exactly_once_delivery = co_enable_exactly_once_delivery opts,
      sr_push_config = co_push_config opts, sr_last_activity_ts_ms = now\<rparr>"

lemma bind_const: "bind_r m (\<lambda>_. k) = Inr b \<longleftrightarrow> is_ok m \<and> k = Inr b"
  by (cases m) simp_all

lemma dead_letter_stage:
  "bind_r (if d then bind_r (chk r) (\<lambda>_. Inr (if r = 0 then 5 else r)) else Inr 0) k = Inr b \<longleftrightarrow>
     (d \<longrightarrow> is_ok (chk r)) \<and> k (if \<not> d then 0 else if r = 0 then 5 else r) = Inr b"
  by (cases "chk r") auto

lemma if_stage: "bind_r (if p then Inl e else if q then Inl e' else Inr ()) k = Inr b \<longleftrightarrow> \<not> p \<and> \<not> q \<and> k () = Inr b"
  by simp

lemma sub_build_iff:
  "sub_build_record n t tid now opts = Inr f \<longleftrightarrow>
     is_ok (subscription_name_parse n) \<and> is_ok (topic_name_parse t) \<and>
     \<not> co_has_bigquery_config opts \<and> \<not> co_has_cloud_storage_config opts \<and>
     is_ok (validate_ack_deadline_secs (unwrap_or (co_ack_deadline_secs opts) 10)) \<and>
     is_ok (validate_subscription_retention_secs (unwrap_or (co_message_retention_secs opts) 604800)) \<and>
     is_ok (validate_filter_len (co_filter opts)) \<and>
     (co_dead_letter_topic opts \<noteq> None \<longrightarrow>
        is_ok (validate_dead_letter_max_attempts (unwrap_or (co_max_delivery_attempts opts) 0))) \<and>
     (\<forall>v. co_min_retry_backoff_secs opts = Some v \<longrightarrow> is_ok (validate_retry_backoff_secs v)) \<and>
     (\<forall>v. co_max_retry_backoff_secs opts = Some v \<longrightarrow> is_ok (validate_retry_backoff_secs v)) \<and>
     f = built_record n t tid now opts"
  unfolding sub_build_record_def Let_def if_stage bind_const dead_letter_stage checked_stage unwrap_or_def [symmetric]
  by (auto simp: built_record_def [abs_def] fun_eq_iff)

end
