(* ===== verification/Grpc.thy ===== *)
theory Grpc
  imports Catalog
begin

text \<open>
  The gRPC front end, \<open>crates/open-pubusb/src/grpc\<close>: the conversions (\<open>convert.rs\<close>,
  \<open>status.rs\<close>) and the unary handlers of \<open>publisher.rs\<close> and \<open>subscriber.rs\<close>. The generated
  protobuf messages are records of the fields the handlers read or set; a status is its code.
  A handler returns the response or the status together with the service it leaves.
\<close>

section \<open>Well-known types\<close>

record timestamp =
  ts_seconds :: int
  ts_nanos :: int

record duration =
  du_seconds :: int
  du_nanos :: int

definition ms_to_timestamp :: "int \<Rightarrow> timestamp" where
  "ms_to_timestamp ms = \<lparr>ts_seconds = ms div 1000, ts_nanos = (ms mod 1000) * 1000000\<rparr>"

definition timestamp_to_ms :: "timestamp \<Rightarrow> int" where
  "timestamp_to_ms ts = wrap_i64 (i64_sat_mul (ts_seconds ts) 1000 + i64_div (ts_nanos ts) 1000000)"

definition secs_to_duration :: "int \<Rightarrow> duration" where
  "secs_to_duration secs = \<lparr>du_seconds = secs, du_nanos = 0\<rparr>"

definition duration_to_secs :: "duration \<Rightarrow> int" where
  "duration_to_secs d = du_seconds d"

section \<open>Status\<close>

datatype grpc_code =
    GNotFound | GAlreadyExists | GInvalidArgument | GFailedPrecondition | GResourceExhausted | GUnavailable
  | GUnimplemented | GInternal

fun to_status :: "error \<Rightarrow> grpc_code" where
  "to_status (NotFound _) = GNotFound"
| "to_status (AlreadyExists _) = GAlreadyExists"
| "to_status (InvalidArgument _) = GInvalidArgument"
| "to_status FailedPrecondition = GFailedPrecondition"
| "to_status ResourceExhausted = GResourceExhausted"
| "to_status Unavailable = GUnavailable"
| "to_status (Unimplemented _) = GUnimplemented"
| "to_status Internal = GInternal"

type_synonym ('s, 'a) reply = "(grpc_code + 'a) \<times> 's service"

text \<open>\<open>.map_err(to_status)?\<close> followed by the construction of the response.\<close>

definition respond :: "('s service, 'a) st_result \<Rightarrow> ('a \<Rightarrow> 'b) \<Rightarrow> ('s, 'b) reply" where
  "respond m f = (case m of (Inl e, v) \<Rightarrow> (Inl (to_status e), v) | (Inr a, v) \<Rightarrow> (Inr (f a), v))"

definition respond_pure :: "'a result \<Rightarrow> 's service \<Rightarrow> ('a \<Rightarrow> 'b) \<Rightarrow> ('s, 'b) reply" where
  "respond_pure m v f = respond (m, v) f"

section \<open>Messages\<close>

record pb_topic =
  pt_name :: string
  pt_labels :: attributes
  pt_kms_key_name :: string
  pt_has_schema_settings :: bool
  pt_message_retention_duration :: "duration option"
  pt_has_ingestion_data_source_settings :: bool

datatype pb_wrapper = PubsubWrapper | NoWrapper bool

record pb_push_config =
  pp_push_endpoint :: string
  pp_has_authentication_method :: bool
  pp_wrapper :: "pb_wrapper option"

record pb_dead_letter_policy =
  pd_dead_letter_topic :: string
  pd_max_delivery_attempts :: int

record pb_retry_policy =
  pr_minimum_backoff :: "duration option"
  pr_maximum_backoff :: "duration option"

text \<open>The one field of an \<open>ExpirationPolicy\<close> is its \<open>ttl\<close>.\<close>

record pb_subscription =
  ps_name :: string
  ps_topic :: string
  ps_push_config :: "pb_push_config option"
  ps_has_bigquery_config :: bool
  ps_has_cloud_storage_config :: bool
  ps_ack_deadline_seconds :: int
  ps_retain_acked_messages :: bool
  ps_message_retention_duration :: "duration option"
  ps_labels :: attributes
  ps_enable_message_ordering :: bool
  ps_expiration_policy :: "duration option option"
  ps_filter :: string
  ps_dead_letter_policy :: "pb_dead_letter_policy option"
  ps_retry_policy :: "pb_retry_policy option"
  ps_detached :: bool
  ps_enable_exactly_once_delivery :: bool

record pb_message =
  pmsg_data :: bytes
  pmsg_attributes :: attributes
  pmsg_message_id :: string
  pmsg_publish_time :: "timestamp option"
  pmsg_ordering_key :: string

record pb_received_message =
  prm_ack_id :: string
  prm_message :: pb_message
  prm_delivery_attempt :: int

record pb_snapshot =
  pn_name :: string
  pn_topic :: string
  pn_expire_time :: "timestamp option"
  pn_labels :: attributes

datatype seek_target = SeekTime timestamp | SeekSnapshot string

section \<open>Conversions\<close>

definition topic_to_proto :: "topic_record \<Rightarrow> pb_topic" where
  "topic_to_proto r =
     \<lparr>pt_name = tr_name r, pt_labels = tr_labels r, pt_kms_key_name = [], pt_has_schema_settings = False,
      pt_message_retention_duration =
        (if tr_message_retention_secs r > 0 then Some (secs_to_duration (tr_message_retention_secs r)) else None),
      pt_has_ingestion_data_source_settings = False\<rparr>"

definition pulled_to_received_message :: "pulled_message \<Rightarrow> pb_received_message" where
  "pulled_to_received_message m =
     \<lparr>prm_ack_id = pl_ack_id m,
      prm_message =
        \<lparr>pmsg_data = pl_data m, pmsg_attributes = pl_attributes m, pmsg_message_id = pl_message_id m,
         pmsg_publish_time = Some (ms_to_timestamp (pl_publish_time_ms m)), pmsg_ordering_key = pl_ordering_key m\<rparr>,
      prm_delivery_attempt = wrap_i32 (uint (pl_delivery_attempt m))\<rparr>"

definition push_config_to_proto :: "push_config \<Rightarrow> pb_push_config" where
  "push_config_to_proto cfg =
     \<lparr>pp_push_endpoint = pc_endpoint cfg, pp_has_authentication_method = False,
      pp_wrapper = Some (if pc_no_wrapper cfg then NoWrapper (pc_write_metadata cfg) else PubsubWrapper)\<rparr>"

definition push_config_from_proto :: "pb_push_config \<Rightarrow> push_config" where
  "push_config_from_proto pc =
     (case (case pp_wrapper pc of Some (NoWrapper write_metadata) \<Rightarrow> (True, write_metadata) | _ \<Rightarrow> (False, False)) of
        (no_wrapper, write_metadata) \<Rightarrow>
          \<lparr>pc_endpoint = pp_push_endpoint pc, pc_no_wrapper = no_wrapper, pc_write_metadata = write_metadata\<rparr>)"

text \<open>\<open>.filter(|p| !p.push_endpoint.is_empty()).map(push_config_from_proto)\<close>.\<close>

definition requested_push_config :: "pb_push_config option \<Rightarrow> push_config option" where
  "requested_push_config p =
     (case p of Some pc \<Rightarrow> if pp_push_endpoint pc = [] then None else Some (push_config_from_proto pc) | None \<Rightarrow> None)"

definition subscription_to_proto :: "subscription_record \<Rightarrow> pb_subscription" where
  "subscription_to_proto r =
     \<lparr>ps_name = sr_name r, ps_topic = sr_topic r,
      ps_push_config = map_option push_config_to_proto (sr_push_config r),
      ps_has_bigquery_config = False, ps_has_cloud_storage_config = False,
      ps_ack_deadline_seconds = sr_ack_deadline_secs r,
      ps_retain_acked_messages = sr_retain_acked_messages r,
      ps_message_retention_duration = Some (secs_to_duration (sr_message_retention_secs r)),
      ps_labels = sr_labels r, ps_enable_message_ordering = sr_enable_message_ordering r,
      ps_expiration_policy = Some (map_option secs_to_duration (sr_expiration_ttl_secs r)),
      ps_filter = sr_filter r,
      ps_dead_letter_policy = map_option (\<lambda>topic.
        \<lparr>pd_dead_letter_topic = topic, pd_max_delivery_attempts = sr_max_delivery_attempts r\<rparr>) (sr_dead_letter_topic r),
      ps_retry_policy = Some
        \<lparr>pr_minimum_backoff = Some (secs_to_duration (sr_min_retry_backoff_secs r)),
         pr_maximum_backoff = Some (secs_to_duration (sr_max_retry_backoff_secs r))\<rparr>,
      ps_detached = sr_detached r, ps_enable_exactly_once_delivery = sr_enable_exactly_once_delivery r\<rparr>"

definition create_options_from_proto :: "pb_subscription \<Rightarrow> create_subscription_options" where
  "create_options_from_proto sub =
     \<lparr>co_ack_deadline_secs =
        (if ps_ack_deadline_seconds sub \<noteq> 0 then Some (ps_ack_deadline_seconds sub) else None),
      co_retain_acked_messages = ps_retain_acked_messages sub,
      co_message_retention_secs = map_option duration_to_secs (ps_message_retention_duration sub),
      co_labels = ps_labels sub,
      co_enable_message_ordering = ps_enable_message_ordering sub,
      co_expiration_ttl_secs = map_option (map_option duration_to_secs) (ps_expiration_policy sub),
      co_filter = ps_filter sub,
      co_dead_letter_topic = map_option pd_dead_letter_topic (ps_dead_letter_policy sub),
      co_max_delivery_attempts = map_option pd_max_delivery_attempts (ps_dead_letter_policy sub),
      co_min_retry_backoff_secs =
        map_option duration_to_secs (Option.bind (ps_retry_policy sub) pr_minimum_backoff),
      co_max_retry_backoff_secs =
        map_option duration_to_secs (Option.bind (ps_retry_policy sub) pr_maximum_backoff),
      co_enable_exactly_once_delivery = ps_enable_exactly_once_delivery sub,
      co_push_config = requested_push_config (ps_push_config sub),
      co_has_bigquery_config = ps_has_bigquery_config sub,
      co_has_cloud_storage_config = ps_has_cloud_storage_config sub\<rparr>"

definition snapshot_to_proto :: "snapshot_record \<Rightarrow> pb_snapshot" where
  "snapshot_to_proto r =
     \<lparr>pn_name = sn_name r, pn_topic = sn_topic r, pn_expire_time = Some (ms_to_timestamp (sn_expire_at_ms r)),
      pn_labels = sn_labels r\<rparr>"

definition DEFAULT_PAGE_SIZE :: nat where "DEFAULT_PAGE_SIZE = 100"

definition strip_projects_prefix :: "string \<Rightarrow> string" where
  "strip_projects_prefix project = unwrap_or (strip_prefix ''projects/'' project) project"

definition page_size_of :: "int \<Rightarrow> nat" where
  "page_size_of page_size = (if page_size > 0 then nat page_size else DEFAULT_PAGE_SIZE)"

definition page_token_of :: "string \<Rightarrow> string option" where
  "page_token_of page_token = (if page_token \<noteq> [] then Some page_token else None)"

section \<open>Publisher\<close>

definition grpc_create_topic :: "'s kv_ops \<Rightarrow> ext \<Rightarrow> 's service \<Rightarrow> pb_topic \<Rightarrow> ('s, pb_topic) reply" where
  "grpc_create_topic K X v topic =
     respond (svc_create_topic_full K X v (pt_name topic) (pt_labels topic)
       (map_option duration_to_secs (pt_message_retention_duration topic))
       (if pt_kms_key_name topic \<noteq> [] then Some (pt_kms_key_name topic) else None)
       (pt_has_schema_settings topic) (pt_has_ingestion_data_source_settings topic)) topic_to_proto"

definition grpc_update_topic ::
    "'s kv_ops \<Rightarrow> ext \<Rightarrow> 's service \<Rightarrow> pb_topic option \<Rightarrow> string list option \<Rightarrow> ('s, pb_topic) reply" where
  "grpc_update_topic K X v topic update_mask =
     (case topic of
        None \<Rightarrow> (Inl GInvalidArgument, v)
      | Some topic \<Rightarrow>
          let paths = unwrap_or update_mask [];
              labels = (if ''labels'' \<in> set paths then Some (pt_labels topic) else None);
              retention = (if ''message_retention_duration'' \<in> set paths
                           then Some (map_option duration_to_secs (pt_message_retention_duration topic)) else None);
              kms = (if ''kms_key_name'' \<in> set paths
                     then Some (if pt_kms_key_name topic \<noteq> [] then Some (pt_kms_key_name topic) else None) else None)
          in respond (svc_update_topic_full K X v (pt_name topic) labels retention kms) topic_to_proto)"

definition grpc_publish ::
    "'s kv_ops \<Rightarrow> ext \<Rightarrow> 's service \<Rightarrow> int \<Rightarrow> string \<Rightarrow> pb_message list \<Rightarrow> ('s, string list) reply" where
  "grpc_publish K X v now_ms topic messages =
     respond (svc_publish K X v now_ms topic (map (\<lambda>m.
       \<lparr>pm_data = pmsg_data m, pm_attributes = pmsg_attributes m, pm_ordering_key = pmsg_ordering_key m\<rparr>) messages)) id"

definition grpc_get_topic :: "'s kv_ops \<Rightarrow> ext \<Rightarrow> 's service \<Rightarrow> string \<Rightarrow> ('s, pb_topic) reply" where
  "grpc_get_topic K X v topic = respond_pure (svc_get_topic K X v topic) v topic_to_proto"

definition grpc_list_topics ::
    "'s kv_ops \<Rightarrow> ext \<Rightarrow> 's service \<Rightarrow> string \<Rightarrow> int \<Rightarrow> string \<Rightarrow> ('s, pb_topic list \<times> string) reply" where
  "grpc_list_topics K X v project page_size page_token =
     respond_pure (svc_list_topics K X v (strip_projects_prefix project) (page_size_of page_size) (page_token_of page_token)) v
       (\<lambda>(records, next_token). (map topic_to_proto records, unwrap_or next_token []))"

definition grpc_list_topic_subscriptions ::
    "'s kv_ops \<Rightarrow> ext \<Rightarrow> 's service \<Rightarrow> string \<Rightarrow> ('s, string list) reply" where
  "grpc_list_topic_subscriptions K X v topic = respond_pure (svc_list_topic_subscriptions K X v topic) v id"

definition grpc_list_topic_snapshots ::
    "'s kv_ops \<Rightarrow> ext \<Rightarrow> 's service \<Rightarrow> string \<Rightarrow> ('s, string list) reply" where
  "grpc_list_topic_snapshots K X v topic =
     respond_pure (bind_r (svc_get_topic K X v topic) (\<lambda>_. svc_list_topic_snapshots K X v topic)) v id"

definition grpc_delete_topic :: "'s kv_ops \<Rightarrow> ext \<Rightarrow> 's service \<Rightarrow> string \<Rightarrow> ('s, unit) reply" where
  "grpc_delete_topic K X v topic = respond (svc_delete_topic K X v topic) id"

definition grpc_detach_subscription :: "'s kv_ops \<Rightarrow> ext \<Rightarrow> 's service \<Rightarrow> string \<Rightarrow> ('s, unit) reply" where
  "grpc_detach_subscription K X v subscription = respond (svc_detach_subscription K X v subscription) id"

section \<open>Subscriber\<close>

definition grpc_create_subscription ::
    "'s kv_ops \<Rightarrow> ext \<Rightarrow> 's service \<Rightarrow> int \<Rightarrow> pb_subscription \<Rightarrow> ('s, pb_subscription) reply" where
  "grpc_create_subscription K X v now_ms sub =
     respond (svc_create_subscription K X v now_ms (ps_name sub) (ps_topic sub) (create_options_from_proto sub))
       subscription_to_proto"

definition grpc_get_subscription :: "'s kv_ops \<Rightarrow> ext \<Rightarrow> 's service \<Rightarrow> string \<Rightarrow> ('s, pb_subscription) reply" where
  "grpc_get_subscription K X v subscription =
     respond_pure (svc_get_subscription K X v subscription) v subscription_to_proto"

definition IMMUTABLE_PATHS :: "string list" where
  "IMMUTABLE_PATHS = [''name'', ''topic'', ''enable_message_ordering'', ''filter'']"

definition update_patch_of :: "pb_subscription \<Rightarrow> string list \<Rightarrow> subscription_update_patch" where
  "update_patch_of sub paths =
     \<lparr>up_ack_deadline_secs =
        (if ''ack_deadline_seconds'' \<in> set paths then Some (ps_ack_deadline_seconds sub) else None),
      up_retain_acked_messages =
        (if ''retain_acked_messages'' \<in> set paths then Some (ps_retain_acked_messages sub) else None),
      up_message_retention_secs =
        (if ''message_retention_duration'' \<in> set paths
         then map_option duration_to_secs (ps_message_retention_duration sub) else None),
      up_labels = (if ''labels'' \<in> set paths then Some (ps_labels sub) else None),
      up_expiration_ttl_secs =
        (if ''expiration_policy'' \<in> set paths
         then Some (map_option duration_to_secs (Option.bind (ps_expiration_policy sub) id)) else None),
      up_dead_letter_topic =
        (if ''dead_letter_policy'' \<in> set paths
         then Some (map_option pd_dead_letter_topic (ps_dead_letter_policy sub)) else None),
      up_max_delivery_attempts =
        (if ''dead_letter_policy'' \<in> set paths
         then map_option pd_max_delivery_attempts (ps_dead_letter_policy sub) else None),
      up_min_retry_backoff_secs =
        (if ''retry_policy'' \<in> set paths
         then map_option duration_to_secs (Option.bind (ps_retry_policy sub) pr_minimum_backoff) else None),
      up_max_retry_backoff_secs =
        (if ''retry_policy'' \<in> set paths
         then map_option duration_to_secs (Option.bind (ps_retry_policy sub) pr_maximum_backoff) else None),
      up_detached = (if ''detached'' \<in> set paths then Some (ps_detached sub) else None),
      up_enable_exactly_once_delivery =
        (if ''enable_exactly_once_delivery'' \<in> set paths then Some (ps_enable_exactly_once_delivery sub) else None),
      up_push_config =
        (if ''push_config'' \<in> set paths then Some (requested_push_config (ps_push_config sub)) else None)\<rparr>"

definition grpc_update_subscription ::
    "'s kv_ops \<Rightarrow> ext \<Rightarrow> 's service \<Rightarrow> pb_subscription option \<Rightarrow> string list option \<Rightarrow> ('s, pb_subscription) reply" where
  "grpc_update_subscription K X v subscription update_mask =
     (case subscription of
        None \<Rightarrow> (Inl GInvalidArgument, v)
      | Some sub \<Rightarrow>
          let paths = unwrap_or update_mask [] in
          if \<exists>immutable \<in> set IMMUTABLE_PATHS. immutable \<in> set paths then (Inl GInvalidArgument, v)
          else respond (svc_update_subscription K X v (ps_name sub) (update_patch_of sub paths)) subscription_to_proto)"

definition grpc_list_subscriptions ::
    "'s kv_ops \<Rightarrow> ext \<Rightarrow> 's service \<Rightarrow> string \<Rightarrow> int \<Rightarrow> string \<Rightarrow> ('s, pb_subscription list \<times> string) reply" where
  "grpc_list_subscriptions K X v project page_size page_token =
     respond_pure (svc_list_subscriptions K X v (strip_projects_prefix project) (page_size_of page_size)
       (page_token_of page_token)) v (\<lambda>(records, next_token). (map subscription_to_proto records, unwrap_or next_token []))"

definition grpc_delete_subscription :: "'s kv_ops \<Rightarrow> ext \<Rightarrow> 's service \<Rightarrow> string \<Rightarrow> ('s, unit) reply" where
  "grpc_delete_subscription K X v subscription = respond (svc_delete_subscription K X v subscription) id"

definition grpc_modify_ack_deadline ::
    "'s kv_ops \<Rightarrow> ext \<Rightarrow> 's service \<Rightarrow> int \<Rightarrow> string \<Rightarrow> string list \<Rightarrow> int \<Rightarrow> ('s, unit) reply" where
  "grpc_modify_ack_deadline K X v now_ms subscription ack_ids ack_deadline_seconds =
     respond (svc_modify_ack_deadline K X v now_ms subscription ack_ids ack_deadline_seconds) id"

definition grpc_acknowledge ::
    "'s kv_ops \<Rightarrow> ext \<Rightarrow> 's service \<Rightarrow> int \<Rightarrow> string \<Rightarrow> string list \<Rightarrow> ('s, unit) reply" where
  "grpc_acknowledge K X v now_ms subscription ack_ids =
     respond (svc_acknowledge K X v now_ms subscription ack_ids) id"

text \<open>
  A pull that finds nothing waits and tries once more. \<open>others\<close> is what the other users of the
  service do during the wait, and \<open>later_ms\<close> the time after it.
\<close>

definition grpc_pull ::
    "'s kv_ops \<Rightarrow> ext \<Rightarrow> 's service \<Rightarrow> int \<Rightarrow> ('s service \<Rightarrow> 's service) \<Rightarrow> int \<Rightarrow> string \<Rightarrow> int \<Rightarrow>
     ('s, pb_received_message list) reply" where
  "grpc_pull K X v now_ms others later_ms subscription max_messages =
     (let max_messages = (if max_messages > 0 then max_messages else 1) in
      case svc_pull K X v now_ms subscription max_messages of
        (Inl e, v) \<Rightarrow> (Inl (to_status e), v)
      | (Inr delivered, v) \<Rightarrow>
          if delivered \<noteq> [] then (Inr (map pulled_to_received_message delivered), v)
          else
            (case svc_pull_waiter K X v subscription of
               (Inl e, v) \<Rightarrow> (Inr [], v)
             | (Inr _, v) \<Rightarrow>
                 respond (svc_pull K X (others v) later_ms subscription max_messages)
                   (map pulled_to_received_message)))"

definition grpc_modify_push_config ::
    "'s kv_ops \<Rightarrow> ext \<Rightarrow> 's service \<Rightarrow> string \<Rightarrow> pb_push_config option \<Rightarrow> ('s, unit) reply" where
  "grpc_modify_push_config K X v subscription push_config =
     respond (svc_modify_push_config K X v subscription (requested_push_config push_config)) id"

definition grpc_get_snapshot :: "'s kv_ops \<Rightarrow> ext \<Rightarrow> 's service \<Rightarrow> string \<Rightarrow> ('s, pb_snapshot) reply" where
  "grpc_get_snapshot K X v snapshot = respond_pure (svc_get_snapshot K X v snapshot) v snapshot_to_proto"

definition grpc_list_snapshots ::
    "'s kv_ops \<Rightarrow> ext \<Rightarrow> 's service \<Rightarrow> string \<Rightarrow> int \<Rightarrow> string \<Rightarrow> ('s, pb_snapshot list \<times> string) reply" where
  "grpc_list_snapshots K X v project page_size page_token =
     respond_pure (svc_list_snapshots K X v (strip_projects_prefix project) (page_size_of page_size)
       (page_token_of page_token)) v (\<lambda>(records, next_token). (map snapshot_to_proto records, unwrap_or next_token []))"

definition grpc_create_snapshot ::
    "'s kv_ops \<Rightarrow> ext \<Rightarrow> 's service \<Rightarrow> int \<Rightarrow> string \<Rightarrow> string \<Rightarrow> attributes \<Rightarrow> ('s, pb_snapshot) reply" where
  "grpc_create_snapshot K X v now_ms name subscription labels =
     respond (svc_create_snapshot K X v now_ms name subscription labels) snapshot_to_proto"

definition grpc_update_snapshot ::
    "'s kv_ops \<Rightarrow> ext \<Rightarrow> 's service \<Rightarrow> pb_snapshot option \<Rightarrow> string list option \<Rightarrow> ('s, pb_snapshot) reply" where
  "grpc_update_snapshot K X v snapshot update_mask =
     (case snapshot of
        None \<Rightarrow> (Inl GInvalidArgument, v)
      | Some snapshot \<Rightarrow>
          let paths = unwrap_or update_mask [] in
          if ''name'' \<in> set paths \<or> ''topic'' \<in> set paths then (Inl GInvalidArgument, v)
          else if paths = [] \<or> ''labels'' \<in> set paths
          then respond (svc_update_snapshot_labels K X v (pn_name snapshot) (pn_labels snapshot)) snapshot_to_proto
          else respond_pure (svc_get_snapshot K X v (pn_name snapshot)) v snapshot_to_proto)"

definition grpc_delete_snapshot :: "'s kv_ops \<Rightarrow> 's service \<Rightarrow> string \<Rightarrow> ('s, unit) reply" where
  "grpc_delete_snapshot K v snapshot = respond (svc_delete_snapshot K v snapshot) id"

definition grpc_seek ::
    "'s kv_ops \<Rightarrow> ext \<Rightarrow> 's service \<Rightarrow> string \<Rightarrow> seek_target option \<Rightarrow> ('s, unit) reply" where
  "grpc_seek K X v subscription target =
     (case target of
        Some (SeekTime ts) \<Rightarrow> respond (svc_seek_to_time K X v subscription (timestamp_to_ms ts)) id
      | Some (SeekSnapshot snapshot) \<Rightarrow> respond (svc_seek_to_snapshot K X v subscription snapshot) id
      | None \<Rightarrow> (Inl GInvalidArgument, v))"

section \<open>Every call is a run of service operations\<close>

datatype grpc_call =
    CallCreateTopic pb_topic
  | CallUpdateTopic "pb_topic option" "string list option"
  | CallPublish int string "pb_message list"
  | CallDeleteTopic string
  | CallDetachSubscription string
  | CallCreateSubscription int pb_subscription
  | CallUpdateSubscription "pb_subscription option" "string list option"
  | CallDeleteSubscription string
  | CallModifyAckDeadline int string "string list" int
  | CallAcknowledge int string "string list"
  | CallPull int "svc_op list" int string int
  | CallModifyPushConfig string "pb_push_config option"
  | CallCreateSnapshot int string string attributes
  | CallUpdateSnapshot "pb_snapshot option" "string list option"
  | CallDeleteSnapshot string
  | CallSeek string "seek_target option"

text \<open>
  The service after a call; during the wait of a pull the others perform a list of operations.
  The calls left out only read.
\<close>

fun grpc_exec :: "'s kv_ops \<Rightarrow> ext \<Rightarrow> grpc_call \<Rightarrow> 's service \<Rightarrow> 's service" where
  "grpc_exec K X (CallCreateTopic t) v = snd (grpc_create_topic K X v t)"
| "grpc_exec K X (CallUpdateTopic t m) v = snd (grpc_update_topic K X v t m)"
| "grpc_exec K X (CallPublish now t ms) v = snd (grpc_publish K X v now t ms)"
| "grpc_exec K X (CallDeleteTopic t) v = snd (grpc_delete_topic K X v t)"
| "grpc_exec K X (CallDetachSubscription n) v = snd (grpc_detach_subscription K X v n)"
| "grpc_exec K X (CallCreateSubscription now s) v = snd (grpc_create_subscription K X v now s)"
| "grpc_exec K X (CallUpdateSubscription s m) v = snd (grpc_update_subscription K X v s m)"
| "grpc_exec K X (CallDeleteSubscription n) v = snd (grpc_delete_subscription K X v n)"
| "grpc_exec K X (CallModifyAckDeadline now n ids secs) v = snd (grpc_modify_ack_deadline K X v now n ids secs)"
| "grpc_exec K X (CallAcknowledge now n ids) v = snd (grpc_acknowledge K X v now n ids)"
| "grpc_exec K X (CallPull now others later n mx) v = snd (grpc_pull K X v now (fold (svc_exec K X) others) later n mx)"
| "grpc_exec K X (CallModifyPushConfig n p) v = snd (grpc_modify_push_config K X v n p)"
| "grpc_exec K X (CallCreateSnapshot now n s l) v = snd (grpc_create_snapshot K X v now n s l)"
| "grpc_exec K X (CallUpdateSnapshot s m) v = snd (grpc_update_snapshot K X v s m)"
| "grpc_exec K X (CallDeleteSnapshot n) v = snd (grpc_delete_snapshot K v n)"
| "grpc_exec K X (CallSeek n t) v = snd (grpc_seek K X v n t)"

lemma respond_snd [simp]: "snd (respond m f) = snd m"
  by (auto simp: respond_def split: prod.split sum.split)

lemma respond_pure_snd [simp]: "snd (respond_pure m v f) = v"
  by (simp add: respond_pure_def)

lemma ops_one: "v' = svc_exec K X op v \<Longrightarrow> \<exists>ops. v' = fold (svc_exec K X) ops v"
  by (rule exI [of _ "[op]"]) simp

lemma ops_none: "\<exists>ops. v = fold (svc_exec K X) ops v"
  by (rule exI [of _ "[]"]) simp

lemma pull_ops: "\<exists>ops. grpc_exec K X (CallPull now others later n mx) v = fold (svc_exec K X) ops v"
proof -
  let ?mx = "if mx > 0 then mx else 1"
  let ?v1 = "svc_exec K X (Pull now n ?mx) v"
  let ?v2 = "svc_exec K X (PullWaiter n) ?v1"
  let ?ops = "[Pull now n ?mx, PullWaiter n] @ others @ [Pull later n ?mx]"
  have "grpc_exec K X (CallPull now others later n mx) v \<in>
      {?v1, ?v2, svc_exec K X (Pull later n ?mx) (fold (svc_exec K X) others ?v2)}"
    by (cases "svc_pull K X v now n ?mx") (auto simp: grpc_pull_def Let_def split: prod.splits sum.splits)
  moreover have "?v1 = fold (svc_exec K X) [Pull now n ?mx] v" "?v2 = fold (svc_exec K X) [Pull now n ?mx, PullWaiter n] v"
    "svc_exec K X (Pull later n ?mx) (fold (svc_exec K X) others ?v2) = fold (svc_exec K X) ?ops v"
    by simp_all
  ultimately show ?thesis by (metis insertE singletonD)
qed

lemma grpc_exec_ops: "\<exists>ops. grpc_exec K X call v = fold (svc_exec K X) ops v"
proof (cases call)
  case (CallCreateTopic t)
  then show ?thesis
    by (intro ops_one [of _ _ _ "CreateTopic (pt_name t) (pt_labels t)
      (map_option duration_to_secs (pt_message_retention_duration t))
      (if pt_kms_key_name t \<noteq> [] then Some (pt_kms_key_name t) else None)
      (pt_has_schema_settings t) (pt_has_ingestion_data_source_settings t)"]) (simp add: grpc_create_topic_def)
next
  case (CallUpdateTopic t m)
  show ?thesis
  proof (cases t)
    case (Some t')
    have "\<exists>l r k. grpc_exec K X call v = svc_exec K X (UpdateTopic (pt_name t') l r k) v"
      using CallUpdateTopic Some by (auto simp: grpc_update_topic_def Let_def)
    then show ?thesis by (elim exE) (rule ops_one)
  qed (simp add: CallUpdateTopic grpc_update_topic_def ops_none)
next
  case (CallPublish now t ms)
  then show ?thesis
    by (intro ops_one [of _ _ _ "Publish now t (map (\<lambda>m. \<lparr>pm_data = pmsg_data m, pm_attributes = pmsg_attributes m,
      pm_ordering_key = pmsg_ordering_key m\<rparr>) ms)"]) (simp add: grpc_publish_def)
next
  case (CallCreateSubscription now s)
  then show ?thesis
    by (intro ops_one [of _ _ _ "CreateSubscription now (ps_name s) (ps_topic s) (create_options_from_proto s)"])
      (simp add: grpc_create_subscription_def)
next
  case (CallUpdateSubscription s m)
  show ?thesis
  proof (cases s)
    case (Some s')
    then show ?thesis
      using ops_one [of _ K X "UpdateSubscription (ps_name s') (update_patch_of s' (unwrap_or m []))" v] ops_none [of v K X]
      by (auto simp: CallUpdateSubscription grpc_update_subscription_def Let_def)
  qed (simp add: CallUpdateSubscription grpc_update_subscription_def ops_none)
next
  case (CallUpdateSnapshot s m)
  show ?thesis
  proof (cases s)
    case (Some s')
    then show ?thesis
      using ops_one [of _ K X "UpdateSnapshotLabels (pn_name s') (pn_labels s')" v] ops_none [of v K X]
      by (auto simp: CallUpdateSnapshot grpc_update_snapshot_def Let_def)
  qed (simp add: CallUpdateSnapshot grpc_update_snapshot_def ops_none)
next
  case (CallPull now others later n mx)
  then show ?thesis using pull_ops by blast
next
  case (CallSeek n t)
  then show ?thesis
    using ops_one [of _ K X "SeekToTime n _" v] ops_one [of _ K X "SeekToSnapshot n _" v] ops_none [of v K X]
    by (cases t) (auto simp: grpc_seek_def split: seek_target.split)
next
  case (CallDeleteTopic t)
  then show ?thesis by (intro ops_one [of _ _ _ "DeleteTopic t"]) (simp add: grpc_delete_topic_def)
next
  case (CallDetachSubscription n)
  then show ?thesis by (intro ops_one [of _ _ _ "DetachSubscription n"]) (simp add: grpc_detach_subscription_def)
next
  case (CallDeleteSubscription n)
  then show ?thesis by (intro ops_one [of _ _ _ "DeleteSubscription n"]) (simp add: grpc_delete_subscription_def)
next
  case (CallModifyAckDeadline now n ids secs)
  then show ?thesis
    by (intro ops_one [of _ _ _ "ModifyAckDeadline now n ids secs"]) (simp add: grpc_modify_ack_deadline_def)
next
  case (CallAcknowledge now n ids)
  then show ?thesis by (intro ops_one [of _ _ _ "Acknowledge now n ids"]) (simp add: grpc_acknowledge_def)
next
  case (CallModifyPushConfig n p)
  then show ?thesis
    by (intro ops_one [of _ _ _ "ModifyPushConfig n (requested_push_config p)"]) (simp add: grpc_modify_push_config_def)
next
  case (CallCreateSnapshot now n s l)
  then show ?thesis by (intro ops_one [of _ _ _ "CreateSnapshot now n s l"]) (simp add: grpc_create_snapshot_def)
next
  case (CallDeleteSnapshot n)
  then show ?thesis by (intro ops_one [of _ _ _ "DeleteSnapshot n"]) (simp add: grpc_delete_snapshot_def)
qed

end
