(* ===== verification/Streaming.thy ===== *)
theory Streaming
  imports Grpc
begin

text \<open>
  \<open>StreamingPull\<close>, \<open>crates/open-pubusb/src/grpc/streaming.rs\<close>: the opening of a stream, the
  requests on it, and its two tasks. The tasks run concurrently with each other and with every
  other user of the service; a step of the relation is what a task does between two points where
  it may be suspended. The responses handed to the channel are kept in order; the client may stop
  reading at any time, which the sender notices when it sends.
\<close>

section \<open>Requests\<close>

record streaming_request =
  sq_subscription :: string
  sq_ack_ids :: "string list"
  sq_modify_deadline_seconds :: "int list"
  sq_modify_deadline_ack_ids :: "string list"
  sq_stream_ack_deadline_seconds :: int
  sq_max_outstanding_messages :: int
  sq_max_outstanding_bytes :: int

text \<open>The pairs of ids and deadlines, one after the other; the first failure ends the request.\<close>

fun modify_pairs ::
    "'s kv_ops \<Rightarrow> ext \<Rightarrow> int \<Rightarrow> u64 \<Rightarrow> u64 \<Rightarrow> (string \<times> int) list \<Rightarrow> 's service \<Rightarrow> ('s, unit) reply" where
  "modify_pairs K X now_ms stream_id sub_id [] v = (Inr (), v)"
| "modify_pairs K X now_ms stream_id sub_id ((ack_id, seconds) # rest) v =
     (case svc_stream_modify_ack_deadline K X v now_ms stream_id sub_id [ack_id] seconds of
        (Inl e, v) \<Rightarrow> (Inl (to_status e), v)
      | (Inr _, v) \<Rightarrow> modify_pairs K X now_ms stream_id sub_id rest v)"

definition apply_request ::
    "'s kv_ops \<Rightarrow> ext \<Rightarrow> 's service \<Rightarrow> int \<Rightarrow> u64 \<Rightarrow> u64 \<Rightarrow> streaming_request \<Rightarrow> ('s, unit) reply" where
  "apply_request K X v now_ms stream_id sub_id req =
     (if length (sq_modify_deadline_seconds req) \<noteq> length (sq_modify_deadline_ack_ids req)
      then (Inl GInvalidArgument, v)
      else
        (case (if sq_ack_ids req \<noteq> [] then svc_stream_acknowledge K X v now_ms stream_id sub_id (sq_ack_ids req)
               else (Inr (), v)) of
           (Inl e, v) \<Rightarrow> (Inl (to_status e), v)
         | (Inr _, v) \<Rightarrow>
             modify_pairs K X now_ms stream_id sub_id
               (zip (sq_modify_deadline_ack_ids req) (sq_modify_deadline_seconds req)) v))"

section \<open>A stream\<close>

datatype response =
    Properties bool bool
  | Messages "pb_received_message list"
  | Failed grpc_code

definition RESPONSE_CHANNEL_CAPACITY :: nat where
  "RESPONSE_CHANNEL_CAPACITY = 16"

text \<open>
  Where the tasks are suspended. The receive task waits for a request, for the channel to take the
  status of a failed one, or is about to cancel the stream; the send task waits for the channel to
  take the first response, for messages, for the channel to take a batch, for it to take the last
  status, or is about to close the stream.
\<close>

datatype recv_phase = RecvLoop | RecvFail grpc_code | RecvCancel | RecvDone

datatype send_phase = SendFirst | SendLoop | SendBatch "pb_received_message list" | SendFail grpc_code | SendClose | SendDone

text \<open>
  \<open>sk_out\<close> is everything the channel ever took, \<open>sk_read\<close> how much of it the client has read and
  \<open>sk_listening\<close> whether the client still reads.
\<close>

record 's stream_task =
  sk_svc :: "'s service"
  sk_stream :: u64
  sk_sub :: subscription_record
  sk_recv :: recv_phase
  sk_send :: send_phase
  sk_cancelled :: bool
  sk_out :: "response list"
  sk_read :: nat
  sk_listening :: bool

text \<open>
  The first request, \<open>None\<close> when the client closed or failed before it. The result is a status,
  or the two tasks.
\<close>

definition streaming_pull ::
    "'s kv_ops \<Rightarrow> ext \<Rightarrow> 's service \<Rightarrow> int \<Rightarrow> streaming_request option \<Rightarrow> (grpc_code \<times> 's service) + 's stream_task" where
  "streaming_pull K X v now_ms first =
     (case first of
        None \<Rightarrow> Inl (GInvalidArgument, v)
      | Some first \<Rightarrow>
          if sq_subscription first = [] then Inl (GInvalidArgument, v)
          else if \<not> (10 \<le> sq_stream_ack_deadline_seconds first \<and> sq_stream_ack_deadline_seconds first \<le> 600)
          then Inl (GInvalidArgument, v)
          else
            (case svc_open_stream K X v (sq_subscription first) (sq_stream_ack_deadline_seconds first)
                    (sq_max_outstanding_messages first) (sq_max_outstanding_bytes first) of
               (Inl e, v) \<Rightarrow> Inl (to_status e, v)
             | (Inr (stream_id, sub), v) \<Rightarrow>
                 (case apply_request K X v now_ms stream_id (sr_id sub) first of
                    (Inl status, v) \<Rightarrow> Inl (status, svc_close_stream K v stream_id)
                  | (Inr _, v) \<Rightarrow>
                      Inr \<lparr>sk_svc = v, sk_stream = stream_id, sk_sub = sub, sk_recv = RecvLoop,
                           sk_send = SendFirst, sk_cancelled = False, sk_out = [], sk_read = 0,
                           sk_listening = True\<rparr>)))"

text \<open>Whether \<open>tx.send\<close> completes, and what it does: a response is lost when nobody listens.\<close>

definition can_send :: "'s stream_task \<Rightarrow> bool" where
  "can_send d \<longleftrightarrow> \<not> sk_listening d \<or> length (sk_out d) < sk_read d + RESPONSE_CHANNEL_CAPACITY"

definition tx_send :: "response \<Rightarrow> 's stream_task \<Rightarrow> 's stream_task" where
  "tx_send r d = (if sk_listening d then d\<lparr>sk_out := sk_out d @ [r]\<rparr> else d)"

subsection \<open>The receive task\<close>

definition recv_one :: "'s kv_ops \<Rightarrow> ext \<Rightarrow> int \<Rightarrow> streaming_request \<Rightarrow> 's stream_task \<Rightarrow> 's stream_task" where
  "recv_one K X now_ms req d =
     (case apply_request K X (sk_svc d) now_ms (sk_stream d) (sr_id (sk_sub d)) req of
        (Inr _, v) \<Rightarrow> d\<lparr>sk_svc := v\<rparr>
      | (Inl status, v) \<Rightarrow> d\<lparr>sk_svc := v, sk_recv := RecvFail status\<rparr>)"

subsection \<open>The send task\<close>

definition first_response :: "subscription_record \<Rightarrow> response" where
  "first_response sub = Properties (sr_enable_exactly_once_delivery sub) (sr_enable_message_ordering sub)"

definition send_first :: "'s stream_task \<Rightarrow> 's stream_task" where
  "send_first d =
     (if sk_listening d
      then (tx_send (first_response (sk_sub d)) d)
             \<lparr>sk_svc := svc_stream_waiter (sk_svc d) (sr_id (sk_sub d)), sk_send := SendLoop\<rparr>
      else d\<lparr>sk_send := SendClose\<rparr>)"

text \<open>
  \<open>svc_lease_then_wait\<close> and what the loop does with its result. With nothing to send it waits; any
  other branch of the loop may end the wait.
\<close>

definition svc_lease_then_wait :: "'s kv_ops \<Rightarrow> ext \<Rightarrow> int \<Rightarrow> 's stream_task \<Rightarrow> 's stream_task" where
  "svc_lease_then_wait K X now_ms d =
     (case svc_lease_for_stream K X (sk_svc d) now_ms (sk_stream d) of
        (Inl e, v) \<Rightarrow> d\<lparr>sk_svc := v, sk_send := SendFail (to_status e)\<rparr>
      | (Inr delivered, v) \<Rightarrow>
          if delivered = [] then d\<lparr>sk_svc := v\<rparr>
          else d\<lparr>sk_svc := v, sk_send := SendBatch (map pulled_to_received_message delivered)\<rparr>)"

definition send_batch :: "pb_received_message list \<Rightarrow> 's stream_task \<Rightarrow> 's stream_task" where
  "send_batch received_messages d =
     (tx_send (Messages received_messages) d)\<lparr>sk_send := (if sk_listening d then SendLoop else SendClose)\<rparr>"

subsection \<open>Interleaving\<close>

text \<open>
  \<open>expires\<close> is the end of the lifetime of the stream and the shutdown of the process, \<open>reads\<close> and
  \<open>hang_up\<close> are the client's, and \<open>other\<close> is any other user of the service.
\<close>

inductive stream_step :: "'s kv_ops \<Rightarrow> ext \<Rightarrow> 's stream_task \<Rightarrow> 's stream_task \<Rightarrow> bool" for K X where
  receive: "sk_recv d = RecvLoop \<Longrightarrow> stream_step K X d (recv_one K X now_ms req d)"
| receive_end: "sk_recv d = RecvLoop \<Longrightarrow> stream_step K X d (d\<lparr>sk_recv := RecvCancel\<rparr>)"
| receive_fail: "sk_recv d = RecvFail status \<Longrightarrow> can_send d \<Longrightarrow>
    stream_step K X d ((tx_send (Failed status) d)\<lparr>sk_recv := RecvCancel\<rparr>)"
| receive_cancel: "sk_recv d = RecvCancel \<Longrightarrow> stream_step K X d (d\<lparr>sk_recv := RecvDone, sk_cancelled := True\<rparr>)"
| first: "sk_send d = SendFirst \<Longrightarrow> can_send d \<Longrightarrow> stream_step K X d (send_first d)"
| lease: "sk_send d = SendLoop \<Longrightarrow> stream_step K X d (svc_lease_then_wait K X now_ms d)"
| cancelled: "sk_send d = SendLoop \<Longrightarrow> sk_cancelled d \<Longrightarrow> stream_step K X d (d\<lparr>sk_send := SendClose\<rparr>)"
| expires: "sk_send d = SendLoop \<Longrightarrow> stream_step K X d (d\<lparr>sk_send := SendFail GUnavailable\<rparr>)"
| batch: "sk_send d = SendBatch ms \<Longrightarrow> can_send d \<Longrightarrow> stream_step K X d (send_batch ms d)"
| send_fail: "sk_send d = SendFail status \<Longrightarrow> can_send d \<Longrightarrow>
    stream_step K X d ((tx_send (Failed status) d)\<lparr>sk_send := SendClose\<rparr>)"
| close: "sk_send d = SendClose \<Longrightarrow>
    stream_step K X d (d\<lparr>sk_svc := svc_close_stream K (sk_svc d) (sk_stream d), sk_send := SendDone\<rparr>)"
| reads: "sk_read d < length (sk_out d) \<Longrightarrow> stream_step K X d (d\<lparr>sk_read := sk_read d + 1\<rparr>)"
| hang_up: "stream_step K X d (d\<lparr>sk_listening := False\<rparr>)"
| other: "op \<noteq> Restart \<Longrightarrow> stream_step K X d (d\<lparr>sk_svc := svc_exec K X op (sk_svc d)\<rparr>)"

inductive stream_reachable ::
    "'s kv_ops \<Rightarrow> ext \<Rightarrow> 's service \<Rightarrow> 's stream_task \<Rightarrow> bool" for K X v where
  start: "streaming_pull K X v now_ms (Some first) = Inr d \<Longrightarrow> stream_reachable K X v d"
| step: "stream_reachable K X v d \<Longrightarrow> stream_step K X d d' \<Longrightarrow> stream_reachable K X v d'"

section \<open>The service behind a stream\<close>

lemma modify_pairs_run: "svc_run K X sub v (snd (modify_pairs K X now st i ps v))"
proof (induction K X now st i ps v rule: modify_pairs.induct)
  case (2 K X now st i a s rest v)
  have "svc_run K X sub v (snd (svc_stream_modify_ack_deadline K X v now st i [a] s))"
    using svc_run_exec [of K X v sub "StreamModifyAckDeadline now st i [a] s"] by simp
  with 2 svc_run_trans show ?case by (fastforce split: prod.split sum.split)
qed (simp add: svc_run.start)

lemma apply_request_run: "svc_run K X sub v (snd (apply_request K X v now st i req))"
proof -
  have "svc_run K X sub v (snd (svc_stream_acknowledge K X v now st i (sq_ack_ids req)))"
    using svc_run_exec [of K X v sub "StreamAcknowledge now st i (sq_ack_ids req)"] by simp
  moreover have "svc_run K X sub v0 (snd (modify_pairs K X now st i ps v))" if "svc_run K X sub v0 v" for v0 v ps
    using svc_run_trans [OF modify_pairs_run that] .
  ultimately show ?thesis
    by (auto simp: apply_request_def svc_run.start split: prod.split sum.split)
qed

lemma streaming_pull_run:
  assumes "streaming_pull K X v now (Some first) = Inr d"
  shows "svc_run K X sub v (sk_svc d)"
proof -
  let ?o = "svc_open_stream K X v (sq_subscription first) (sq_stream_ack_deadline_seconds first)
    (sq_max_outstanding_messages first) (sq_max_outstanding_bytes first)"
  have "svc_run K X sub v (snd ?o)"
    using svc_run_exec [of K X v sub "OpenStream (sq_subscription first) (sq_stream_ack_deadline_seconds first)
      (sq_max_outstanding_messages first) (sq_max_outstanding_bytes first)"] by simp
  moreover obtain st r where "?o = (Inr (st, r), snd ?o)"
    "sk_svc d = snd (apply_request K X (snd ?o) now st (sr_id r) first)"
    using assms by (auto simp: streaming_pull_def split: if_splits prod.splits sum.splits)
  ultimately show ?thesis using svc_run_trans [OF apply_request_run] by metis
qed

lemma stream_step_run:
  assumes "stream_step K X d d'"
  shows "(\<exists>op. sk_svc d' = svc_exec K X op (sk_svc d)) \<or> (\<forall>sub. svc_run K X sub (sk_svc d) (sk_svc d'))"
  using assms
proof cases
  case (receive now req)
  then show ?thesis
    using apply_request_run [of K X _ "sk_svc d" now "sk_stream d" "sr_id (sk_sub d)" req]
    by (auto simp: recv_one_def split: prod.splits sum.splits)
next
  case first
  then have "sk_svc d' \<in> {sk_svc d, svc_exec K X (StreamWaiter (sr_id (sk_sub d))) (sk_svc d)}"
    by (simp add: send_first_def tx_send_def)
  then show ?thesis by (auto simp del: svc_exec.simps simp: svc_run.start)
next
  case (lease now)
  then have "sk_svc d' = svc_exec K X (LeaseForStream now (sk_stream d)) (sk_svc d)"
    by (auto simp: svc_lease_then_wait_def split: prod.split sum.split)
  then show ?thesis by blast
next
  case close
  then have "sk_svc d' = svc_exec K X (CloseStream (sk_stream d)) (sk_svc d)" by simp
  then show ?thesis by blast
qed (auto simp: tx_send_def send_batch_def intro: svc_run.start)

context store_env
begin

lemma stream_reachable_inv: "stream_reachable K X v d \<Longrightarrow> svc_inv v \<Longrightarrow> svc_inv (sk_svc d)"
proof (induction rule: stream_reachable.induct)
  case (start now first d)
  then show ?case using svc_run_inv [OF streaming_pull_run] by blast
next
  case (step d d')
  then show ?case
    using stream_step_run [OF step.hyps(2)] svc_exec_inv svc_run_inv by metis
qed

end

section \<open>The responses\<close>

text \<open>What the client gets apart from a status: the properties, and after them batches that are not empty.\<close>

fun is_failed :: "response \<Rightarrow> bool" where
  "is_failed (Failed _) = True"
| "is_failed _ = False"

lemma first_response_payload [simp]: "\<not> is_failed (first_response sub)"
  by (simp add: first_response_def)

definition payload :: "'s stream_task \<Rightarrow> response list" where
  "payload d = filter (Not \<circ> is_failed) (sk_out d)"

fun is_batch :: "response \<Rightarrow> bool" where
  "is_batch (Messages ms) = (ms \<noteq> [])"
| "is_batch _ = False"

definition payload_ok :: "subscription_record \<Rightarrow> response list \<Rightarrow> bool" where
  "payload_ok sub rs = (case rs of [] \<Rightarrow> True | r # rs \<Rightarrow> r = first_response sub \<and> list_all is_batch rs)"

lemma payload_ok_first [simp]: "payload_ok sub []" "payload_ok sub [first_response sub]"
  by (simp_all add: payload_ok_def)

lemma payload_ok_snoc [simp]:
  "payload_ok sub (rs @ [r]) \<longleftrightarrow> (if rs = [] then r = first_response sub else payload_ok sub rs \<and> is_batch r)"
  by (cases rs) (auto simp: payload_ok_def)

definition stream_ok :: "'s stream_task \<Rightarrow> bool" where
  "stream_ok d \<longleftrightarrow>
     sk_read d \<le> length (sk_out d) \<and> length (sk_out d) \<le> sk_read d + RESPONSE_CHANNEL_CAPACITY \<and>
     payload_ok (sk_sub d) (payload d) \<and>
     (case sk_send d of
        SendFirst \<Rightarrow> payload d = []
      | SendLoop \<Rightarrow> payload d \<noteq> []
      | SendBatch ms \<Rightarrow> payload d \<noteq> [] \<and> ms \<noteq> []
      | _ \<Rightarrow> True)"

lemma stream_step_ok:
  assumes "stream_step K X d d'" and "stream_ok d"
  shows "stream_ok d' \<and> sk_sub d' = sk_sub d \<and> sk_stream d' = sk_stream d"
  using assms
  by (induction rule: stream_step.induct)
    (auto simp: stream_ok_def payload_def recv_one_def tx_send_def can_send_def send_first_def
      svc_lease_then_wait_def send_batch_def RESPONSE_CHANNEL_CAPACITY_def
      split: prod.split sum.split send_phase.splits)

lemma streaming_pull_ok: "streaming_pull K X v now (Some first) = Inr d \<Longrightarrow> stream_ok d"
  by (auto simp: streaming_pull_def stream_ok_def payload_def payload_ok_def
      split: if_splits prod.splits sum.splits)

lemma stream_reachable_ok: "stream_reachable K X v d \<Longrightarrow> stream_ok d"
  by (induction rule: stream_reachable.induct) (auto simp: streaming_pull_ok dest: stream_step_ok)

end
