(* ===== verification/Listing.thy ===== *)
theory Listing
  imports Catalog
begin

text \<open>
  Listing the resources of a project: the three stores scan their name entries, load the records
  and return the page after a token. A client that walks through the pages sees every resource of
  the project exactly once, in the order of the names.
\<close>

section \<open>Name entries\<close>

lemma of_char_surj: "of_char (char_of (unat b)) = (b :: u8)"
proof -
  have "unat b < 256" using unsigned_less [of b] by simp
  then have n: "(of_char (char_of (unat b) :: char) :: nat) = unat b" by simp
  have "(of_char (char_of (unat b)) :: u8) = of_nat (of_char (char_of (unat b) :: char))" by (simp only: of_nat_of_char)
  then show ?thesis unfolding n by simp
qed

lemma char_of_byte: "char_of (unat (of_char c :: u8)) = c"
  using as_bytes_inject [of "[char_of (unat (of_char c :: u8))]" "[c]"] of_char_surj [of "of_char c"]
  by (simp add: as_bytes_def)

lemma from_utf8_name_key: "from_utf8 (drop (length (name_key kind [])) (name_key kind n)) = n"
  by (simp add: name_key_def from_utf8_def as_bytes_def comp_def char_of_byte)

lemma as_bytes_prefix [simp]: "prefix (as_bytes p) (as_bytes n) \<longleftrightarrow> prefix p n"
proof (induction p arbitrary: n)
  case (Cons c p)
  have "of_char c = (of_char d :: u8) \<longleftrightarrow> c = d" for d
    using as_bytes_inject [of "[c]" "[d]"] by (simp add: as_bytes_def)
  with Cons show ?case by (cases n) (auto simp: as_bytes_def)
qed (simp add: as_bytes_def)

lemma name_key_prefix [simp]: "prefix (name_key kind p) (name_key kind n) \<longleftrightarrow> prefix p n"
  by (simp add: name_key_def)

lemma name_key_range:
  assumes "prefix (name_key kind p) k"
  obtains n where "k = name_key kind n" and "prefix p n"
proof -
  obtain bs where bs: "k = name_key kind p @ bs" using assms by (auto simp: prefix_def)
  have "k = name_key kind (p @ map (\<lambda>b. char_of (unat b)) bs)"
    by (simp add: bs name_key_def as_bytes_def comp_def of_char_surj)
  then show thesis by (rule that) simp
qed

text \<open>The name entries under a prefix.\<close>

definition entries_under :: "view \<Rightarrow> bytes \<Rightarrow> (bytes \<times> bytes) list \<Rightarrow> bool" where
  "entries_under V p rows \<longleftrightarrow>
     distinct (map fst rows) \<and> (\<forall>k b. (k, b) \<in> set rows \<longleftrightarrow> prefix p k \<and> V (''meta'', k) = Some b)"

text \<open>
  What \<open>topic_load_all\<close> and \<open>snapshot_load_all\<close> have in common: \<open>L\<close> goes through the rows and loads
  the record of each with \<open>load\<close>.
\<close>

context registry
begin

lemma load_all_ok:
  assumes good: "good V"
    and L: "L [] = Inr []" "\<And>k v rows. L ((k, v) # rows) =
      (case decode_u64 v of None \<Rightarrow> L rows | Some i \<Rightarrow> bind_r (load i) (\<lambda>r. bind_r (L rows) (\<lambda>rs. Inr (r # rs))))"
    and load: "\<And>i v r. V (''meta'', row_key i) = Some v \<Longrightarrow> from_slice v = Some r \<Longrightarrow> load i = Inr r"
    and rows: "\<forall>(k, b) \<in> set rows. \<exists>n. k = name_key kind n \<and> V (''meta'', k) = Some b" and "distinct (map fst rows)"
  shows "\<exists>rs. L rows = Inr rs \<and> length rs = length rows \<and> distinct (map name_of rs) \<and>
    set rs = {r. \<exists>n b. (name_key kind n, b) \<in> set rows \<and> look V n = Some r}"
  using rows \<open>distinct (map fst rows)\<close>
proof (induction rows)
  case (Cons x rows)
  obtain k b where x: "x = (k, b)" by (cases x)
  obtain rs where rs: "L rows = Inr rs" "length rs = length rows" "distinct (map name_of rs)"
    "set rs = {r. \<exists>n b. (name_key kind n, b) \<in> set rows \<and> look V n = Some r}"
    using Cons by auto
  obtain n where k: "k = name_key kind n" and b: "V (''meta'', name_key kind n) = Some b"
    using Cons.prems(1) by (auto simp: x)
  from good b obtain i v r where r: "b = to_be_bytes i" "V (''meta'', row_key i) = Some v"
    "from_slice v = Some r" "name_of r = n" "look V n = Some r"
    by (rule goodD_name)
  have step: "L (x # rows) = Inr (r # rs)"
    using rs(1) r load by (simp add: x L)
  have "n \<notin> name_of ` set rs"
  proof
    assume "n \<in> name_of ` set rs"
    then obtain r' where r': "r' \<in> set rs" "name_of r' = n" by blast
    then obtain m b' where "(name_key kind m, b') \<in> set rows" "look V m = Some r'"
      using rs(4) by blast
    moreover from this(2) have "m = n" using good r'(2) by (metis look_Some)
    ultimately show False using Cons.prems(2) by (force simp: x k)
  qed
  then show ?case
    using rs r(4,5) Cons.prems(2) unfolding step
    by (intro exI [of _ "r # rs"]) (auto simp: x k)
qed (simp add: L)

lemma entries_look:
  assumes "good V" and "entries_under V (name_key kind p) rows"
  shows "\<forall>(k, b) \<in> set rows. \<exists>n. k = name_key kind n \<and> V (''meta'', k) = Some b"
    and "(\<exists>b. (name_key kind n, b) \<in> set rows) \<longleftrightarrow> prefix p n \<and> look V n \<noteq> None"
proof -
  show "\<forall>(k, b) \<in> set rows. \<exists>n. k = name_key kind n \<and> V (''meta'', k) = Some b"
    using assms(2) by (auto simp: entries_under_def elim!: name_key_range)
  have "look V n \<noteq> None \<longleftrightarrow> V (''meta'', name_key kind n) \<noteq> None"
    using assms(1) by (auto elim: goodD_name look_Some)
  then show "(\<exists>b. (name_key kind n, b) \<in> set rows) \<longleftrightarrow> prefix p n \<and> look V n \<noteq> None"
    using assms(2) by (simp add: entries_under_def)
qed

lemma listed:
  assumes good: "good V"
    and L: "L [] = Inr []" "\<And>k v rows. L ((k, v) # rows) =
      (case decode_u64 v of None \<Rightarrow> L rows | Some i \<Rightarrow> bind_r (load i) (\<lambda>r. bind_r (L rows) (\<lambda>rs. Inr (r # rs))))"
    and load: "\<And>i v r. V (''meta'', row_key i) = Some v \<Longrightarrow> from_slice v = Some r \<Longrightarrow> load i = Inr r"
    and rows: "entries_under V (name_key kind p) rows"
  shows "\<exists>rs. L rows = Inr rs \<and> length rs = length rows \<and> distinct (map name_of rs) \<and>
    set rs = {r. \<exists>n. prefix p n \<and> look V n = Some r}"
proof -
  have "\<exists>rs. L rows = Inr rs \<and> length rs = length rows \<and> distinct (map name_of rs) \<and>
      set rs = {r. \<exists>n b. (name_key kind n, b) \<in> set rows \<and> look V n = Some r}"
    by (rule load_all_ok [where load = load, OF good L _ entries_look(1) [OF good rows]])
      (use load rows in \<open>simp_all add: entries_under_def\<close>)
  then obtain rs where "L rows = Inr rs" "length rs = length rows"
    "distinct (map name_of rs)" "set rs = {r. \<exists>n b. (name_key kind n, b) \<in> set rows \<and> look V n = Some r}" by blast
  moreover have "{r. \<exists>n b. (name_key kind n, b) \<in> set rows \<and> look V n = Some r} = {r. \<exists>n. prefix p n \<and> look V n = Some r}"
    using entries_look(2) [OF good rows] by blast
  ultimately show ?thesis by blast
qed

end

section \<open>Walks\<close>

text \<open>
  A client's walk through a listing: it asks for the first page, then for the page after each
  token it is given. The result is \<open>None\<close> when a request fails or \<open>n\<close> requests were not enough.
\<close>

fun walk_pages :: "nat \<Rightarrow> (string option \<Rightarrow> ('r list \<times> string option) result) \<Rightarrow> string option \<Rightarrow> 'r list option" where
  "walk_pages 0 fetch tok = None"
| "walk_pages (Suc n) fetch tok =
     (case fetch tok of
        Inr (page, None) \<Rightarrow> Some page
      | Inr (page, Some t) \<Rightarrow> map_option ((@) page) (walk_pages n fetch (Some t))
      | Inl _ \<Rightarrow> None)"

lemma walk_pages_from:
  assumes "sorted_wrt (<) (map name_of rs)" and "0 < size_of_page" and "length rs \<le> usize_max"
    and fetch: "\<And>tok. fetch tok = Inr (list_page name_of rs size_of_page tok)"
    and "(tok = None \<and> xs = []) \<or> (xs \<noteq> [] \<and> tok = Some (name_of (last xs)))"
    and "rs = xs @ ys" and "length ys < n"
  shows "walk_pages n fetch tok = Some ys"
  using assms(5-)
proof (induction n arbitrary: xs ys tok)
  case (Suc n)
  note page = list_page_after [OF assms(1-3) Suc.prems(1,2)]
  show ?case
  proof (cases "size_of_page < length ys")
    case True
    let ?p = "take size_of_page ys" and ?q = "drop size_of_page ys"
    have "?p \<noteq> []" using True assms(2) by (cases ys) auto
    then have "walk_pages n fetch (Some (name_of (last ?p))) = Some ?q"
      using Suc.prems True assms(2) by (intro Suc.IH [of _ "xs @ ?p"]) auto
    then show ?thesis using True by (simp add: page fetch [of tok])
  qed (simp add: page fetch [of tok])
qed simp

lemma walk_pages_all:
  assumes "distinct (map name_of rs)" and "0 < size_of_page" and "length rs \<le> usize_max" and "length rs < n"
    and "\<And>tok. fetch tok = Inr (list_page name_of (sort_key name_of rs) size_of_page tok)"
  shows "walk_pages n fetch None = Some (sort_key name_of rs)" and "sorted_wrt (<) (map name_of (sort_key name_of rs))"
proof -
  show sorted: "sorted_wrt (<) (map name_of (sort_key name_of rs))"
    using assms(1) by (simp add: strict_sorted_iff distinct_map)
  show "walk_pages n fetch None = Some (sort_key name_of rs)"
    by (rule walk_pages_from [OF sorted assms(2)]) (use assms(3-5) in auto)
qed

section \<open>The three listings\<close>

text \<open>What a complete listing of the resources \<open>look\<close> under a name prefix is.\<close>

definition complete_listing :: "('r \<Rightarrow> string) \<Rightarrow> string \<Rightarrow> (string \<Rightarrow> 'r option) \<Rightarrow> 'r list \<Rightarrow> bool" where
  "complete_listing name_of p m rs \<longleftrightarrow>
     sorted_wrt (<) (map name_of rs) \<and> set rs = {r. \<exists>n. prefix p n \<and> m n = Some r}"

definition resource_prefix :: "string \<Rightarrow> string \<Rightarrow> string" where
  "resource_prefix project collection = ''projects/'' @ project @ ''/'' @ collection @ ''/''"

context store_env
begin

lemma scan_entries: "wf s \<Longrightarrow> entries_under (V s) p (kv_scan_prefix K s ''meta'' p)"
  using scan_sorted [of s "''meta''"] by (auto simp: entries_under_def scan_set strict_sorted_iff)

lemma scan_length_le:
  assumes "wf s"
  shows "length (kv_scan_prefix K s ''meta'' p) \<le> length (kv_scan_prefix K s ''meta'' [])"
proof -
  note under = scan_entries [OF assms, unfolded entries_under_def]
  have "set (map fst (kv_scan_prefix K s ''meta'' p)) \<subseteq> set (map fst (kv_scan_prefix K s ''meta'' []))"
    using under [of p] under [of "[]"] by force
  then have "card (set (map fst (kv_scan_prefix K s ''meta'' p))) \<le> card (set (map fst (kv_scan_prefix K s ''meta'' [])))"
    by (intro card_mono) simp_all
  then show ?thesis using under [of p] under [of "[]"] by (simp only: distinct_card length_map)
qed

lemma topic_load_all_listed:
  assumes "wf s" and "topics.good (V s)"
  shows "\<exists>rs. topic_load_all K X s (kv_scan_prefix K s ''meta'' (name_key KTopic p)) = Inr rs \<and>
    length rs = length (kv_scan_prefix K s ''meta'' (name_key KTopic p)) \<and> distinct (map tr_name rs) \<and>
    set rs = {r. \<exists>n. prefix p n \<and> topics.look (V s) n = Some r}"
  by (rule topics.listed [where load = "topic_load_record K X s", OF assms(2) _ _ _ scan_entries [OF assms(1)]])
    (simp_all add: topic_load_record_def kv_get_view)

lemma snapshot_load_all_listed:
  assumes "wf s" and "snaps.good (V s)"
  shows "\<exists>rs. snapshot_load_all K X s (kv_scan_prefix K s ''meta'' (name_key KSnapshot p)) = Inr rs \<and>
    length rs = length (kv_scan_prefix K s ''meta'' (name_key KSnapshot p)) \<and> distinct (map sn_name rs) \<and>
    set rs = {r. \<exists>n. prefix p n \<and> snaps.look (V s) n = Some r}"
  by (rule snaps.listed [where load = "snapshot_load_record K X s", OF assms(2) _ _ _ scan_entries [OF assms(1)]])
    (simp_all add: snapshot_load_record_def kv_get_view)

lemma topic_walk:
  assumes "wf s" and "topics.good (V s)" and "0 < page_size"
    and rows: "length (kv_scan_prefix K s ''meta'' (name_key KTopic (resource_prefix project ''topics''))) \<le> usize_max"
      "length (kv_scan_prefix K s ''meta'' (name_key KTopic (resource_prefix project ''topics''))) < n"
  shows "\<exists>rs. walk_pages n (topic_list K X s project page_size) None = Some rs \<and>
    complete_listing tr_name (resource_prefix project ''topics'') (topics.look (V s)) rs"
proof -
  obtain rs where rs: "topic_load_all K X s (kv_scan_prefix K s ''meta'' (name_key KTopic (resource_prefix project ''topics''))) = Inr rs"
      "length rs = length (kv_scan_prefix K s ''meta'' (name_key KTopic (resource_prefix project ''topics'')))"
      "distinct (map tr_name rs)" "set rs = {r. \<exists>n. prefix (resource_prefix project ''topics'') n \<and> topics.look (V s) n = Some r}"
    using topic_load_all_listed [OF assms(1,2)] by blast
  have "topic_list K X s project page_size tok = Inr (list_page tr_name (sort_key tr_name rs) page_size tok)" for tok
    using rs(1) by (simp add: topic_list_def resource_prefix_def)
  from walk_pages_all [OF rs(3) assms(3) _ _ this] rs(2,4) rows show ?thesis
    by (simp add: complete_listing_def)
qed

lemma snapshot_walk:
  assumes "wf s" and "snaps.good (V s)" and "0 < page_size"
    and rows: "length (kv_scan_prefix K s ''meta'' (name_key KSnapshot (resource_prefix project ''snapshots''))) \<le> usize_max"
      "length (kv_scan_prefix K s ''meta'' (name_key KSnapshot (resource_prefix project ''snapshots''))) < n"
  shows "\<exists>rs. walk_pages n (snapshot_list K X s project page_size) None = Some rs \<and>
    complete_listing sn_name (resource_prefix project ''snapshots'') (snaps.look (V s)) rs"
proof -
  obtain rs where rs: "snapshot_load_all K X s (kv_scan_prefix K s ''meta'' (name_key KSnapshot (resource_prefix project ''snapshots''))) = Inr rs"
      "length rs = length (kv_scan_prefix K s ''meta'' (name_key KSnapshot (resource_prefix project ''snapshots'')))"
      "distinct (map sn_name rs)" "set rs = {r. \<exists>n. prefix (resource_prefix project ''snapshots'') n \<and> snaps.look (V s) n = Some r}"
    using snapshot_load_all_listed [OF assms(1,2)] by blast
  have "snapshot_list K X s project page_size tok = Inr (list_page sn_name (sort_key sn_name rs) page_size tok)" for tok
    using rs(1) by (simp add: snapshot_list_def resource_prefix_def)
  from walk_pages_all [OF rs(3) assms(3) _ _ this] rs(2,4) rows show ?thesis
    by (simp add: complete_listing_def)
qed

text \<open>The subscription store sorts the names first and loads only the records of the page.\<close>

lemma sub_get_all_ok:
  assumes "subs.good (V s)" and "\<forall>n \<in> set ns. subs.look (V s) n \<noteq> None"
  shows "sub_get_all K X s ns = Inr (map (\<lambda>n. the (subs.look (V s) n)) ns)"
  using assms(2) by (induction ns) (auto simp: sub_get_ok [OF assms(1)])

lemma scanned_names:
  assumes "subs.good V0" and "entries_under V0 (name_key KSubscription []) entries"
  defines "ns \<equiv> map (\<lambda>(k, _). from_utf8 (drop (length (name_key KSubscription [])) k)) entries"
  shows "distinct ns" and "n \<in> set ns \<longleftrightarrow> subs.look V0 n \<noteq> None"
proof -
  have names: "\<exists>n. fst x = name_key KSubscription n" if "x \<in> set entries" for x
    using subs.entries_look(1) [OF assms(1,2)] that by force
  have keys: "name_key KSubscription (from_utf8 (drop (length (name_key KSubscription [])) (fst x))) = fst x"
    if "x \<in> set entries" for x
    using names [OF that] by (auto simp: from_utf8_name_key)
  have "map (name_key KSubscription) ns = map fst entries"
    unfolding ns_def by (simp add: keys case_prod_unfold)
  moreover have "distinct (map fst entries)" using assms(2) by (simp add: entries_under_def)
  ultimately show "distinct ns" by (metis distinct_map)
  have "n \<in> set ns \<longleftrightarrow> name_key KSubscription n \<in> set (map fst entries)"
    using \<open>map (name_key KSubscription) ns = map fst entries\<close> [symmetric] by auto
  also have "\<dots> \<longleftrightarrow> (\<exists>b. (name_key KSubscription n, b) \<in> set entries)" by force
  also have "\<dots> \<longleftrightarrow> subs.look V0 n \<noteq> None" using subs.entries_look(2) [OF assms(1,2)] by simp
  finally show "n \<in> set ns \<longleftrightarrow> subs.look V0 n \<noteq> None" .
qed

lemma sub_list_page:
  assumes wf: "wf s" and good: "subs.good (V s)" and size: "0 < page_size"
  shows "\<exists>rs. length rs \<le> length (kv_scan_prefix K s ''meta'' (name_key KSubscription [])) \<and>
    complete_listing sr_name (resource_prefix project ''subscriptions'') (subs.look (V s)) rs \<and>
    (length rs \<le> usize_max \<longrightarrow> (\<forall>tok. sub_list K X s project page_size tok = Inr (list_page sr_name rs page_size tok)))"
proof -
  let ?entries = "kv_scan_prefix K s ''meta'' (name_key KSubscription [])"
  let ?p = "resource_prefix project ''subscriptions''"
  define ns where "ns = map (\<lambda>(k, _). from_utf8 (drop (length (name_key KSubscription [])) k)) ?entries"
  define names where "names = sort (filter (prefix ?p) ns)"
  define rs where "rs = map (\<lambda>n. the (subs.look (V s) n)) names"
  note ns = scanned_names [OF good scan_entries [OF wf], folded ns_def]
  have in_names: "n \<in> set names \<longleftrightarrow> prefix ?p n \<and> subs.look (V s) n \<noteq> None" for n
    using ns(2) by (auto simp: names_def)
  have sorted: "sorted_wrt (<) names" using ns(1) by (simp add: names_def strict_sorted_iff)
  have name: "sr_name (the (subs.look (V s) n)) = n" if "n \<in> set names" for n
    using in_names [of n] that good by (auto elim: subs.look_Some)
  then have names: "map sr_name rs = names" by (simp add: rs_def map_idI)
  have "r \<in> set rs \<longleftrightarrow> (\<exists>n. prefix ?p n \<and> subs.look (V s) n = Some r)" for r
    by (force simp: rs_def image_iff in_names)
  with sorted names have complete: "complete_listing sr_name ?p (subs.look (V s)) rs"
    by (auto simp: complete_listing_def)
  have len: "length rs \<le> length ?entries" by (simp add: rs_def names_def ns_def)
  have "sub_list K X s project page_size tok = Inr (list_page sr_name rs page_size tok)" if fits: "length rs \<le> usize_max" for tok
  proof -
    define start where "start = (case tok of Some token \<Rightarrow> length (takeWhile (\<lambda>n. \<not> token < n) names) | None \<Rightarrow> 0)"
    define stop where "stop = min (usize_sat_add start page_size) (length names)"
    have start': "(case tok of Some token \<Rightarrow> length (takeWhile (\<lambda>r. sr_name r \<le> token) rs) | None \<Rightarrow> 0) = start"
      unfolding start_def names [symmetric] by (simp add: takeWhile_map comp_def not_less split: option.split)
    have le: "start \<le> length names" by (auto simp: start_def length_takeWhile_le split: option.split)
    have lens: "length names = length rs" by (simp add: rs_def)
    have pfx: "''projects/'' @ project @ ''/subscriptions/'' = ?p" by (simp add: resource_prefix_def)
    have eff: "(if page_size = 0 then usize_max else page_size) = page_size" using size by simp
    have "sub_get_all K X s (take (stop - start) (drop start names)) = Inr (take (stop - start) (drop start rs))"
      using in_names by (subst sub_get_all_ok [OF good]) (auto simp: rs_def take_map drop_map dest!: in_set_takeD in_set_dropD)
    moreover have "names ! (stop - 1) = sr_name (last (take (stop - start) (drop start rs)))"
      "take (stop - start) (drop start rs) \<noteq> []" if "stop < length names"
    proof -
      have "start < stop" using that le fits size by (auto simp: stop_def usize_sat_add_def lens min_def split: if_splits)
      with that show "take (stop - start) (drop start rs) \<noteq> []" by (simp add: lens)
      have "last (take (stop - start) (drop start rs)) = rs ! (stop - 1)"
        using \<open>start < stop\<close> that by (subst last_conv_nth) (auto simp: lens min_def)
      then show "names ! (stop - 1) = sr_name (last (take (stop - start) (drop start rs)))"
        using that by (simp add: lens flip: names)
    qed
    ultimately show ?thesis
      unfolding sub_list_def list_page_def Let_def start' eff pfx lens [symmetric]
        ns_def [symmetric] names_def [symmetric] start_def [symmetric] stop_def [symmetric]
      by auto
  qed
  with complete len show ?thesis by blast
qed

lemma sub_walk:
  assumes "wf s" and "subs.good (V s)" and "0 < page_size"
    and rows: "length (kv_scan_prefix K s ''meta'' (name_key KSubscription [])) \<le> usize_max"
      "length (kv_scan_prefix K s ''meta'' (name_key KSubscription [])) < n"
  shows "\<exists>rs. walk_pages n (sub_list K X s project page_size) None = Some rs \<and>
    complete_listing sr_name (resource_prefix project ''subscriptions'') (subs.look (V s)) rs"
proof -
  obtain rs where rs: "length rs \<le> length (kv_scan_prefix K s ''meta'' (name_key KSubscription []))"
    "complete_listing sr_name (resource_prefix project ''subscriptions'') (subs.look (V s)) rs"
    "length rs \<le> usize_max \<longrightarrow> (\<forall>tok. sub_list K X s project page_size tok = Inr (list_page sr_name rs page_size tok))"
    using sub_list_page [OF assms(1-3)] by blast
  have "walk_pages n (sub_list K X s project page_size) None = Some rs"
    by (rule walk_pages_from [where xs = "[]", OF _ assms(3)]) (use rs rows in \<open>auto simp: complete_listing_def\<close>)
  with rs(2) show ?thesis by blast
qed

end

end
