(* ===== verification/Snapshot_Sweep.thy ===== *)
theory Snapshot_Sweep
  imports Listing
begin

text \<open>
  The sweep of expired snapshots: its loop over the pages of the listing ends after the first one,
  and it removes exactly the expired snapshots of the project.
\<close>

section \<open>Listing\<close>

definition snapshot_prefix :: "string \<Rightarrow> string" where
  "snapshot_prefix project = ''projects/'' @ project @ ''/snapshots/''"

context store_env
begin

lemma snapshot_list_all:
  assumes wf: "wf s" and good: "snaps.good (V s)"
    and fits: "length (kv_scan_prefix K s ''meta'' (name_key KSnapshot (snapshot_prefix project))) \<le> usize_max"
  shows "\<exists>rs. snapshot_list K X s project usize_max None = Inr (rs, None) \<and> distinct (map sn_name rs) \<and>
    set rs = {r. \<exists>n. prefix (snapshot_prefix project) n \<and> snaps.look (V s) n = Some r}"
proof -
  let ?rows = "kv_scan_prefix K s ''meta'' (name_key KSnapshot (snapshot_prefix project))"
  obtain rs where rs: "snapshot_load_all K X s ?rows = Inr rs"
    "length rs = length ?rows" "distinct (map sn_name rs)"
    "set rs = {r. \<exists>n. prefix (snapshot_prefix project) n \<and> snaps.look (V s) n = Some r}"
    using snapshot_load_all_listed [OF wf good] by blast
  let ?rs = "sort_key sn_name rs"
  have "snapshot_list K X s project usize_max None = Inr (?rs, None)"
    using rs(1,2) fits list_page_unlimited [of ?rs sn_name None] unfolding snapshot_list_def snapshot_prefix_def
    by (simp add: list_page_def Let_def usize_sat_add_def)
  moreover have "distinct (map sn_name ?rs)" using rs(3) by (simp add: distinct_map)
  moreover have "set ?rs = {r. \<exists>n. prefix (snapshot_prefix project) n \<and> snaps.look (V s) n = Some r}"
    using rs(4) by auto
  ultimately show ?thesis by blast
qed

lemma snapshot_scan_single:
  assumes "wf s" and "snaps.good (V s)" and "\<And>n. snaps.look (V s) n \<noteq> None \<Longrightarrow> n = m"
  shows "length (kv_scan_prefix K s ''meta'' (name_key KSnapshot p)) \<le> 1"
proof -
  let ?rows = "kv_scan_prefix K s ''meta'' (name_key KSnapshot p)"
  have "k = name_key KSnapshot m" if k: "k \<in> set (map fst ?rows)" for k
  proof -
    obtain b where b: "V s (''meta'', k) = Some b" "prefix (name_key KSnapshot p) k"
      using k assms(1) by (auto simp: scan_set)
    from b(2) obtain n where "k = name_key KSnapshot n" by (rule name_key_range)
    with b assms(2,3) show ?thesis by (metis option.distinct(1) snaps.look_None)
  qed
  then have "set (map fst ?rows) \<subseteq> {name_key KSnapshot m}" by blast
  then have "card (set (map fst ?rows)) \<le> 1" using card_mono [of "{name_key KSnapshot m}"] by fastforce
  moreover have "distinct (map fst ?rows)"
    using scan_sorted [OF assms(1), of "''meta''"] by (simp add: strict_sorted_iff)
  ultimately show ?thesis by (metis distinct_card length_map)
qed

end

section \<open>Sweeping\<close>

context store_env_reliable
begin

lemma snapshot_delete_total:
  assumes "wf s" and "snaps.good (V s)" and "snaps.look (V s) n = Some r" and "is_ok (snapshot_name_parse n)"
  shows "\<exists>s'. snapshot_delete K s n = (Inr (), s')"
proof -
  have "snapshot_resolve_id K s n = Inr (sn_id r)" using assms by (simp add: snapshot_resolve_ok)
  moreover obtain s1 where s1: "kv_delete K s ''meta'' (snapshot_key (sn_id r)) = (Inr (), s1)"
    using delete_total [OF assms(1)] by fastforce
  moreover obtain s2 where "kv_delete K s1 ''meta'' (name_key KSnapshot n) = (Inr (), s2)"
    using delete_total [of s1] delete_ok' [OF s1] assms(1) by fastforce
  ultimately show ?thesis by (simp add: snapshot_delete_def)
qed

text \<open>One page: of the listed snapshots exactly the expired ones are removed, and counted.\<close>

lemma snapshot_sweep_page_exact:
  assumes "wf s" and "snaps.good (V s)" and "distinct (map sn_name rs)"
    and "\<forall>r \<in> set rs. snaps.look (V s) (sn_name r) = Some r \<and> is_ok (snapshot_name_parse (sn_name r))"
  shows "\<exists>s'. snapshot_sweep_page K now rs removed s =
      (Inr (removed + card {n \<in> sn_name ` set rs. sn_expire_at_ms (the (snaps.look (V s) n)) \<le> now}), s') \<and>
    snaps.look (V s') = snaps.look (V s) |` (- {n \<in> sn_name ` set rs. sn_expire_at_ms (the (snaps.look (V s) n)) \<le> now}) \<and>
    snaps.good (V s') \<and> wf s'"
  using assms
proof (induction rs arbitrary: removed s)
  case Nil
  then show ?case by simp
next
  case (Cons r rs)
  let ?exp = "\<lambda>s rs. {n \<in> sn_name ` set rs. sn_expire_at_ms (the (snaps.look (V s) n)) \<le> now}"
  have r: "snaps.look (V s) (sn_name r) = Some r" "is_ok (snapshot_name_parse (sn_name r))"
    and new: "sn_name r \<notin> sn_name ` set rs" and rest: "distinct (map sn_name rs)"
    using Cons.prems(3,4) by auto
  show ?case
  proof (cases "sn_expire_at_ms r \<le> now")
    case False
    then have "?exp s (r # rs) = ?exp s rs" using r(1) by auto
    moreover have "snapshot_sweep_page K now (r # rs) removed s = snapshot_sweep_page K now rs removed s"
      using False by simp
    ultimately show ?thesis using Cons.IH [OF Cons.prems(1,2) rest] Cons.prems(4) by simp
  next
    case True
    obtain s1 where s1: "snapshot_delete K s (sn_name r) = (Inr (), s1)"
      using snapshot_delete_total [OF Cons.prems(1,2) r] by blast
    note d = snapshot_delete_refines [OF Cons.prems(1,2) s1]
    have same: "snaps.look (V s1) n = snaps.look (V s) n" if "n \<in> sn_name ` set rs" for n
    proof -
      have "n \<noteq> sn_name r" using that new by metis
      then show ?thesis by (simp add: d(2))
    qed
    have exp: "?exp s1 rs = ?exp s rs" "?exp s (r # rs) = insert (sn_name r) (?exp s rs)"
      using r(1) True same by auto
    have "\<forall>r \<in> set rs. snaps.look (V s1) (sn_name r) = Some r \<and> is_ok (snapshot_name_parse (sn_name r))"
      using Cons.prems(4) same by simp
    from Cons.IH [OF d(4,3) rest this, of "removed + 1"] obtain s' where s':
        "snapshot_sweep_page K now rs (removed + 1) s1 = (Inr (removed + 1 + card (?exp s rs)), s')"
        "snaps.look (V s') = snaps.look (V s1) |` (- ?exp s rs)" "snaps.good (V s')" "wf s'"
      unfolding exp(1) by blast
    have "card (?exp s (r # rs)) = Suc (card (?exp s rs))"
      unfolding exp(2) using new by (subst card_insert_disjoint) auto
    moreover have "snapshot_sweep_page K now (r # rs) removed s = (Inr (removed + 1 + card (?exp s rs)), s')"
      using True s1 s'(1) by simp
    moreover have "snaps.look (V s') = snaps.look (V s) |` (- ?exp s (r # rs))"
      unfolding s'(2) exp(2) d(2) by (auto simp: fun_eq_iff restrict_map_def)
    ultimately show ?thesis using s'(3,4) by simp
  qed
qed

lemma snapshot_sweep_total:
  fixes now :: int
  assumes wf: "wf s" and good: "snaps.good (V s)"
    and names: "\<And>n. snaps.look (V s) n \<noteq> None \<Longrightarrow> is_ok (snapshot_name_parse n)"
    and fits: "length (kv_scan_prefix K s ''meta'' (name_key KSnapshot (snapshot_prefix project))) \<le> usize_max"
  defines "E \<equiv> {n. prefix (snapshot_prefix project) n \<and> (\<exists>r. snaps.look (V s) n = Some r \<and> sn_expire_at_ms r \<le> now)}"
  shows "\<exists>s'. snapshot_sweep_expired (Suc fuel) K X s project now = Some (Inr (card E), s') \<and>
    snaps.look (V s') = snaps.look (V s) |` (- E) \<and> snaps.good (V s') \<and> wf s'"
proof -
  obtain rs where rs: "snapshot_list K X s project usize_max None = Inr (rs, None)" "distinct (map sn_name rs)"
    "set rs = {r. \<exists>n. prefix (snapshot_prefix project) n \<and> snaps.look (V s) n = Some r}"
    using snapshot_list_all [OF wf good fits] by blast
  have look: "\<forall>r \<in> set rs. snaps.look (V s) (sn_name r) = Some r \<and> is_ok (snapshot_name_parse (sn_name r))"
  proof
    fix r
    assume "r \<in> set rs"
    then obtain n where n: "snaps.look (V s) n = Some r" using rs(3) by blast
    then have "sn_name r = n" using good by (metis snaps.look_Some)
    with n names [of n] show "snaps.look (V s) (sn_name r) = Some r \<and> is_ok (snapshot_name_parse (sn_name r))" by simp
  qed
  have "sn_name ` set rs = {n. prefix (snapshot_prefix project) n \<and> snaps.look (V s) n \<noteq> None}"
  proof (intro set_eqI iffI)
    fix n
    assume "n \<in> {n. prefix (snapshot_prefix project) n \<and> snaps.look (V s) n \<noteq> None}"
    then obtain r where r: "prefix (snapshot_prefix project) n" "snaps.look (V s) n = Some r" by auto
    then have "r \<in> set rs" "sn_name r = n" using rs(3) good by (blast, metis snaps.look_Some)
    then show "n \<in> sn_name ` set rs" by blast
  next
    fix n
    assume "n \<in> sn_name ` set rs"
    then obtain r where r: "r \<in> set rs" "sn_name r = n" by blast
    then obtain m where m: "prefix (snapshot_prefix project) m" "snaps.look (V s) m = Some r" using rs(3) by blast
    then have "sn_name r = m" using good by (metis snaps.look_Some)
    with r m show "n \<in> {n. prefix (snapshot_prefix project) n \<and> snaps.look (V s) n \<noteq> None}" by auto
  qed
  then have "{n \<in> sn_name ` set rs. sn_expire_at_ms (the (snaps.look (V s) n)) \<le> now} = E"
    by (auto simp: E_def)
  then show ?thesis
    using snapshot_sweep_page_exact [OF wf good rs(2) look, of now 0] rs(1)
    by (fastforce simp: snapshot_sweep_expired_def)
qed

end

end
