(* ===== verification/Catalog_Claims.thy ===== *)
theory Catalog_Claims
  imports Snapshot_Sweep Demo_State
begin

text \<open>The topic, subscription and snapshot stores refine maps from names to records.\<close>

section \<open>The demo catalogs\<close>

lemma demo_catalogs:
  "topics_ok mem_kv_ops demo (svc_kv demo_service)" "topics_of mem_kv_ops demo (svc_kv demo_service) demo_topic_name = Some demo_topic"
  "subscriptions_ok mem_kv_ops demo (svc_kv demo_service)"
  "subscriptions_of mem_kv_ops demo (svc_kv demo_service) demo_sub_name = Some demo_sub"
  "snapshots_ok mem_kv_ops demo (svc_kv demo_service)" "snapshots_of mem_kv_ops demo (svc_kv demo_service) n = None"
  by (auto simp: catalog_defs reg_wf_def reg_lookup_def mem_view demo_service_def demo_leased_view counter_value_def
      demo_topic_def demo_sub_def split: if_splits)

lemma demo_names [simp]: "is_ok (topic_name_parse demo_topic_name)" "is_ok (subscription_name_parse demo_sub_name)"
  by (simp_all add: demo_topic_name_def demo_sub_name_def topic_name_parse_def subscription_name_parse_def
      parse_full_name_def split_full_name_def validate_resource_id_def is_valid_id_char_def
      is_ascii_alphanumeric_def is_ascii_alphabetic_def FORBIDDEN_ID_PREFIX_def MIN_ID_LEN_def MAX_ID_LEN_def char_count_def)

section \<open>Claims\<close>

text \<open>
  C22: the topic store is a map from names to topics. A successful create adds exactly one entry
  under a name that had none, a successful update replaces exactly the given fields of exactly
  one entry, a successful delete removes exactly one entry, a lookup of a valid name returns the
  entry or reports that there is none, and rows and name entries stay consistent.
\<close>

theorem topic_store_refines:
  assumes "store_env K good X" and "good s" and "topics_ok K X s"
  shows "(\<forall>n labels ret kms schema ingest r s'. counter_value (kv_view K s) id_seq_key < - 1 \<longrightarrow>
      topic_create K X s n labels ret kms schema ingest = (Inr r, s') \<longrightarrow>
        topics_of K X s n = None \<and> topics_of K X s' = (topics_of K X s)(n \<mapsto> r) \<and> topics_ok K X s' \<and> good s') \<and>
    (\<forall>n labels ret kms r s'. topic_update K X s n labels ret kms = (Inr r, s') \<longrightarrow>
        (\<exists>r0. topics_of K X s n = Some r0 \<and>
           r = \<lparr>tr_id = tr_id r0, tr_name = n, tr_labels = unwrap_or labels (tr_labels r0),
             tr_message_retention_secs =
               (case ret of Some (Some secs) \<Rightarrow> secs | Some None \<Rightarrow> 0 | None \<Rightarrow> tr_message_retention_secs r0),
             tr_kms_key_name = unwrap_or kms (tr_kms_key_name r0)\<rparr>) \<and>
        topics_of K X s' = (topics_of K X s)(n \<mapsto> r) \<and> topics_ok K X s' \<and> good s') \<and>
    (\<forall>n s'. topic_delete K s n = (Inr (), s') \<longrightarrow>
        topics_of K X s n \<noteq> None \<and> topics_of K X s' = (topics_of K X s)(n := None) \<and> topics_ok K X s' \<and> good s') \<and>
    (\<forall>n. is_ok (topic_name_parse n) \<longrightarrow> topic_get K X s n = ok_or (topics_of K X s n) (NotFound n))"
proof (intro conjI allI impI)
  note env = assms(1) and ok = assms(3) [unfolded catalog_defs]
  fix n labels ret kms schema ingest r s'
  assume "counter_value (kv_view K s) id_seq_key < - 1" "topic_create K X s n labels ret kms schema ingest = (Inr r, s')"
  note c = store_env.topic_create_refines [OF env assms(2) ok this]
  show "topics_of K X s n = None" "topics_of K X s' = (topics_of K X s)(n \<mapsto> r)" "topics_ok K X s'" "good s'"
    using c by (simp_all add: catalog_defs)
next
  note env = assms(1) and ok = assms(3) [unfolded catalog_defs]
  fix n labels ret kms r s'
  assume "topic_update K X s n labels ret kms = (Inr r, s')"
  note u = store_env.topic_update_refines [OF env assms(2) ok this]
  show "\<exists>r0. topics_of K X s n = Some r0 \<and>
      r = \<lparr>tr_id = tr_id r0, tr_name = n, tr_labels = unwrap_or labels (tr_labels r0),
        tr_message_retention_secs =
          (case ret of Some (Some secs) \<Rightarrow> secs | Some None \<Rightarrow> 0 | None \<Rightarrow> tr_message_retention_secs r0),
        tr_kms_key_name = unwrap_or kms (tr_kms_key_name r0)\<rparr>"
    using u unfolding catalog_defs unwrap_or_def by blast
  show "topics_of K X s' = (topics_of K X s)(n \<mapsto> r)" "topics_ok K X s'" "good s'"
    using u unfolding catalog_defs by blast+
next
  note env = assms(1) and ok = assms(3) [unfolded catalog_defs]
  fix n s'
  assume "topic_delete K s n = (Inr (), s')"
  note d = store_env.topic_delete_refines [OF env assms(2) ok this]
  show "topics_of K X s n \<noteq> None" "topics_of K X s' = (topics_of K X s)(n := None)" "topics_ok K X s'" "good s'"
    using d by (simp_all add: catalog_defs)
next
  fix n
  assume "is_ok (topic_name_parse n)"
  then show "topic_get K X s n = ok_or (topics_of K X s n) (NotFound n)"
    using store_env.topic_get_ok [OF assms(1)] assms(3) by (simp add: catalog_defs)
qed

lemma demo_topic_delete:
  "\<exists>s'. topic_delete mem_kv_ops (svc_kv demo_service) demo_topic_name = (Inr (), s')"
  using demo_env.topic_resolve_ok [of "svc_kv demo_service" demo_topic_name 1] demo_catalogs(1,2)
  by (auto simp: topic_delete_def catalog_defs mem_delete_def demo_topic_def)

theorem topic_store_refines_witness:
  "topic_get mem_kv_ops demo (svc_kv demo_service) demo_topic_name = Inr demo_topic \<and>
   (\<exists>s'. topic_delete mem_kv_ops (svc_kv demo_service) demo_topic_name = (Inr (), s') \<and>
      topics_of mem_kv_ops demo s' demo_topic_name = None)"
proof -
  note t = topic_store_refines [OF demo_store_env demo_service_inv(1) demo_catalogs(1)]
  have "topic_get mem_kv_ops demo (svc_kv demo_service) demo_topic_name = Inr demo_topic"
    using t demo_catalogs(2) demo_names(1) by simp
  moreover obtain s' where s': "topic_delete mem_kv_ops (svc_kv demo_service) demo_topic_name = (Inr (), s')"
    using demo_topic_delete by blast
  moreover have "topics_of mem_kv_ops demo s' demo_topic_name = None"
    using t s' by (metis fun_upd_same)
  ultimately show ?thesis by blast
qed

text \<open>
  C23: the subscription store is a map from names to subscriptions. A successful create adds
  exactly one entry under a name that had none, with the requested settings and the defaults for
  the others, and gives it a cursor at the end of the topic's log and an index entry; a
  successful update replaces exactly one entry by its patched version; a successful delete
  removes exactly one entry and its cursor; a lookup returns the entry or reports that there is
  none, and rows and name entries stay consistent.
\<close>

theorem subscription_store_refines:
  assumes "store_env K good X" and "good s" and "subscriptions_ok K X s"
  shows "(\<forall>n t tid attach now opts r s'. sub_create K X s n t tid attach now opts = (Inr r, s') \<longrightarrow>
        subscriptions_of K X s n = None \<and> subscriptions_of K X s' = (subscriptions_of K X s)(n \<mapsto> r) \<and>
        r = built_record n t tid now opts (sr_id r) \<and>
        load_cursor K X s' (sr_id r) = Inr \<lparr>cr_attach_seq = attach, cr_acked_floor = attach, cr_acked_above_floor = []\<rparr> \<and>
        kv_get K s' ''idx'' (topic_sub_idx_key tid (sr_id r)) = Some [] \<and> subscriptions_ok K X s' \<and> good s') \<and>
    (\<forall>n p r s'. sub_update K X s n p = (Inr r, s') \<longrightarrow>
        (\<exists>r0. subscriptions_of K X s n = Some r0 \<and> sub_patch p r0 = Inr r) \<and>
        subscriptions_of K X s' = (subscriptions_of K X s)(n \<mapsto> r) \<and> subscriptions_ok K X s' \<and> good s') \<and>
    (\<forall>n s'. sub_delete K X s n = (Inr (), s') \<longrightarrow>
        (\<exists>r. subscriptions_of K X s n = Some r \<and> kv_get K s' ''sub'' (cursor_key (sr_id r)) = None) \<and>
        subscriptions_of K X s' = (subscriptions_of K X s)(n := None) \<and> subscriptions_ok K X s' \<and> good s') \<and>
    (\<forall>n. sub_get K X s n = ok_or (subscriptions_of K X s n) (NotFound n))"
proof (intro conjI allI impI)
  note env = assms(1) and ok = assms(3) [unfolded catalog_defs]
  fix n t tid attach now opts r s'
  assume run: "sub_create K X s n t tid attach now opts = (Inr r, s')"
  note c = store_env.sub_create_refines [OF env assms(2) ok run]
  show "subscriptions_of K X s n = None" "subscriptions_of K X s' = (subscriptions_of K X s)(n \<mapsto> r)"
    "subscriptions_ok K X s'" "good s'"
    using c by (simp_all add: catalog_defs)
  obtain f where "sub_build_record n t tid now opts = Inr f" "r = f (sr_id r)" using c(5) by blast
  then show "r = built_record n t tid now opts (sr_id r)" unfolding sub_build_iff by metis
  have "ext_laws X" using env by (simp add: store_env_def)
  then show "load_cursor K X s' (sr_id r) =
      Inr \<lparr>cr_attach_seq = attach, cr_acked_floor = attach, cr_acked_above_floor = []\<rparr>"
    using c(6) ext_laws.codec_rt(2) by (simp add: load_cursor_def kv_get_view)
  show "kv_get K s' ''idx'' (topic_sub_idx_key tid (sr_id r)) = Some []"
    using c(7) by (simp add: kv_get_view)
next
  note env = assms(1) and ok = assms(3) [unfolded catalog_defs]
  fix n p r s'
  assume "sub_update K X s n p = (Inr r, s')"
  note u = store_env.sub_update_refines [OF env assms(2) ok this]
  show "\<exists>r0. subscriptions_of K X s n = Some r0 \<and> sub_patch p r0 = Inr r"
    "subscriptions_of K X s' = (subscriptions_of K X s)(n \<mapsto> r)" "subscriptions_ok K X s'" "good s'"
    using u unfolding catalog_defs by blast+
next
  note env = assms(1) and ok = assms(3) [unfolded catalog_defs]
  fix n s'
  assume "sub_delete K X s n = (Inr (), s')"
  note d = store_env.sub_delete_refines [OF env assms(2) ok this]
  show "\<exists>r. subscriptions_of K X s n = Some r \<and> kv_get K s' ''sub'' (cursor_key (sr_id r)) = None"
    "subscriptions_of K X s' = (subscriptions_of K X s)(n := None)" "subscriptions_ok K X s'" "good s'"
    using d unfolding catalog_defs kv_get_view by blast+
next
  show "sub_get K X s n = ok_or (subscriptions_of K X s n) (NotFound n)" for n
    using store_env.sub_get_ok [OF assms(1)] assms(3) by (simp add: catalog_defs)
qed

lemma demo_sub_delete: "\<exists>s'. sub_delete mem_kv_ops demo (svc_kv demo_service) demo_sub_name = (Inr (), s')"
  by (simp add: sub_delete_def demo_sub_get mem_delete_def)

theorem subscription_store_refines_witness:
  "\<exists>s'. sub_delete mem_kv_ops demo (svc_kv demo_service) demo_sub_name = (Inr (), s') \<and>
     subscriptions_of mem_kv_ops demo s' demo_sub_name = None \<and> subscriptions_ok mem_kv_ops demo s'"
proof -
  obtain s' where s': "sub_delete mem_kv_ops demo (svc_kv demo_service) demo_sub_name = (Inr (), s')"
    using demo_sub_delete by blast
  then show ?thesis
    using subscription_store_refines [OF demo_store_env demo_service_inv(1) demo_catalogs(3)] by (metis fun_upd_same)
qed

text \<open>
  C24: the snapshot store is a map from names to snapshots. A successful create adds exactly one
  entry with the given topic, labels, cursor and expiry under a name that had none, a successful
  delete removes exactly one entry, a lookup of a valid name returns the entry or reports that
  there is none, and rows and name entries stay consistent.
\<close>

theorem snapshot_store_refines:
  assumes "store_env K good X" and "good s" and "snapshots_ok K X s"
  shows "(\<forall>n t tid labels c ex r s'. counter_value (kv_view K s) id_seq_key < - 1 \<longrightarrow>
      snapshot_create K X s n t tid labels c ex = (Inr r, s') \<longrightarrow>
        snapshots_of K X s n = None \<and> snapshots_of K X s' = (snapshots_of K X s)(n \<mapsto> r) \<and>
        r = \<lparr>sn_id = sn_id r, sn_name = n, sn_topic = t, sn_topic_id = tid, sn_labels = labels, sn_cursor = c,
          sn_expire_at_ms = ex\<rparr> \<and> snapshots_ok K X s' \<and> good s') \<and>
    (\<forall>n s'. snapshot_delete K s n = (Inr (), s') \<longrightarrow>
        snapshots_of K X s n \<noteq> None \<and> snapshots_of K X s' = (snapshots_of K X s)(n := None) \<and>
        snapshots_ok K X s' \<and> good s') \<and>
    (\<forall>n. is_ok (snapshot_name_parse n) \<longrightarrow> snapshot_get K X s n = ok_or (snapshots_of K X s n) (NotFound n))"
proof (intro conjI allI impI)
  note env = assms(1) and ok = assms(3) [unfolded catalog_defs]
  fix n t tid labels c ex r s'
  assume "counter_value (kv_view K s) id_seq_key < - 1" "snapshot_create K X s n t tid labels c ex = (Inr r, s')"
  note c = store_env.snapshot_create_refines [OF env assms(2) ok this]
  show "snapshots_of K X s n = None" "snapshots_of K X s' = (snapshots_of K X s)(n \<mapsto> r)" "snapshots_ok K X s'" "good s'"
    using c by (simp_all add: catalog_defs)
  show "r = \<lparr>sn_id = sn_id r, sn_name = n, sn_topic = t, sn_topic_id = tid, sn_labels = labels, sn_cursor = c,
      sn_expire_at_ms = ex\<rparr>" by (rule c(5))
next
  note env = assms(1) and ok = assms(3) [unfolded catalog_defs]
  fix n s'
  assume "snapshot_delete K s n = (Inr (), s')"
  note d = store_env.snapshot_delete_refines [OF env assms(2) ok this]
  show "snapshots_of K X s n \<noteq> None" "snapshots_of K X s' = (snapshots_of K X s)(n := None)" "snapshots_ok K X s'" "good s'"
    using d by (simp_all add: catalog_defs)
next
  fix n
  assume "is_ok (snapshot_name_parse n)"
  then show "snapshot_get K X s n = ok_or (snapshots_of K X s n) (NotFound n)"
    using store_env.snapshot_get_ok [OF assms(1)] assms(3) by (simp add: catalog_defs)
qed

definition demo_snapshot_name :: string where
  "demo_snapshot_name = ''projects/p/snapshots/snap''"

lemma demo_snapshot_valid: "is_ok (snapshot_name_parse demo_snapshot_name)"
  by (simp add: demo_snapshot_name_def snapshot_name_parse_def parse_full_name_def validate_resource_id_def
      is_valid_id_char_def is_ascii_alphanumeric_def is_ascii_alphabetic_def FORBIDDEN_ID_PREFIX_def MIN_ID_LEN_def
      MAX_ID_LEN_def char_count_def)

lemma demo_counter: "counter_value (kv_view mem_kv_ops (svc_kv demo_service)) id_seq_key < - 1"
  by (simp add: counter_value_def mem_view demo_service_def demo_leased_view word_less_nat_alt
      unsigned_minus_1_eq_mask mask_eq_exp_minus_1)

lemma demo_snapshot_create:
  "\<exists>r s'. snapshot_create mem_kv_ops demo (svc_kv demo_service) demo_snapshot_name demo_topic_name 1 [] demo_cursor ex =
     (Inr r, s')"
proof -
  note demo_snapshot_valid
  moreover have "mem_get (svc_kv demo_service) ''meta'' (name_key KSnapshot demo_snapshot_name) = None"
    by (simp add: mem_get_map_of demo_service_def demo_leased_view)
  moreover have "x = Inr ()" if "snapshot_put_record mem_kv_ops demo s r = (x, s')" for s r x s'
  proof -
    obtain b where "snapshot_to_vec demo r = Some b" using demo.snapshot_rt by (metis serde_roundtripE)
    then show ?thesis using that by (simp add: snapshot_put_record_def mem_put_def)
  qed
  ultimately show ?thesis
    by (cases "snapshot_name_parse demo_snapshot_name")
      (fastforce simp: snapshot_create_def snapshot_next_id_def mem_put_def Let_def bind_st_def split: prod.split sum.split)+
qed

theorem snapshot_store_refines_witness:
  "\<exists>r s'. snapshot_create mem_kv_ops demo (svc_kv demo_service) demo_snapshot_name demo_topic_name 1 [] demo_cursor 99 =
     (Inr r, s') \<and> snapshots_of mem_kv_ops demo s' demo_snapshot_name = Some r \<and> sn_cursor r = demo_cursor"
proof -
  obtain r s' where s': "snapshot_create mem_kv_ops demo (svc_kv demo_service) demo_snapshot_name demo_topic_name 1 []
      demo_cursor 99 = (Inr r, s')"
    using demo_snapshot_create by blast
  from s' demo_counter have "snapshots_of mem_kv_ops demo s' =
        (snapshots_of mem_kv_ops demo (svc_kv demo_service))(demo_snapshot_name \<mapsto> r)"
      "r = \<lparr>sn_id = sn_id r, sn_name = demo_snapshot_name, sn_topic = demo_topic_name, sn_topic_id = 1, sn_labels = [],
        sn_cursor = demo_cursor, sn_expire_at_ms = 99\<rparr>"
    using snapshot_store_refines [OF demo_store_env demo_service_inv(1) demo_catalogs(5)] by blast+
  then have "snapshots_of mem_kv_ops demo s' demo_snapshot_name = Some r" "sn_cursor r = demo_cursor"
    by (simp, metis snapshot_record.select_convs(6))
  with s' show ?thesis by blast
qed

text \<open>
  C26: the sweep of expired snapshots ends and is exact. On a store whose writes succeed, with
  consistent rows under valid names and a listing that fits into memory, the loop over the pages
  of the listing ends after the first page, whatever the fuel; it removes exactly the snapshots of
  the project whose expiry time has come, and returns their number.
\<close>

theorem snapshot_sweep_exact:
  assumes "store_env_reliable K good X" and "good s" and "snapshots_ok K X s"
    and "\<forall>n. snapshots_of K X s n \<noteq> None \<longrightarrow> is_ok (snapshot_name_parse n)"
    and "length (kv_scan_prefix K s ''meta'' (name_key KSnapshot (''projects/'' @ project @ ''/snapshots/''))) \<le> usize_max"
  shows "\<exists>s' E. snapshot_sweep_expired (Suc fuel) K X s project now = Some (Inr (card E), s') \<and>
    E = {n. prefix (''projects/'' @ project @ ''/snapshots/'') n \<and>
          (\<exists>r. snapshots_of K X s n = Some r \<and> sn_expire_at_ms r \<le> now)} \<and>
    snapshots_of K X s' = snapshots_of K X s |` (- E) \<and> snapshots_ok K X s' \<and> good s'"
  using store_env_reliable.snapshot_sweep_total [OF assms(1-2), of project fuel now] assms(3-5)
  by (simp add: catalog_defs snapshot_prefix_def)

theorem snapshot_sweep_exact_witness:
  "\<exists>r s s'. snapshot_create mem_kv_ops demo (svc_kv demo_service) demo_snapshot_name demo_topic_name 1 [] demo_cursor 99 =
     (Inr r, s) \<and> snapshot_sweep_expired 1 mem_kv_ops demo s ''p'' 100 = Some (Inr 1, s') \<and>
     snapshots_of mem_kv_ops demo s' demo_snapshot_name = None"
proof -
  obtain r s where s: "snapshot_create mem_kv_ops demo (svc_kv demo_service) demo_snapshot_name demo_topic_name 1 []
      demo_cursor 99 = (Inr r, s)"
    using demo_snapshot_create by blast
  note c = store_env.snapshot_create_refines [OF demo_store_env demo_service_inv(1) demo_catalogs(5) [unfolded catalog_defs] demo_counter s]
  have of_s: "snapshots_of mem_kv_ops demo s = [demo_snapshot_name \<mapsto> r]"
    using c(2) demo_catalogs(6) by (auto simp: catalog_defs fun_eq_iff)
  have ex: "sn_expire_at_ms r = 99" using c(5) by (metis snapshot_record.select_convs(7))
  have ok: "snapshots_ok mem_kv_ops demo s" "hm_wf s" using c(3,4) by (simp_all add: catalog_defs)
  have names: "\<forall>n. snapshots_of mem_kv_ops demo s n \<noteq> None \<longrightarrow> is_ok (snapshot_name_parse n)"
    using demo_snapshot_valid by (simp add: of_s)
  have "length (kv_scan_prefix mem_kv_ops s ''meta'' (name_key KSnapshot p)) \<le> usize_max" for p
  proof -
    have "n = demo_snapshot_name" if "snapshots_of mem_kv_ops demo s n \<noteq> None" for n
      using that by (simp add: of_s split: if_splits)
    then have "length (kv_scan_prefix mem_kv_ops s ''meta'' (name_key KSnapshot p)) \<le> 1"
      unfolding catalog_defs by (rule store_env.snapshot_scan_single [OF demo_store_env ok(2) ok(1) [unfolded catalog_defs]])
    also have "1 \<le> usize_max" by (simp add: usize_max_def)
    finally show ?thesis .
  qed
  then obtain s' E where s': "snapshot_sweep_expired (Suc 0) mem_kv_ops demo s ''p'' 100 = Some (Inr (card E), s')"
    "E = {n. prefix (''projects/'' @ ''p'' @ ''/snapshots/'') n \<and>
          (\<exists>r. snapshots_of mem_kv_ops demo s n = Some r \<and> sn_expire_at_ms r \<le> 100)}"
    "snapshots_of mem_kv_ops demo s' = snapshots_of mem_kv_ops demo s |` (- E)"
    using snapshot_sweep_exact [OF demo_store_env_reliable ok(2,1) names, of "''p''" 0 100] by blast
  have "E = {demo_snapshot_name}" unfolding s'(2) of_s by (auto simp: ex demo_snapshot_name_def split: if_splits)
  then have "snapshot_sweep_expired 1 mem_kv_ops demo s ''p'' 100 = Some (Inr 1, s')"
    "snapshots_of mem_kv_ops demo s' demo_snapshot_name = None"
    using s'(1,3) by simp_all
  with s show ?thesis by blast
qed

section \<open>Listings\<close>

text \<open>
  C25: listings are complete. With consistent stores, a client that asks for the topics, the
  subscriptions or the snapshots of a project page by page, with any positive page size, gets an
  answer to every request, and the pages together hold every resource of the project that exists
  exactly once, in the order of the names; more requests than there are rows are never needed.
\<close>

theorem listings_complete:
  assumes "store_env K good X" and "good s"
    and "topics_ok K X s" and "subscriptions_ok K X s" and "snapshots_ok K X s"
    and "0 < page_size" and "length (kv_scan_prefix K s ''meta'' []) \<le> usize_max"
    and "length (kv_scan_prefix K s ''meta'' []) < n"
  shows "(\<exists>rs. walk_pages n (topic_list K X s project page_size) None = Some rs \<and>
      complete_listing tr_name (resource_prefix project ''topics'') (topics_of K X s) rs) \<and>
    (\<exists>rs. walk_pages n (sub_list K X s project page_size) None = Some rs \<and>
      complete_listing sr_name (resource_prefix project ''subscriptions'') (subscriptions_of K X s) rs) \<and>
    (\<exists>rs. walk_pages n (snapshot_list K X s project page_size) None = Some rs \<and>
      complete_listing sn_name (resource_prefix project ''snapshots'') (snapshots_of K X s) rs)"
proof -
  have fits: "length (kv_scan_prefix K s ''meta'' p) \<le> usize_max" "length (kv_scan_prefix K s ''meta'' p) < n" for p
    using store_env.scan_length_le [OF assms(1,2), of p] assms(7,8) by simp_all
  show ?thesis
    using store_env.topic_walk [OF assms(1,2) assms(3) [unfolded catalog_defs] assms(6) fits]
      store_env.sub_walk [OF assms(1,2) assms(4) [unfolded catalog_defs] assms(6) fits]
      store_env.snapshot_walk [OF assms(1,2) assms(5) [unfolded catalog_defs] assms(6) fits]
    by (simp add: catalog_defs)
qed

theorem listings_complete_witness:
  "\<exists>rs. walk_pages 20 (topic_list mem_kv_ops demo (svc_kv demo_service) ''p'' 1) None = Some rs \<and> demo_topic \<in> set rs"
proof -
  let ?s = "svc_kv demo_service"
  have "length (kv_scan_prefix mem_kv_ops ?s ''meta'' []) \<le> length ?s" by (simp add: mem_scan_prefix_def)
  also have "length ?s < 20" by (simp add: demo_service_def demo_leased_def demo_kv_def hm_insert_def)
  finally have n: "length (kv_scan_prefix mem_kv_ops ?s ''meta'' []) < 20" .
  then have fits: "length (kv_scan_prefix mem_kv_ops ?s ''meta'' []) \<le> usize_max" by (simp add: usize_max_def)
  obtain rs where rs: "walk_pages 20 (topic_list mem_kv_ops demo ?s ''p'' 1) None = Some rs"
      "complete_listing tr_name (resource_prefix ''p'' ''topics'') (topics_of mem_kv_ops demo ?s) rs"
    using listings_complete [OF demo_store_env demo_service_inv(1) demo_catalogs(1,3,5) _ fits n, of 1 "''p''"] by auto
  moreover have "prefix (resource_prefix ''p'' ''topics'') demo_topic_name"
    by (simp add: resource_prefix_def demo_topic_name_def)
  ultimately have "demo_topic \<in> set rs" using demo_catalogs(2) by (auto simp: complete_listing_def)
  with rs show ?thesis by blast
qed

end
