(* ===== verification/Grpc_Claims.thy ===== *)
theory Grpc_Claims
  imports Grpc Catalog_Claims
begin

text \<open>What the gRPC front end guarantees, with concrete instances on the demo service.\<close>

section \<open>Facts\<close>

lemma i64_div_nonneg: "0 \<le> a \<Longrightarrow> 0 < b \<Longrightarrow> i64_div a b = a div b"
  by (cases "a = 0") (simp_all add: i64_div_def)

lemma subscription_echo_options:
  "requested_push_config (map_option push_config_to_proto (requested_push_config p)) = requested_push_config p"
  by (auto simp: requested_push_config_def push_config_to_proto_def push_config_from_proto_def
      split: option.split pb_wrapper.split)

lemma secs_roundtrip [simp]: "duration_to_secs (secs_to_duration s) = s"
  by (simp add: duration_to_secs_def secs_to_duration_def)

lemma built_echo:
  assumes "sub_build_record n t tid now (create_options_from_proto sub) = Inr f"
  shows "sub_build_record n t tid now (create_options_from_proto (subscription_to_proto (f i))) =
    Inr (\<lambda>j. (f j)\<lparr>sr_retry_policy_explicit := True\<rparr>)"
proof -
  let ?o = "create_options_from_proto sub"
  let ?e = "create_options_from_proto (subscription_to_proto (f i))"
  note b = assms [unfolded sub_build_iff]
  have f: "f = built_record n t tid now ?o" using b by blast
  have deadline: "unwrap_or (co_ack_deadline_secs ?o) 10 \<noteq> 0"
    using b by (auto simp: validate_ack_deadline_secs_def MIN_ACK_DEADLINE_SECS_def split: if_splits)
  then have e: "?e = \<lparr>co_ack_deadline_secs = Some (unwrap_or (co_ack_deadline_secs ?o) 10),
      co_retain_acked_messages = co_retain_acked_messages ?o,
      co_message_retention_secs = Some (unwrap_or (co_message_retention_secs ?o) 604800),
      co_labels = co_labels ?o, co_enable_message_ordering = co_enable_message_ordering ?o,
      co_expiration_ttl_secs = Some (unwrap_or (co_expiration_ttl_secs ?o) (Some 2678400)),
      co_filter = co_filter ?o, co_dead_letter_topic = co_dead_letter_topic ?o,
      co_max_delivery_attempts = map_option (\<lambda>_. sr_max_delivery_attempts (f i)) (co_dead_letter_topic ?o),
      co_min_retry_backoff_secs = Some (unwrap_or (co_min_retry_backoff_secs ?o) 10),
      co_max_retry_backoff_secs = Some (unwrap_or (co_max_retry_backoff_secs ?o) 600),
      co_enable_exactly_once_delivery = co_enable_exactly_once_delivery ?o,
      co_push_config = co_push_config ?o, co_has_bigquery_config = False, co_has_cloud_storage_config = False\<rparr>"
    unfolding f create_options_from_proto_def [of "subscription_to_proto _"]
    by (simp add: subscription_to_proto_def built_record_def option.map_comp comp_def option.map_ident
        create_options_from_proto_def [of sub] subscription_echo_options)
  have "sr_max_delivery_attempts (f i) \<noteq> 0 \<and> is_ok (validate_dead_letter_max_attempts (sr_max_delivery_attempts (f i)))"
    if "co_dead_letter_topic ?o \<noteq> None"
    using b that by (auto simp: f built_record_def validate_dead_letter_max_attempts_def
        MIN_DEAD_LETTER_MAX_ATTEMPTS_def MAX_DEAD_LETTER_MAX_ATTEMPTS_def split: if_splits)
  moreover have "is_ok (validate_retry_backoff_secs (unwrap_or (co_min_retry_backoff_secs ?o) 10))"
    "is_ok (validate_retry_backoff_secs (unwrap_or (co_max_retry_backoff_secs ?o) 600))"
    using b by (cases "co_min_retry_backoff_secs ?o"; cases "co_max_retry_backoff_secs ?o";
        simp add: validate_retry_backoff_secs_def MIN_RETRY_BACKOFF_SECS_def MAX_RETRY_BACKOFF_SECS_def)+
  moreover have "built_record n t tid now ?e = (\<lambda>j. (f j)\<lparr>sr_retry_policy_explicit := True\<rparr>)"
    using calculation(1) unfolding e by (auto simp: built_record_def f fun_eq_iff)
  ultimately show ?thesis
    using b unfolding sub_build_iff e by auto
qed

lemma sub_patch_fields:
  assumes "sub_patch p r0 = Inr r"
  shows "sr_id r = sr_id r0" "sr_name r = sr_name r0" "sr_topic r = sr_topic r0" "sr_filter r = sr_filter r0"
    "sr_enable_message_ordering r = sr_enable_message_ordering r0"
    "sr_ack_deadline_secs r = unwrap_or (up_ack_deadline_secs p) (sr_ack_deadline_secs r0)"
    "sr_retain_acked_messages r = unwrap_or (up_retain_acked_messages p) (sr_retain_acked_messages r0)"
    "sr_labels r = unwrap_or (up_labels p) (sr_labels r0)"
    "sr_dead_letter_topic r = unwrap_or (up_dead_letter_topic p) (sr_dead_letter_topic r0)"
    "sr_detached r = unwrap_or (up_detached p) (sr_detached r0)"
    "sr_enable_exactly_once_delivery r = unwrap_or (up_enable_exactly_once_delivery p) (sr_enable_exactly_once_delivery r0)"
    "sr_push_config r = unwrap_or (up_push_config p) (sr_push_config r0)"
  unfolding sub_patch_ok [OF assms] by simp_all

section \<open>Claims\<close>

text \<open>
  Millisecond times survive the conversion to a protobuf timestamp and back, and the timestamp
  is normalised, for all times but the second next to the smallest 64-bit value.
\<close>

theorem timestamp_roundtrip:
  assumes "in_i64 ms" and "i64_min + 1000 \<le> ms"
  shows "timestamp_to_ms (ms_to_timestamp ms) = ms \<and>
    0 \<le> ts_nanos (ms_to_timestamp ms) \<and> ts_nanos (ms_to_timestamp ms) < 1000000000"
proof -
  have "i64_min \<le> ms div 1000 * 1000" "ms div 1000 * 1000 \<le> i64_max"
    using assms by (auto simp: in_i64_def i64_min_def i64_max_def)
  then have "i64_sat_mul (ms div 1000) 1000 = ms div 1000 * 1000"
    by (simp add: i64_sat_mul_def sat_i64_id in_i64_def)
  moreover have "i64_div (ms mod 1000 * 1000000) 1000000 = ms mod 1000"
    by (simp add: i64_div_nonneg)
  ultimately show ?thesis
    using assms(1) pos_mod_bound [of 1000 ms]
    by (simp add: timestamp_to_ms_def ms_to_timestamp_def wrap_i64_id)
qed

theorem timestamp_roundtrip_witness: "timestamp_to_ms (ms_to_timestamp (- 1)) = - 1"
  using timestamp_roundtrip [of "- 1"] by (simp add: in_i64_def i64_min_def i64_max_def)


definition demo_request :: pb_subscription where
  "demo_request =
     \<lparr>ps_name = demo_sub_name, ps_topic = demo_topic_name, ps_push_config = None, ps_has_bigquery_config = False,
      ps_has_cloud_storage_config = False, ps_ack_deadline_seconds = 0, ps_retain_acked_messages = False,
      ps_message_retention_duration = None, ps_labels = [(''env'', ''test'')], ps_enable_message_ordering = True,
      ps_expiration_policy = None, ps_filter = [],
      ps_dead_letter_policy = Some \<lparr>pd_dead_letter_topic = demo_topic_name, pd_max_delivery_attempts = 0\<rparr>,
      ps_retry_policy = None, ps_detached = False, ps_enable_exactly_once_delivery = False\<rparr>"



definition demo_update :: pb_subscription where
  "demo_update = demo_request\<lparr>ps_labels := [(''env'', ''prod'')], ps_ack_deadline_seconds := 60\<rparr>"

lemma demo_update_reply:
  "\<exists>resp v'. grpc_update_subscription mem_kv_ops demo demo_service (Some demo_update) (Some [''labels'']) = (Inr resp, v')"
proof -
  let ?p = "update_patch_of demo_update [''labels'']"
  have "\<exists>r. sub_patch ?p demo_sub = Inr r"
    by (simp add: sub_patch_def update_patch_of_def Let_def)
  then obtain r where r: "sub_patch ?p demo_sub = Inr r" by blast
  obtain b where "sub_to_vec demo r = Some b" using demo.sub_rt by (metis serde_roundtripE)
  then have "\<exists>s'. sub_update mem_kv_ops demo (svc_kv demo_service) demo_sub_name ?p = (Inr r, s')"
    by (simp add: sub_update_def demo_sub_get r sub_persist_def mem_put_def)
  then show ?thesis
    by (auto simp: grpc_update_subscription_def IMMUTABLE_PATHS_def demo_update_def demo_request_def respond_def
        svc_update_subscription_def on_store_def on_engine_def on_kv_def)
qed




end
