(* ===== verification/Streaming_Claims.thy ===== *)
theory Streaming_Claims
  imports Streaming Grpc_Claims
begin

text \<open>What a client of a \<open>StreamingPull\<close> sees, in every interleaving of the stream's tasks.\<close>

definition demo_first :: streaming_request where
  "demo_first =
     \<lparr>sq_subscription = demo_sub_name, sq_ack_ids = [], sq_modify_deadline_seconds = [],
      sq_modify_deadline_ack_ids = [], sq_stream_ack_deadline_seconds = 10,
      sq_max_outstanding_messages = 5, sq_max_outstanding_bytes = 0\<rparr>"

definition demo_task :: "mem_kv stream_task" where
  "demo_task = \<lparr>sk_svc = snd (svc_open_stream mem_kv_ops demo demo_service demo_sub_name 10 5 0), sk_stream = 1,
     sk_sub = demo_sub, sk_recv = RecvLoop, sk_send = SendFirst, sk_cancelled = False, sk_out = [],
     sk_read = 0, sk_listening = True\<rparr>"

lemma demo_streaming_pull: "streaming_pull mem_kv_ops demo demo_service 50 (Some demo_first) = Inr demo_task"
proof -
  have "sg_next_id (eng_streams (svc_engine demo_service)) = 0"
    by (simp add: demo_service_def demo_leased_def demo_engine_def stream_registry_new_def)
  moreover have "\<not> is_detached demo_sub"
    by (simp add: is_detached_def demo_sub_def demo_topic_name_def DELETED_TOPIC_def)
  ultimately have "fst (svc_open_stream mem_kv_ops demo demo_service demo_sub_name 10 5 0) = Inr (1, demo_sub)"
    unfolding svc_open_stream_def demo_sub_get with_r_simps open_stream_def stream_open_def Let_def
    by (simp split: prod.split)
  then obtain v where "svc_open_stream mem_kv_ops demo demo_service demo_sub_name 10 5 0 = (Inr (1, demo_sub), v)"
    by (metis prod.collapse)
  then show ?thesis
    by (simp add: streaming_pull_def demo_first_def demo_task_def apply_request_def demo_sub_name_def)
qed

lemma batches_of: "list_all is_batch rs \<Longrightarrow> \<exists>batches. [] \<notin> set batches \<and> rs = map Messages batches"
proof (induction rs)
  case (Cons r rs)
  then have "list_all is_batch rs" by simp
  from Cons.IH [OF this] obtain bs where "[] \<notin> set bs" "rs = map Messages bs" by (elim exE conjE)
  moreover obtain ms where "r = Messages ms" "ms \<noteq> []"
    using Cons.prems by (cases r) simp_all
  ultimately have "[] \<notin> set (ms # bs) \<and> r # rs = map Messages (ms # bs)" by simp
  then show ?case by (rule exI)
qed simp



end
