(* ===== verification/Rest.thy ===== *)
theory Rest
  imports Grpc
begin

text \<open>
  The REST front end, \<open>crates/open-pubusb/src/rest\<close>: the error body (\<open>error.rs\<close>), the handlers
  (\<open>handlers.rs\<close>), the routes (\<open>router.rs\<close>) and the fallback applied to them by \<open>server.rs\<close>.

  \<^item> A path is the list of its decoded segments; the paths of the gRPC services, which share the
    port, are not among them.
  \<^item> The JSON libraries are the parameter \<open>rest_ext\<close>: the parser from bytes to a JSON value, the
    deserializers generated for the request bodies and the base64 decoder. So is what the HTTP
    framework does on its own: the optional JSON body of \<open>create_topic\<close>, which it may refuse, and its
    answer to a method no handler is registered for. A \<open>HEAD\<close> request, which the framework serves
    by the \<open>GET\<close> handler, is left out.
  \<^item> A response body is the value that is serialized.
\<close>

section \<open>Responses\<close>

datatype rest_body =
    BTopic pb_topic
  | BTopics "pb_topic list" string
  | BMessageIds "string list"
  | BSubscription pb_subscription
  | BSubscriptions "pb_subscription list" string
  | BReceivedMessages "pb_received_message list"
  | BEmpty
  | BError nat string
  | BOther bytes

record http_response =
  hr_status :: nat
  hr_body :: rest_body

datatype rest_error = Domain error | RestUnimplemented

type_synonym 's handled = "(rest_error + rest_body) \<times> 's service"

text \<open>\<open>StatusCode::from_u16(..).unwrap_or(INTERNAL_SERVER_ERROR)\<close>.\<close>

definition status_code :: "nat \<Rightarrow> nat" where
  "status_code n = (if 100 \<le> n \<and> n < 1000 then n else 500)"

fun error_response :: "rest_error \<Rightarrow> http_response" where
  "error_response (Domain err) =
     (case error_code err of (status_name, http_status) \<Rightarrow>
        \<lparr>hr_status = status_code http_status, hr_body = BError http_status status_name\<rparr>)"
| "error_response RestUnimplemented = \<lparr>hr_status = 501, hr_body = BError 501 ''UNIMPLEMENTED''\<rparr>"

definition into_response :: "'s handled \<Rightarrow> http_response \<times> 's service" where
  "into_response r =
     (case r of
        (Inl e, v) \<Rightarrow> (error_response e, v)
      | (Inr body, v) \<Rightarrow> (\<lparr>hr_status = 200, hr_body = body\<rparr>, v))"

definition rest_fallback :: http_response where
  "rest_fallback = error_response RestUnimplemented"

text \<open>The \<open>?\<close> on a result of the service, and the response made of its value.\<close>

definition reply_with :: "('s service, 'a) st_result \<Rightarrow> ('a \<Rightarrow> rest_body) \<Rightarrow> 's handled" where
  "reply_with m f = (case m of (Inl e, v) \<Rightarrow> (Inl (Domain e), v) | (Inr a, v) \<Rightarrow> (Inr (f a), v))"

section \<open>Requests\<close>

datatype http_method = GET | PUT | POST | DELETE | OtherMethod

record rest_request =
  rr_method :: http_method
  rr_path :: "string list"
  rr_content_type :: "string option"
  rr_body :: bytes

record publish_message_body =
  pb_data :: string
  pb_attributes :: attributes
  pb_ordering_key :: string

record 'j rest_ext =
  rx_from_slice :: "bytes \<Rightarrow> 'j option"
  rx_null :: 'j
  rx_publish_body :: "'j \<Rightarrow> publish_message_body list option"
  rx_pull_body :: "'j \<Rightarrow> int option"
  rx_ack_ids_body :: "'j \<Rightarrow> string list option"
  rx_modify_ack_deadline_body :: "'j \<Rightarrow> (string list \<times> int) option"
  rx_modify_push_config_body :: "'j \<Rightarrow> pb_push_config option option"
  rx_subscription :: "bytes \<Rightarrow> pb_subscription option"
  rx_b64_decode :: "string \<Rightarrow> bytes option"
  rx_create_topic_body :: "rest_request \<Rightarrow> http_response + attributes option"
  rx_method_not_allowed :: http_response

definition rest_topic_name :: "string \<Rightarrow> string \<Rightarrow> string" where
  "rest_topic_name project topic = ''projects/'' @ project @ ''/topics/'' @ topic"

definition rest_sub_name :: "string \<Rightarrow> string \<Rightarrow> string" where
  "rest_sub_name project sub = ''projects/'' @ project @ ''/subscriptions/'' @ sub"

definition split_verb :: "string \<Rightarrow> string \<times> string option" where
  "split_verb raw =
     (case dropWhile (\<lambda>c. c \<noteq> CHR '':'') raw of
        [] \<Rightarrow> (raw, None)
      | _ # verb \<Rightarrow> (takeWhile (\<lambda>c. c \<noteq> CHR '':'') raw, Some verb))"

abbreviation bad_body :: rest_error where
  "bad_body \<equiv> Domain (InvalidArgument ''body'')"

definition parse_body_lenient :: "'j rest_ext \<Rightarrow> bytes \<Rightarrow> rest_error + 'j" where
  "parse_body_lenient R body =
     (if body = [] then Inr (rx_null R)
      else case rx_from_slice R body of Some j \<Rightarrow> Inr j | None \<Rightarrow> Inl bad_body)"

section \<open>Topics\<close>

definition rest_create_topic ::
    "'s kv_ops \<Rightarrow> ext \<Rightarrow> 's service \<Rightarrow> string \<Rightarrow> string \<Rightarrow> attributes option \<Rightarrow> 's handled" where
  "rest_create_topic K X v project topic body =
     reply_with (svc_create_topic K X v (rest_topic_name project topic) (unwrap_or body [])) (BTopic \<circ> topic_to_proto)"

definition rest_get_topic :: "'s kv_ops \<Rightarrow> ext \<Rightarrow> 's service \<Rightarrow> string \<Rightarrow> string \<Rightarrow> 's handled" where
  "rest_get_topic K X v project topic =
     reply_with (svc_get_topic K X v (rest_topic_name project topic), v) (BTopic \<circ> topic_to_proto)"

definition rest_list_topics :: "'s kv_ops \<Rightarrow> ext \<Rightarrow> 's service \<Rightarrow> string \<Rightarrow> 's handled" where
  "rest_list_topics K X v project =
     reply_with (svc_list_topics K X v project 100 None, v)
       (\<lambda>(records, next_token). BTopics (map topic_to_proto records) (unwrap_or next_token []))"

definition rest_delete_topic :: "'s kv_ops \<Rightarrow> ext \<Rightarrow> 's service \<Rightarrow> string \<Rightarrow> string \<Rightarrow> 's handled" where
  "rest_delete_topic K X v project topic =
     reply_with (svc_delete_topic K X v (rest_topic_name project topic)) (\<lambda>_. BEmpty)"

fun decode_messages :: "'j rest_ext \<Rightarrow> publish_message_body list \<Rightarrow> rest_error + publish_message list" where
  "decode_messages R [] = Inr []"
| "decode_messages R (m # ms) =
     (case rx_b64_decode R (pb_data m) of
        None \<Rightarrow> Inl (Domain (InvalidArgument ''data''))
      | Some bs \<Rightarrow>
          (case decode_messages R ms of
             Inl e \<Rightarrow> Inl e
           | Inr rest \<Rightarrow>
               Inr (\<lparr>pm_data = bs, pm_attributes = pb_attributes m, pm_ordering_key = pb_ordering_key m\<rparr> # rest)))"

definition rest_publish ::
    "'s kv_ops \<Rightarrow> ext \<Rightarrow> 'j rest_ext \<Rightarrow> 's service \<Rightarrow> int \<Rightarrow> string \<Rightarrow> 'j \<Rightarrow> 's handled" where
  "rest_publish K X R v now_ms full_name body =
     (case rx_publish_body R body of
        None \<Rightarrow> (Inl bad_body, v)
      | Some messages \<Rightarrow>
          (case decode_messages R messages of
             Inl e \<Rightarrow> (Inl e, v)
           | Inr messages \<Rightarrow> reply_with (svc_publish K X v now_ms full_name messages) BMessageIds))"

definition topic_post ::
    "'s kv_ops \<Rightarrow> ext \<Rightarrow> 'j rest_ext \<Rightarrow> 's service \<Rightarrow> int \<Rightarrow> string \<Rightarrow> string \<Rightarrow> bytes \<Rightarrow> 's handled" where
  "topic_post K X R v now_ms project topic_and_verb body =
     (case split_verb topic_and_verb of (topic, verb) \<Rightarrow>
        let full_name = rest_topic_name project topic in
        if verb = Some ''publish'' then
          (case parse_body_lenient R body of
             Inl e \<Rightarrow> (Inl e, v)
           | Inr json \<Rightarrow> rest_publish K X R v now_ms full_name json)
        else (Inl RestUnimplemented, v))"

section \<open>Subscriptions\<close>

text \<open>\<open>Subscription::default()\<close>.\<close>

definition subscription_default :: pb_subscription where
  "subscription_default =
     \<lparr>ps_name = [], ps_topic = [], ps_push_config = None, ps_has_bigquery_config = False,
      ps_has_cloud_storage_config = False, ps_ack_deadline_seconds = 0, ps_retain_acked_messages = False,
      ps_message_retention_duration = None, ps_labels = [], ps_enable_message_ordering = False,
      ps_expiration_policy = None, ps_filter = [], ps_dead_letter_policy = None, ps_retry_policy = None,
      ps_detached = False, ps_enable_exactly_once_delivery = False\<rparr>"

definition requested_subscription :: "'j rest_ext \<Rightarrow> bytes \<Rightarrow> rest_error + pb_subscription" where
  "requested_subscription R body =
     (if body = [] then Inr subscription_default
      else case rx_subscription R body of Some sub \<Rightarrow> Inr sub | None \<Rightarrow> Inl bad_body)"

definition rest_create_subscription ::
    "'s kv_ops \<Rightarrow> ext \<Rightarrow> 'j rest_ext \<Rightarrow> 's service \<Rightarrow> int \<Rightarrow> string \<Rightarrow> string \<Rightarrow> bytes \<Rightarrow> 's handled" where
  "rest_create_subscription K X R v now_ms project sub body =
     (case requested_subscription R body of
        Inl e \<Rightarrow> (Inl e, v)
      | Inr requested \<Rightarrow>
          reply_with (svc_create_subscription K X v now_ms (rest_sub_name project sub) (ps_topic requested)
            (create_options_from_proto requested)) (BSubscription \<circ> subscription_to_proto))"

definition rest_get_subscription :: "'s kv_ops \<Rightarrow> ext \<Rightarrow> 's service \<Rightarrow> string \<Rightarrow> string \<Rightarrow> 's handled" where
  "rest_get_subscription K X v project sub =
     reply_with (svc_get_subscription K X v (rest_sub_name project sub), v) (BSubscription \<circ> subscription_to_proto)"

definition rest_list_subscriptions :: "'s kv_ops \<Rightarrow> ext \<Rightarrow> 's service \<Rightarrow> string \<Rightarrow> 's handled" where
  "rest_list_subscriptions K X v project =
     reply_with (svc_list_subscriptions K X v project 100 None, v)
       (\<lambda>(records, next_token). BSubscriptions (map subscription_to_proto records) (unwrap_or next_token []))"

definition rest_delete_subscription :: "'s kv_ops \<Rightarrow> ext \<Rightarrow> 's service \<Rightarrow> string \<Rightarrow> string \<Rightarrow> 's handled" where
  "rest_delete_subscription K X v project sub =
     reply_with (svc_delete_subscription K X v (rest_sub_name project sub)) (\<lambda>_. BEmpty)"

definition rest_pull ::
    "'s kv_ops \<Rightarrow> ext \<Rightarrow> 'j rest_ext \<Rightarrow> 's service \<Rightarrow> int \<Rightarrow> string \<Rightarrow> 'j \<Rightarrow> 's handled" where
  "rest_pull K X R v now_ms full_name body =
     (let max_messages = max (unwrap_or (rx_pull_body R body) 0) 1 in
      reply_with (svc_pull K X v now_ms full_name max_messages)
        (\<lambda>delivered. BReceivedMessages (map (\<lambda>m.
           \<lparr>prm_ack_id = pl_ack_id m,
            prm_message =
              \<lparr>pmsg_data = pl_data m, pmsg_attributes = pl_attributes m, pmsg_message_id = pl_message_id m,
               pmsg_publish_time = Some (ms_to_timestamp (pl_publish_time_ms m)),
               pmsg_ordering_key = pl_ordering_key m\<rparr>,
            prm_delivery_attempt = wrap_i32 (uint (pl_delivery_attempt m))\<rparr>) delivered)))"

definition rest_acknowledge ::
    "'s kv_ops \<Rightarrow> ext \<Rightarrow> 'j rest_ext \<Rightarrow> 's service \<Rightarrow> int \<Rightarrow> string \<Rightarrow> 'j \<Rightarrow> 's handled" where
  "rest_acknowledge K X R v now_ms full_name body =
     reply_with (svc_acknowledge K X v now_ms full_name (unwrap_or (rx_ack_ids_body R body) [])) (\<lambda>_. BEmpty)"

definition rest_modify_ack_deadline ::
    "'s kv_ops \<Rightarrow> ext \<Rightarrow> 'j rest_ext \<Rightarrow> 's service \<Rightarrow> int \<Rightarrow> string \<Rightarrow> 'j \<Rightarrow> 's handled" where
  "rest_modify_ack_deadline K X R v now_ms full_name body =
     (case rx_modify_ack_deadline_body R body of
        None \<Rightarrow> (Inl bad_body, v)
      | Some (ack_ids, ack_deadline_seconds) \<Rightarrow>
          reply_with (svc_modify_ack_deadline K X v now_ms full_name ack_ids ack_deadline_seconds) (\<lambda>_. BEmpty))"

definition rest_modify_push_config ::
    "'s kv_ops \<Rightarrow> ext \<Rightarrow> 'j rest_ext \<Rightarrow> 's service \<Rightarrow> string \<Rightarrow> 'j \<Rightarrow> 's handled" where
  "rest_modify_push_config K X R v full_name body =
     (case (if body = rx_null R then Some None else rx_modify_push_config_body R body) of
        None \<Rightarrow> (Inl bad_body, v)
      | Some push_config \<Rightarrow>
          reply_with (svc_modify_push_config K X v full_name (requested_push_config push_config)) (\<lambda>_. BEmpty))"

text \<open>The verb is looked at before the body.\<close>

definition subscription_post ::
    "'s kv_ops \<Rightarrow> ext \<Rightarrow> 'j rest_ext \<Rightarrow> 's service \<Rightarrow> int \<Rightarrow> string \<Rightarrow> string \<Rightarrow> bytes \<Rightarrow> 's handled" where
  "subscription_post K X R v now_ms project sub_and_verb body =
     (case split_verb sub_and_verb of (sub, verb) \<Rightarrow>
        let full_name = rest_sub_name project sub;
            with_json = (\<lambda>h. case parse_body_lenient R body of Inl e \<Rightarrow> (Inl e, v) | Inr json \<Rightarrow> h json) in
        if verb = Some ''pull'' then with_json (rest_pull K X R v now_ms full_name)
        else if verb = Some ''acknowledge'' then with_json (rest_acknowledge K X R v now_ms full_name)
        else if verb = Some ''modifyAckDeadline'' then with_json (rest_modify_ack_deadline K X R v now_ms full_name)
        else if verb = Some ''modifyPushConfig'' then with_json (rest_modify_push_config K X R v full_name)
        else (Inl RestUnimplemented, v))"

section \<open>Routes\<close>

text \<open>The two shapes of path with a resource and the two with a collection.\<close>

datatype route =
    RTopic string string
  | RTopics string
  | RSubscription string string
  | RSubscriptions string

definition route_of :: "string list \<Rightarrow> route option" where
  "route_of path =
     (case path of
        [v, ps, project, kind, name] \<Rightarrow>
          if v = ''v1'' \<and> ps = ''projects'' \<and> project \<noteq> [] \<and> name \<noteq> [] then
            (if kind = ''topics'' then Some (RTopic project name)
             else if kind = ''subscriptions'' then Some (RSubscription project name) else None)
          else None
      | [v, ps, project, kind] \<Rightarrow>
          if v = ''v1'' \<and> ps = ''projects'' \<and> project \<noteq> [] then
            (if kind = ''topics'' then Some (RTopics project)
             else if kind = ''subscriptions'' then Some (RSubscriptions project) else None)
          else None
      | _ \<Rightarrow> None)"

definition router ::
    "'s kv_ops \<Rightarrow> ext \<Rightarrow> 'j rest_ext \<Rightarrow> 's service \<Rightarrow> int \<Rightarrow> rest_request \<Rightarrow> (http_response \<times> 's service) option" where
  "router K X R v now_ms req =
     (case route_of (rr_path req) of
        None \<Rightarrow> None
      | Some (RTopic project topic) \<Rightarrow> Some
          (case rr_method req of
             PUT \<Rightarrow>
               (case rx_create_topic_body R req of
                  Inl refused \<Rightarrow> (refused, v)
                | Inr body \<Rightarrow> into_response (rest_create_topic K X v project topic body))
           | GET \<Rightarrow> into_response (rest_get_topic K X v project topic)
           | DELETE \<Rightarrow> into_response (rest_delete_topic K X v project topic)
           | POST \<Rightarrow> into_response (topic_post K X R v now_ms project topic (rr_body req))
           | OtherMethod \<Rightarrow> (rx_method_not_allowed R, v))
      | Some (RTopics project) \<Rightarrow> Some
          (case rr_method req of
             GET \<Rightarrow> into_response (rest_list_topics K X v project)
           | _ \<Rightarrow> (rx_method_not_allowed R, v))
      | Some (RSubscription project sub) \<Rightarrow> Some
          (case rr_method req of
             PUT \<Rightarrow> into_response (rest_create_subscription K X R v now_ms project sub (rr_body req))
           | GET \<Rightarrow> into_response (rest_get_subscription K X v project sub)
           | DELETE \<Rightarrow> into_response (rest_delete_subscription K X v project sub)
           | POST \<Rightarrow> into_response (subscription_post K X R v now_ms project sub (rr_body req))
           | OtherMethod \<Rightarrow> (rx_method_not_allowed R, v))
      | Some (RSubscriptions project) \<Rightarrow> Some
          (case rr_method req of
             GET \<Rightarrow> into_response (rest_list_subscriptions K X v project)
           | _ \<Rightarrow> (rx_method_not_allowed R, v)))"

definition app ::
    "'s kv_ops \<Rightarrow> ext \<Rightarrow> 'j rest_ext \<Rightarrow> 's service \<Rightarrow> int \<Rightarrow> rest_request \<Rightarrow> http_response \<times> 's service" where
  "app K X R v now_ms req = unwrap_or (router K X R v now_ms req) (rest_fallback, v)"

section \<open>The two transports agree\<close>

text \<open>The canonical HTTP form of a gRPC status, and of a gRPC reply.\<close>

fun http_of_code :: "grpc_code \<Rightarrow> string \<times> nat" where
  "http_of_code GNotFound = (''NOT_FOUND'', 404)"
| "http_of_code GAlreadyExists = (''ALREADY_EXISTS'', 409)"
| "http_of_code GInvalidArgument = (''INVALID_ARGUMENT'', 400)"
| "http_of_code GFailedPrecondition = (''FAILED_PRECONDITION'', 400)"
| "http_of_code GResourceExhausted = (''RESOURCE_EXHAUSTED'', 429)"
| "http_of_code GUnavailable = (''UNAVAILABLE'', 503)"
| "http_of_code GUnimplemented = (''UNIMPLEMENTED'', 501)"
| "http_of_code GInternal = (''INTERNAL'', 500)"

definition http_error :: "grpc_code \<Rightarrow> http_response" where
  "http_error c = (case http_of_code c of (name, status) \<Rightarrow> \<lparr>hr_status = status, hr_body = BError status name\<rparr>)"

definition as_http :: "('a \<Rightarrow> rest_body) \<Rightarrow> ('s, 'a) reply \<Rightarrow> http_response \<times> 's service" where
  "as_http f r =
     (case r of (Inl c, v) \<Rightarrow> (http_error c, v) | (Inr a, v) \<Rightarrow> (\<lparr>hr_status = 200, hr_body = f a\<rparr>, v))"

lemma error_response_domain: "error_response (Domain e) = http_error (to_status e)"
  by (cases e) (simp_all add: http_error_def status_code_def)

lemma reply_is_grpc: "into_response (reply_with m (f \<circ> g)) = as_http f (respond m g)"
  by (cases m; cases "fst m") (simp_all add: into_response_def reply_with_def as_http_def respond_def error_response_domain
      del: error_response.simps(1))

text \<open>A handler reached by a path with a verb.\<close>

lemma split_verb_at: "CHR '':'' \<notin> set n \<Longrightarrow> split_verb (n @ CHR '':'' # verb) = (n, Some verb)"
proof -
  assume "CHR '':'' \<notin> set n"
  then have "\<forall>x \<in> set n. x \<noteq> CHR '':''" by auto
  then have "dropWhile (\<lambda>c. c \<noteq> CHR '':'') (n @ CHR '':'' # verb) = CHR '':'' # verb"
    "takeWhile (\<lambda>c. c \<noteq> CHR '':'') (n @ CHR '':'' # verb) = n"
    by (simp_all add: dropWhile_append2 takeWhile_append2)
  then show ?thesis by (simp add: split_verb_def)
qed

definition topic_path :: "string \<Rightarrow> string \<Rightarrow> string list" where
  "topic_path p t = [''v1'', ''projects'', p, ''topics'', t]"

definition sub_path :: "string \<Rightarrow> string \<Rightarrow> string list" where
  "sub_path p s = [''v1'', ''projects'', p, ''subscriptions'', s]"

lemma route_of_paths [simp]:
  "p \<noteq> [] \<Longrightarrow> t \<noteq> [] \<Longrightarrow> route_of (topic_path p t) = Some (RTopic p t)"
  "p \<noteq> [] \<Longrightarrow> t \<noteq> [] \<Longrightarrow> route_of (sub_path p t) = Some (RSubscription p t)"
  "p \<noteq> [] \<Longrightarrow> route_of [''v1'', ''projects'', p, ''topics''] = Some (RTopics p)"
  "p \<noteq> [] \<Longrightarrow> route_of [''v1'', ''projects'', p, ''subscriptions''] = Some (RSubscriptions p)"
  by (simp_all add: route_of_def topic_path_def sub_path_def)

lemma app_routed [simp]:
  "rr_path req = topic_path p t \<Longrightarrow> p \<noteq> [] \<Longrightarrow> t \<noteq> [] \<Longrightarrow>
     app K X R v now req =
       (case rr_method req of
          PUT \<Rightarrow> (case rx_create_topic_body R req of
                    Inl refused \<Rightarrow> (refused, v) | Inr body \<Rightarrow> into_response (rest_create_topic K X v p t body))
        | GET \<Rightarrow> into_response (rest_get_topic K X v p t)
        | DELETE \<Rightarrow> into_response (rest_delete_topic K X v p t)
        | POST \<Rightarrow> into_response (topic_post K X R v now p t (rr_body req))
        | OtherMethod \<Rightarrow> (rx_method_not_allowed R, v))"
  "rr_path req = sub_path p t \<Longrightarrow> p \<noteq> [] \<Longrightarrow> t \<noteq> [] \<Longrightarrow>
     app K X R v now req =
       (case rr_method req of
          PUT \<Rightarrow> into_response (rest_create_subscription K X R v now p t (rr_body req))
        | GET \<Rightarrow> into_response (rest_get_subscription K X v p t)
        | DELETE \<Rightarrow> into_response (rest_delete_subscription K X v p t)
        | POST \<Rightarrow> into_response (subscription_post K X R v now p t (rr_body req))
        | OtherMethod \<Rightarrow> (rx_method_not_allowed R, v))"
  by (simp_all add: app_def router_def)

lemma app_collections [simp]:
  "rr_path req = [''v1'', ''projects'', p, ''topics''] \<Longrightarrow> p \<noteq> [] \<Longrightarrow> rr_method req = GET \<Longrightarrow>
     app K X R v now req = into_response (rest_list_topics K X v p)"
  "rr_path req = [''v1'', ''projects'', p, ''subscriptions''] \<Longrightarrow> p \<noteq> [] \<Longrightarrow> rr_method req = GET \<Longrightarrow>
     app K X R v now req = into_response (rest_list_subscriptions K X v p)"
  by (simp_all add: app_def router_def)

text \<open>Each handler is the gRPC handler of the same name.\<close>

definition topic_request :: "string \<Rightarrow> attributes \<Rightarrow> pb_topic" where
  "topic_request name labels =
     \<lparr>pt_name = name, pt_labels = labels, pt_kms_key_name = [], pt_has_schema_settings = False,
      pt_message_retention_duration = None, pt_has_ingestion_data_source_settings = False\<rparr>"

lemma strip_projects: "strip_projects_prefix (''projects/'' @ p) = p"
  unfolding strip_projects_prefix_def strip_prefix_append by simp

lemma rest_topics_grpc:
  "into_response (rest_create_topic K X v p t labels) =
     as_http BTopic (grpc_create_topic K X v (topic_request (rest_topic_name p t) (unwrap_or labels [])))"
  "into_response (rest_get_topic K X v p t) = as_http BTopic (grpc_get_topic K X v (rest_topic_name p t))"
  "into_response (rest_delete_topic K X v p t) = as_http (\<lambda>_. BEmpty) (grpc_delete_topic K X v (rest_topic_name p t))"
  "into_response (rest_list_topics K X v p) =
     as_http (\<lambda>(ts, next_token). BTopics ts next_token) (grpc_list_topics K X v (''projects/'' @ p) 0 [])"
proof -
  show "into_response (rest_create_topic K X v p t labels) =
      as_http BTopic (grpc_create_topic K X v (topic_request (rest_topic_name p t) (unwrap_or labels [])))"
    unfolding rest_create_topic_def reply_is_grpc
    by (simp add: grpc_create_topic_def topic_request_def svc_create_topic_def svc_create_topic_full_def)
  show "into_response (rest_get_topic K X v p t) = as_http BTopic (grpc_get_topic K X v (rest_topic_name p t))"
    unfolding rest_get_topic_def reply_is_grpc grpc_get_topic_def respond_pure_def ..
  show "into_response (rest_delete_topic K X v p t) = as_http (\<lambda>_. BEmpty) (grpc_delete_topic K X v (rest_topic_name p t))"
    using reply_is_grpc [of _ "\<lambda>_. BEmpty" id] unfolding rest_delete_topic_def grpc_delete_topic_def by (simp add: comp_def)
  show "into_response (rest_list_topics K X v p) =
      as_http (\<lambda>(ts, next_token). BTopics ts next_token) (grpc_list_topics K X v (''projects/'' @ p) 0 [])"
    using reply_is_grpc [of _ "\<lambda>(ts, next_token). BTopics ts next_token"
      "\<lambda>(records, next_token). (map topic_to_proto records, unwrap_or next_token [])"]
    unfolding grpc_list_topics_def strip_projects
    by (simp add: rest_list_topics_def respond_pure_def page_size_of_def page_token_of_def DEFAULT_PAGE_SIZE_def
        comp_def case_prod_unfold)
qed

lemma rest_subscriptions_grpc:
  "requested_subscription R body = Inr sub \<Longrightarrow> into_response (rest_create_subscription K X R v now p s body) =
     as_http BSubscription (grpc_create_subscription K X v now (sub\<lparr>ps_name := rest_sub_name p s\<rparr>))"
  "into_response (rest_get_subscription K X v p s) =
     as_http BSubscription (grpc_get_subscription K X v (rest_sub_name p s))"
  "into_response (rest_delete_subscription K X v p s) =
     as_http (\<lambda>_. BEmpty) (grpc_delete_subscription K X v (rest_sub_name p s))"
  "into_response (rest_list_subscriptions K X v p) =
     as_http (\<lambda>(subs, next_token). BSubscriptions subs next_token) (grpc_list_subscriptions K X v (''projects/'' @ p) 0 [])"
proof -
  show "into_response (rest_create_subscription K X R v now p s body) =
      as_http BSubscription (grpc_create_subscription K X v now (sub\<lparr>ps_name := rest_sub_name p s\<rparr>))"
    if "requested_subscription R body = Inr sub"
    using that by (simp add: rest_create_subscription_def reply_is_grpc grpc_create_subscription_def create_options_from_proto_def)
  show "into_response (rest_get_subscription K X v p s) =
      as_http BSubscription (grpc_get_subscription K X v (rest_sub_name p s))"
    unfolding rest_get_subscription_def reply_is_grpc grpc_get_subscription_def respond_pure_def ..
  show "into_response (rest_delete_subscription K X v p s) =
      as_http (\<lambda>_. BEmpty) (grpc_delete_subscription K X v (rest_sub_name p s))"
    using reply_is_grpc [of _ "\<lambda>_. BEmpty" id]
    unfolding rest_delete_subscription_def grpc_delete_subscription_def by (simp add: comp_def)
  show "into_response (rest_list_subscriptions K X v p) =
      as_http (\<lambda>(subs, next_token). BSubscriptions subs next_token) (grpc_list_subscriptions K X v (''projects/'' @ p) 0 [])"
    using reply_is_grpc [of _ "\<lambda>(subs, next_token). BSubscriptions subs next_token"
      "\<lambda>(records, next_token). (map subscription_to_proto records, unwrap_or next_token [])"]
    unfolding grpc_list_subscriptions_def strip_projects
    by (simp add: rest_list_subscriptions_def respond_pure_def page_size_of_def page_token_of_def DEFAULT_PAGE_SIZE_def
        comp_def case_prod_unfold)
qed

text \<open>A published message in the two encodings.\<close>

definition same_message :: "'j rest_ext \<Rightarrow> publish_message_body \<Rightarrow> pb_message \<Rightarrow> bool" where
  "same_message R b m \<longleftrightarrow>
     rx_b64_decode R (pb_data b) = Some (pmsg_data m) \<and> pb_attributes b = pmsg_attributes m \<and>
     pb_ordering_key b = pmsg_ordering_key m"

lemma decode_messages_same:
  "list_all2 (same_message R) bodies ms \<Longrightarrow> decode_messages R bodies =
     Inr (map (\<lambda>m. \<lparr>pm_data = pmsg_data m, pm_attributes = pmsg_attributes m, pm_ordering_key = pmsg_ordering_key m\<rparr>) ms)"
  by (induction rule: list_all2_induct) (simp_all add: same_message_def)

lemma rest_publish_grpc:
  assumes "rx_publish_body R j = Some bodies" and "list_all2 (same_message R) bodies ms"
  shows "into_response (rest_publish K X R v now n j) = as_http BMessageIds (grpc_publish K X v now n ms)"
  using assms reply_is_grpc [of _ BMessageIds id]
  by (simp add: rest_publish_def decode_messages_same grpc_publish_def)

lemma rest_pull_grpc:
  assumes "fst (svc_pull K X v now n (max (unwrap_or (rx_pull_body R j) 0) 1)) \<noteq> Inr []"
  shows "into_response (rest_pull K X R v now n j) =
    as_http BReceivedMessages (grpc_pull K X v now others later n (unwrap_or (rx_pull_body R j) 0))"
proof -
  let ?mx = "max (unwrap_or (rx_pull_body R j) 0) 1"
  have mx: "(if unwrap_or (rx_pull_body R j) 0 > 0 then unwrap_or (rx_pull_body R j) 0 else 1) = ?mx" by simp
  have "into_response (rest_pull K X R v now n j) =
      as_http BReceivedMessages (respond (svc_pull K X v now n ?mx) (map pulled_to_received_message))"
    unfolding reply_is_grpc [symmetric] by (simp add: rest_pull_def comp_def pulled_to_received_message_def [abs_def])
  also have "respond (svc_pull K X v now n ?mx) (map pulled_to_received_message) =
      grpc_pull K X v now others later n (unwrap_or (rx_pull_body R j) 0)"
    using assms unfolding grpc_pull_def Let_def mx by (auto simp: respond_def split: prod.split sum.split)
  finally show ?thesis .
qed

lemma rest_deliveries_grpc:
  "into_response (rest_acknowledge K X R v now n j) =
     as_http (\<lambda>_. BEmpty) (grpc_acknowledge K X v now n (unwrap_or (rx_ack_ids_body R j) []))"
  "rx_modify_ack_deadline_body R j = Some (ids, secs) \<Longrightarrow> into_response (rest_modify_ack_deadline K X R v now n j) =
     as_http (\<lambda>_. BEmpty) (grpc_modify_ack_deadline K X v now n ids secs)"
  "(if j = rx_null R then Some None else rx_modify_push_config_body R j) = Some pc \<Longrightarrow>
     into_response (rest_modify_push_config K X R v n j) = as_http (\<lambda>_. BEmpty) (grpc_modify_push_config K X v n pc)"
  using reply_is_grpc [of _ "\<lambda>_. BEmpty" id]
  by (simp_all add: rest_acknowledge_def rest_modify_ack_deadline_def rest_modify_push_config_def grpc_acknowledge_def
      grpc_modify_ack_deadline_def grpc_modify_push_config_def comp_def)

end
