(* ===== verification/Rest_Claims.thy ===== *)
theory Rest_Claims
  imports Rest Grpc_Claims
begin

text \<open>What the REST front end guarantees, with instances on the demo service.\<close>

section \<open>Instances\<close>

text \<open>A codec whose JSON values are the bytes of the body, and requests on the demo subscription.\<close>

definition demo_rest :: "bytes rest_ext" where
  "demo_rest =
     \<lparr>rx_from_slice = Some, rx_null = [], rx_publish_body = (\<lambda>_. None), rx_pull_body = (\<lambda>j. Some (int (length j))),
      rx_ack_ids_body = (\<lambda>_. Some [d_ack_id demo_delivery, ''junk'']),
      rx_modify_ack_deadline_body = (\<lambda>_. None), rx_modify_push_config_body = (\<lambda>_. None), rx_subscription = (\<lambda>_. None),
      rx_b64_decode = (\<lambda>_. None), rx_create_topic_body = (\<lambda>_. Inr None),
      rx_method_not_allowed = \<lparr>hr_status = 405, hr_body = BOther []\<rparr>\<rparr>"

definition demo_http :: "http_method \<Rightarrow> string list \<Rightarrow> rest_request" where
  "demo_http meth path = \<lparr>rr_method = meth, rr_path = path, rr_content_type = None, rr_body = [1]\<rparr>"

lemma demo_http_simps [simp]:
  "rr_method (demo_http meth path) = meth" "rr_path (demo_http meth path) = path" "rr_body (demo_http meth path) = [1]"
  by (simp_all add: demo_http_def)

lemma demo_sub_path: "''projects/'' @ ''p'' @ ''/subscriptions/'' @ ''inbox'' = demo_sub_name"
  by (simp add: demo_sub_name_def)

section \<open>Agreement with gRPC\<close>

lemma topic_publish_app:
  assumes "p \<noteq> []" and "CHR '':'' \<notin> set t" and "rr_method req = POST" and "rr_path req = topic_path p (t @ '':publish'')"
    and "parse_body_lenient R (rr_body req) = Inr j"
  shows "app K X R v now req = into_response (rest_publish K X R v now (rest_topic_name p t) j)"
  using assms split_verb_at [of t "''publish''"] by (simp add: topic_post_def)

lemma sub_verb_app:
  assumes "p \<noteq> []" and "CHR '':'' \<notin> set s" and "rr_method req = POST" and "rr_path req = sub_path p (s @ CHR '':'' # verb)"
    and "parse_body_lenient R (rr_body req) = Inr j"
  shows "verb = ''pull'' \<Longrightarrow> app K X R v now req = into_response (rest_pull K X R v now (rest_sub_name p s) j)"
    and "verb = ''acknowledge'' \<Longrightarrow> app K X R v now req = into_response (rest_acknowledge K X R v now (rest_sub_name p s) j)"
    and "verb = ''modifyAckDeadline'' \<Longrightarrow>
      app K X R v now req = into_response (rest_modify_ack_deadline K X R v now (rest_sub_name p s) j)"
    and "verb = ''modifyPushConfig'' \<Longrightarrow>
      app K X R v now req = into_response (rest_modify_push_config K X R v (rest_sub_name p s) j)"
  using assms split_verb_at [of s verb] by (simp_all add: subscription_post_def)



text \<open>
  C32: deliveries over REST are deliveries over gRPC. Publishing, acknowledging, changing a deadline
  and changing the push configuration act and answer as the gRPC call with the decoded request; so
  does a pull, when there is something to return at once (over gRPC an empty pull waits, over REST
  it does not).
\<close>

theorem rest_deliveries_agree:
  assumes "p \<noteq> []" and "CHR '':'' \<notin> set n" and "rr_method req = POST" and "parse_body_lenient R (rr_body req) = Inr j"
  shows "(rr_path req = topic_path p (n @ '':publish'') \<and> rx_publish_body R j = Some bodies \<and>
        list_all2 (same_message R) bodies ms \<longrightarrow>
      app K X R v now req = as_http BMessageIds (grpc_publish K X v now (''projects/'' @ p @ ''/topics/'' @ n) ms)) \<and>
    (rr_path req = sub_path p (n @ '':pull'') \<and> rx_pull_body R j = Some mx \<and>
        fst (svc_pull K X v now (''projects/'' @ p @ ''/subscriptions/'' @ n) (max mx 1)) \<noteq> Inr [] \<longrightarrow>
      app K X R v now req =
        as_http BReceivedMessages (grpc_pull K X v now others later (''projects/'' @ p @ ''/subscriptions/'' @ n) mx)) \<and>
    (rr_path req = sub_path p (n @ '':acknowledge'') \<and> rx_ack_ids_body R j = Some ids \<longrightarrow>
      app K X R v now req =
        as_http (\<lambda>_. BEmpty) (grpc_acknowledge K X v now (''projects/'' @ p @ ''/subscriptions/'' @ n) ids)) \<and>
    (rr_path req = sub_path p (n @ '':modifyAckDeadline'') \<and> rx_modify_ack_deadline_body R j = Some (ids, secs) \<longrightarrow>
      app K X R v now req =
        as_http (\<lambda>_. BEmpty) (grpc_modify_ack_deadline K X v now (''projects/'' @ p @ ''/subscriptions/'' @ n) ids secs)) \<and>
    (rr_path req = sub_path p (n @ '':modifyPushConfig'') \<and>
        (if j = rx_null R then Some None else rx_modify_push_config_body R j) = Some pc \<longrightarrow>
      app K X R v now req =
        as_http (\<lambda>_. BEmpty) (grpc_modify_push_config K X v (''projects/'' @ p @ ''/subscriptions/'' @ n) pc))"
proof -
  note names = rest_topic_name_def [symmetric] rest_sub_name_def [symmetric]
  note verbs = sub_verb_app [OF assms(1-3) _ assms(4)]
  show ?thesis
    unfolding names
  proof (intro conjI impI; elim conjE)
    show "app K X R v now req = as_http BMessageIds (grpc_publish K X v now (rest_topic_name p n) ms)"
      if "rr_path req = topic_path p (n @ '':publish'')" "rx_publish_body R j = Some bodies"
        "list_all2 (same_message R) bodies ms"
      by (simp only: topic_publish_app [OF assms(1-3) that(1) assms(4)] rest_publish_grpc [OF that(2,3)])
    show "app K X R v now req = as_http BReceivedMessages (grpc_pull K X v now others later (rest_sub_name p n) mx)"
      if "rr_path req = sub_path p (n @ '':pull'')" "rx_pull_body R j = Some mx"
        "fst (svc_pull K X v now (rest_sub_name p n) (max mx 1)) \<noteq> Inr []"
      using that(2,3) rest_pull_grpc [of K X v now "rest_sub_name p n" R j others later]
      by (simp add: verbs(1) [OF that(1) refl])
  qed (use verbs(2) [of "''acknowledge''"] verbs(3) [of "''modifyAckDeadline''"] verbs(4) [of "''modifyPushConfig''"]
      in \<open>simp_all add: rest_deliveries_grpc\<close>)
qed

theorem rest_deliveries_agree_witness:
  "app mem_kv_ops demo demo_rest demo_service 30 (demo_http POST (sub_path ''p'' ''inbox:acknowledge'')) =
     (\<lparr>hr_status = 200, hr_body = BEmpty\<rparr>, demo_service_acked)"
proof -
  have "parse_body_lenient demo_rest (rr_body (demo_http POST (sub_path ''p'' ''inbox:acknowledge''))) = Inr [1]"
    by (simp add: parse_body_lenient_def demo_rest_def)
  from rest_deliveries_agree [OF _ _ _ this, of "''p''" "''inbox''"]
  have "app mem_kv_ops demo demo_rest demo_service 30 (demo_http POST (sub_path ''p'' ''inbox:acknowledge'')) =
      as_http (\<lambda>_. BEmpty) (grpc_acknowledge mem_kv_ops demo demo_service 30
        (''projects/'' @ ''p'' @ ''/subscriptions/'' @ ''inbox'') [d_ack_id demo_delivery, ''junk''])"
    by (force simp: demo_rest_def)
  then show ?thesis
    unfolding demo_sub_path by (simp add: grpc_acknowledge_def demo_service_ack respond_def as_http_def)
qed

section \<open>Refused requests\<close>

lemma bad_request:
  "into_response (Inl (Domain (InvalidArgument f)), v) =
     (\<lparr>hr_status = 400, hr_body = BError 400 ''INVALID_ARGUMENT''\<rparr>, v)"
  by (simp add: into_response_def status_code_def)

lemma decode_messages_bad:
  "b \<in> set bodies \<Longrightarrow> rx_b64_decode R (pb_data b) = None \<Longrightarrow>
     decode_messages R bodies = Inl (Domain (InvalidArgument ''data''))"
  by (induction bodies) (auto split: option.split)

lemma rest_publish_bad:
  assumes "\<And>bodies. rx_publish_body R j = Some bodies \<Longrightarrow> \<exists>b \<in> set bodies. rx_b64_decode R (pb_data b) = None"
  shows "\<exists>f. rest_publish K X R v now m j = (Inl (Domain (InvalidArgument f)), v)"
proof (cases "rx_publish_body R j")
  case (Some bodies)
  with assms obtain b where "b \<in> set bodies" "rx_b64_decode R (pb_data b) = None" by blast
  with Some show ?thesis by (simp add: rest_publish_def decode_messages_bad)
qed (simp add: rest_publish_def)



end
