(* ===== verification/Telemetry.thy ===== *)
theory Telemetry
  imports Config
begin

text \<open>
  Logging and the service manager: \<open>crates/open-pubusb/src/telemetry.rs\<close> and \<open>systemd.rs\<close>.
  What the tracing libraries, the journal socket and the service manager answer is a parameter;
  the lines that are logged are left out.
\<close>

section \<open>Logging\<close>

datatype log_output = Json_Lines | Text_Lines | Journal

datatype init_error = Invalid_Filter | Init_Failed log_output | Unknown_Format string

text \<open>
  \<open>le_filter_ok\<close> is \<open>EnvFilter::try_new\<close>, \<open>le_journald\<close> whether the journal socket opens, and
  \<open>le_try_init\<close> whether a subscriber with this output could be installed.
\<close>

record log_env =
  le_filter_ok :: "string \<Rightarrow> bool"
  le_journald :: bool
  le_try_init :: "log_output \<Rightarrow> bool"

definition install :: "log_env \<Rightarrow> log_output \<Rightarrow> string \<Rightarrow> init_error + log_output" where
  "install L out flt =
     (if \<not> le_filter_ok L flt then Inl Invalid_Filter
      else if le_try_init L out then Inr out else Inl (Init_Failed out))"

text \<open>The value of a success names the subscriber that was installed.\<close>

function telemetry_init :: "log_env \<Rightarrow> string \<Rightarrow> string \<Rightarrow> init_error + log_output" where
  "telemetry_init L format flt =
     (if format = ''json'' then install L Json_Lines flt
      else if format = ''text'' then install L Text_Lines flt
      else if format = ''journald'' then
        (if le_journald L then install L Journal flt else telemetry_init L ''text'' flt)
      else Inl (Unknown_Format format))"
  by pat_completeness auto

termination
  by (relation "measure (\<lambda>(L, format, flt). of_bool (format = ''journald''))") simp_all

declare telemetry_init.simps [simp del]

lemma telemetry_init_simps [simp]:
  "telemetry_init L ''json'' flt = install L Json_Lines flt"
  "telemetry_init L ''text'' flt = install L Text_Lines flt"
  "telemetry_init L ''journald'' flt = install L (if le_journald L then Journal else Text_Lines) flt"
  by (simp_all add: telemetry_init.simps)

text \<open>
  A configuration that passed validation names a format that is known, so that only the filter or
  the installation can fail, and a missing journal is no error.
\<close>

definition chosen_output :: "log_env \<Rightarrow> string \<Rightarrow> log_output" where
  "chosen_output L format =
     (if format = ''json'' then Json_Lines else if format = ''journald'' \<and> le_journald L then Journal else Text_Lines)"

lemma valid_log_format:
  assumes "config_validate c = Inr ()"
  shows "lg_format (cf_log c) \<in> {''json'', ''text'', ''journald''}"
  using assms by (auto simp: config_validate_def VALID_LOG_FORMATS_def bind_r_Inr_iff split: if_splits)

lemma telemetry_init_valid:
  assumes "config_validate c = Inr ()"
  shows "telemetry_init L (lg_format (cf_log c)) flt = install L (chosen_output L (lg_format (cf_log c))) flt"
  using valid_log_format [OF assms] by (auto simp: chosen_output_def)

lemma install_ok: "is_ok (install L out flt) \<longleftrightarrow> le_filter_ok L flt \<and> le_try_init L out"
  by (simp add: install_def is_ok_def)

section \<open>The service manager\<close>

datatype notify_state = NotifyReady | NotifyStopping | NotifyWatchdog

text \<open>
  The interval of the watchdog loop, in nanoseconds: half of what the service manager asked for;
  without a request there is no loop. A notification that cannot be sent is ignored, so what is
  modelled is that it was attempted.
\<close>

definition watchdog_interval :: "nat option \<Rightarrow> nat option" where
  "watchdog_interval enabled = map_option (\<lambda>d. d div 2) enabled"

definition notify :: "notify_state \<Rightarrow> notify_state list \<Rightarrow> notify_state list" where
  "notify n sent = sent @ [n]"

text \<open>What was sent apart from the keep-alives.\<close>

definition lifecycle :: "notify_state list \<Rightarrow> notify_state list" where
  "lifecycle = filter (\<lambda>n. n \<noteq> NotifyWatchdog)"

lemma lifecycle_notify [simp]:
  "lifecycle (notify NotifyWatchdog sent) = lifecycle sent"
  "lifecycle (notify NotifyReady sent) = lifecycle sent @ [NotifyReady]"
  "lifecycle (notify NotifyStopping sent) = lifecycle sent @ [NotifyStopping]"
  "lifecycle [] = []"
  by (simp_all add: lifecycle_def notify_def)

end
