(* ===== verification/Fjall.thy ===== *)
theory Fjall
  imports Kv Keys
begin

text \<open>
  The on-disk backend, \<open>crates/open-pubusb-core/src/store/fjall.rs\<close>. The storage engine (the
  \<open>fjall\<close> crate and the file system under it) is the parameter \<open>fjall_ops\<close>, a record of its calls
  over a database state \<open>'d\<close>; \<open>fjall_laws\<close> is what its documentation promises while reads do not
  fail. Opening a keyspace creates it when it is missing, which no later call can observe, so it
  leaves the state as it is. What the code adds is modelled in full: the format-version check at
  start-up, the mapping of engine errors, and the \<open>KvStore\<close> operations.
\<close>

section \<open>The engine\<close>

datatype fjall_error = StorageFull | OtherIo | EngineError

record 'd fjall_ops =
  fj_open :: "string \<Rightarrow> u64 \<Rightarrow> fjall_error + 'd"
  fj_keyspace :: "'d \<Rightarrow> string \<Rightarrow> fjall_error option"
  fj_get :: "'d \<Rightarrow> string \<Rightarrow> bytes \<Rightarrow> fjall_error + bytes option"
  fj_insert :: "'d \<Rightarrow> string \<Rightarrow> bytes \<Rightarrow> bytes \<Rightarrow> (fjall_error + unit) \<times> 'd"
  fj_remove :: "'d \<Rightarrow> string \<Rightarrow> bytes \<Rightarrow> (fjall_error + unit) \<times> 'd"
  fj_prefix :: "'d \<Rightarrow> string \<Rightarrow> bytes \<Rightarrow> (fjall_error + bytes \<times> bytes) list"
  fj_disk_space :: "'d \<Rightarrow> fjall_error + u64"

section \<open>Opening\<close>

definition FORMAT_VERSION :: u32 where "FORMAT_VERSION = 1"

definition FORMAT_VERSION_KEYSPACE :: string where "FORMAT_VERSION_KEYSPACE = ''meta''"

definition FORMAT_VERSION_KEY :: bytes where "FORMAT_VERSION_KEY = as_bytes ''__open_pubusb_format_version''"

text \<open>\<open>u32::to_be_bytes\<close> and \<open>u32::from_be_bytes\<close> on exactly four bytes.\<close>

definition u32_to_be_bytes :: "u32 \<Rightarrow> bytes" where
  "u32_to_be_bytes w = be_bytes 4 (unat w)"

definition u32_from_be_bytes :: "bytes \<Rightarrow> u32 option" where
  "u32_from_be_bytes bs = (if length bs = 4 then Some (word_of_nat (be_value 0 bs)) else None)"

datatype open_error = Storage fjall_error | UnsupportedFormatVersion u32 u32 | CorruptFormatVersionMarker

definition check_and_write_format_version :: "'d fjall_ops \<Rightarrow> 'd \<Rightarrow> (open_error + unit) \<times> 'd" where
  "check_and_write_format_version D d =
     (case fj_keyspace D d FORMAT_VERSION_KEYSPACE of
        Some e \<Rightarrow> (Inl (Storage e), d)
      | None \<Rightarrow>
          (case fj_get D d FORMAT_VERSION_KEYSPACE FORMAT_VERSION_KEY of
             Inl e \<Rightarrow> (Inl (Storage e), d)
           | Inr (Some bs) \<Rightarrow>
               (case u32_from_be_bytes bs of
                  None \<Rightarrow> (Inl CorruptFormatVersionMarker, d)
                | Some found \<Rightarrow>
                    if found > FORMAT_VERSION then (Inl (UnsupportedFormatVersion found FORMAT_VERSION), d)
                    else (Inr (), d))
           | Inr None \<Rightarrow>
               (case fj_insert D d FORMAT_VERSION_KEYSPACE FORMAT_VERSION_KEY (u32_to_be_bytes FORMAT_VERSION) of
                  (Inl e, d) \<Rightarrow> (Inl (Storage e), d)
                | (Inr _, d) \<Rightarrow> (Inr (), d))))"

text \<open>\<open>FjallKv::open\<close>; creating the directory and opening the database are the engine's \<open>fj_open\<close>.\<close>

definition fjall_open :: "'d fjall_ops \<Rightarrow> string \<Rightarrow> u64 \<Rightarrow> open_error + 'd" where
  "fjall_open D path cache_size_bytes =
     (case fj_open D path cache_size_bytes of
        Inl e \<Rightarrow> Inl (Storage e)
      | Inr d \<Rightarrow>
          (case check_and_write_format_version D d of (Inl e, d) \<Rightarrow> Inl e | (Inr _, d) \<Rightarrow> Inr d))"

section \<open>The store\<close>

fun map_fjall_error :: "fjall_error \<Rightarrow> error" where
  "map_fjall_error StorageFull = ResourceExhausted"
| "map_fjall_error OtherIo = Internal"
| "map_fjall_error EngineError = Internal"

text \<open>\<open>map_err(map_fjall_error)\<close>.\<close>

definition map_fjall :: "(fjall_error + 'a) \<times> 'd \<Rightarrow> ('d, 'a) st_result" where
  "map_fjall r = (case r of (Inl e, d) \<Rightarrow> (Inl (map_fjall_error e), d) | (Inr a, d) \<Rightarrow> (Inr a, d))"

definition fjall_get :: "'d fjall_ops \<Rightarrow> 'd \<Rightarrow> string \<Rightarrow> bytes \<Rightarrow> bytes option" where
  "fjall_get D d keyspace key =
     (case fj_keyspace D d keyspace of
        None \<Rightarrow> (case fj_get D d keyspace key of Inr v \<Rightarrow> v | Inl e \<Rightarrow> None)
      | Some e \<Rightarrow> None)"

definition fjall_put :: "'d fjall_ops \<Rightarrow> 'd \<Rightarrow> string \<Rightarrow> bytes \<Rightarrow> bytes \<Rightarrow> ('d, unit) st_result" where
  "fjall_put D d keyspace key v =
     (case fj_keyspace D d keyspace of
        Some e \<Rightarrow> (Inl (map_fjall_error e), d)
      | None \<Rightarrow> map_fjall (fj_insert D d keyspace key v))"

definition fjall_delete :: "'d fjall_ops \<Rightarrow> 'd \<Rightarrow> string \<Rightarrow> bytes \<Rightarrow> ('d, unit) st_result" where
  "fjall_delete D d keyspace key =
     (case fj_keyspace D d keyspace of
        Some e \<Rightarrow> (Inl (map_fjall_error e), d)
      | None \<Rightarrow> map_fjall (fj_remove D d keyspace key))"

definition fjall_scan_prefix :: "'d fjall_ops \<Rightarrow> 'd \<Rightarrow> string \<Rightarrow> bytes \<Rightarrow> (bytes \<times> bytes) list" where
  "fjall_scan_prefix D d keyspace p =
     (case fj_keyspace D d keyspace of
        Some e \<Rightarrow> []
      | None \<Rightarrow> List.map_filter (\<lambda>g. case g of Inr kv \<Rightarrow> Some kv | Inl e \<Rightarrow> None) (fj_prefix D d keyspace p))"

definition fjall_approx_disk_bytes :: "'d fjall_ops \<Rightarrow> 'd \<Rightarrow> u64" where
  "fjall_approx_disk_bytes D d = (case fj_disk_space D d of Inr n \<Rightarrow> n | Inl e \<Rightarrow> 0)"

definition fjall_kv_ops :: "'d fjall_ops \<Rightarrow> 'd kv_ops" where
  "fjall_kv_ops D =
     \<lparr>kv_get = fjall_get D, kv_put = fjall_put D, kv_delete = fjall_delete D,
      kv_scan_prefix = fjall_scan_prefix D, kv_approx_disk_bytes = fjall_approx_disk_bytes D\<rparr>"

section \<open>What the engine promises\<close>

text \<open>
  On a good database reads succeed. An insert or a remove that succeeds changes the entry it
  names; one that fails may or may not have; the iterator over a prefix yields the entries under
  it in key order.
\<close>

definition fj_view :: "'d fjall_ops \<Rightarrow> 'd \<Rightarrow> string \<times> bytes \<Rightarrow> bytes option" where
  "fj_view D d = (\<lambda>(ks, k). case fj_get D d ks k of Inr v \<Rightarrow> v | Inl e \<Rightarrow> None)"

definition fj_write :: "'d fjall_ops \<Rightarrow> ('d \<Rightarrow> bool) \<Rightarrow> 'd \<Rightarrow> string \<times> bytes \<Rightarrow> bytes option \<Rightarrow> (fjall_error + unit) \<times> 'd \<Rightarrow> bool" where
  "fj_write D good d p v r \<longleftrightarrow>
     good (snd r) \<and> (fj_view D (snd r) = (fj_view D d)(p := v) \<or> fj_view D (snd r) = fj_view D d \<and> fst r \<noteq> Inr ())"

definition fjall_laws :: "'d fjall_ops \<Rightarrow> ('d \<Rightarrow> bool) \<Rightarrow> bool" where
  "fjall_laws D good \<longleftrightarrow>
     (\<forall>d ks. good d \<longrightarrow> fj_keyspace D d ks = None) \<and>
     (\<forall>d ks k. good d \<longrightarrow> (\<exists>v. fj_get D d ks k = Inr v)) \<and>
     (\<forall>d ks k v. good d \<longrightarrow> fj_write D good d (ks, k) (Some v) (fj_insert D d ks k v)) \<and>
     (\<forall>d ks k. good d \<longrightarrow> fj_write D good d (ks, k) None (fj_remove D d ks k)) \<and>
     (\<forall>d ks p. good d \<longrightarrow> (\<exists>xs. fj_prefix D d ks p = map Inr xs \<and> sorted_wrt (<) (map fst xs) \<and>
        set xs = {(k, v). fj_view D d (ks, k) = Some v \<and> prefix p k}))"

lemma fjall_reads:
  assumes "fjall_laws D good" and "good d"
  shows "fj_keyspace D d ks = None" and "fj_get D d ks k = Inr (fj_view D d (ks, k))"
proof -
  show "fj_keyspace D d ks = None" using assms by (simp add: fjall_laws_def)
  have "\<exists>v. fj_get D d ks k = Inr v" using assms unfolding fjall_laws_def by blast
  then show "fj_get D d ks k = Inr (fj_view D d (ks, k))" by (auto simp: fj_view_def)
qed

lemma fjall_insert:
  assumes "fjall_laws D good" and "good d"
  shows "fj_write D good d (ks, k) (Some v) (fj_insert D d ks k v)"
  using assms unfolding fjall_laws_def by blast

lemma fjall_kv_ops_simps [simp]:
  "kv_get (fjall_kv_ops D) = fjall_get D" "kv_put (fjall_kv_ops D) = fjall_put D"
  "kv_delete (fjall_kv_ops D) = fjall_delete D" "kv_scan_prefix (fjall_kv_ops D) = fjall_scan_prefix D"
  by (simp_all add: fjall_kv_ops_def)

lemma fjall_view:
  assumes "fjall_laws D good" and "good d"
  shows "kv_view (fjall_kv_ops D) d = fj_view D d"
  using assms by (auto simp: fun_eq_iff kv_view_def fjall_get_def fj_view_def fjall_laws_def)

lemma map_fjall_eq [simp]:
  "map_fjall r = (Inr u, d') \<longleftrightarrow> r = (Inr u, d')"
  "map_fjall r = (Inl e, d') \<longleftrightarrow> (\<exists>f. r = (Inl f, d') \<and> e = map_fjall_error f)"
  by (cases r; cases "fst r"; auto simp: map_fjall_def)+

lemma fj_write_view:
  assumes "fjall_laws D good" and "good d" and "fj_write D good d p v r"
  shows "good (snd r) \<and> (kv_view (fjall_kv_ops D) (snd r) = (kv_view (fjall_kv_ops D) d)(p := v) \<or>
    kv_view (fjall_kv_ops D) (snd r) = kv_view (fjall_kv_ops D) d \<and> fst r \<noteq> Inr ())"
  using assms fjall_view [OF assms(1)] by (auto simp: fj_write_def)

lemma fjall_kv_store:
  assumes laws: "fjall_laws D good"
  shows "kv_store (fjall_kv_ops D) good"
proof (rule kv_store.intro)
  let ?K = "fjall_kv_ops D"
  fix d d' ks k v p e and u :: unit
  assume d: "good d" and "ks \<in> keyspaces"
  have ks: "fj_keyspace D d ks = None" using laws d by (simp add: fjall_laws_def)
  have ins: "fj_write D good d (ks, k) (Some v) (fj_insert D d ks k v)"
    and rem: "fj_write D good d (ks, k) None (fj_remove D d ks k)"
    using laws d by (simp_all add: fjall_laws_def)
  show "good d' \<and> kv_view ?K d' = (kv_view ?K d)((ks, k) \<mapsto> v)" if "kv_put ?K d ks k v = (Inr u, d')"
    using that fj_write_view [OF laws d ins] by (simp add: fjall_put_def ks)
  show "good d' \<and> (kv_view ?K d' = kv_view ?K d \<or> kv_view ?K d' = (kv_view ?K d)((ks, k) \<mapsto> v))"
    if "kv_put ?K d ks k v = (Inl e, d')"
    using that fj_write_view [OF laws d ins] by (auto simp: fjall_put_def ks)
  show "good d' \<and> kv_view ?K d' = (kv_view ?K d)((ks, k) := None)" if "kv_delete ?K d ks k = (Inr u, d')"
    using that fj_write_view [OF laws d rem] by (simp add: fjall_delete_def ks)
  show "good d' \<and> (kv_view ?K d' = kv_view ?K d \<or> kv_view ?K d' = (kv_view ?K d)((ks, k) := None))"
    if "kv_delete ?K d ks k = (Inl e, d')"
    using that fj_write_view [OF laws d rem] by (auto simp: fjall_delete_def ks)
  obtain xs where xs: "fj_prefix D d ks p = map Inr xs" "sorted_wrt (<) (map fst xs)"
    "set xs = {(k, v). fj_view D d (ks, k) = Some v \<and> prefix p k}"
    using laws d unfolding fjall_laws_def by blast
  have "kv_scan_prefix ?K d ks p = xs"
    by (simp add: fjall_scan_prefix_def ks xs(1) map_filter_def comp_def filter_map)
  with xs show "set (kv_scan_prefix ?K d ks p) = {(k, v). kv_view ?K d (ks, k) = Some v \<and> prefix p k}"
    "sorted_wrt (<) (map fst (kv_scan_prefix ?K d ks p))"
    using fjall_view [OF laws d] by simp_all
qed

section \<open>The format version\<close>

lemma u32_roundtrip [simp]: "u32_from_be_bytes (u32_to_be_bytes w) = Some w"
proof -
  have "unat w < 2 ^ LENGTH(32)" by (rule unsigned_less)
  then have "be_value 0 (be_bytes 4 (unat w)) = unat w" using be_value_be_bytes [of "unat w" 4 0] by simp
  then show ?thesis by (simp add: u32_from_be_bytes_def u32_to_be_bytes_def)
qed

text \<open>No key the broker writes to the keyspace is the marker, and no prefix it scans there matches it.\<close>

lemma marker_not_a_key:
  "FORMAT_VERSION_KEY \<noteq> topic_key i" "FORMAT_VERSION_KEY \<noteq> sub_key i" "FORMAT_VERSION_KEY \<noteq> snapshot_key i"
  "FORMAT_VERSION_KEY \<noteq> name_key kind n" "FORMAT_VERSION_KEY \<noteq> topic_seq_counter_key i" "FORMAT_VERSION_KEY \<noteq> id_seq_key"
  by (cases kind; simp add: FORMAT_VERSION_KEY_def topic_key_def sub_key_def snapshot_key_def name_key_def
      topic_seq_counter_key_def id_seq_key_def as_bytes_def)+

lemma marker_not_scanned:
  "\<not> prefix (as_bytes ''t/'') FORMAT_VERSION_KEY" "\<not> prefix (as_bytes ''s/'') FORMAT_VERSION_KEY"
  "\<not> prefix (as_bytes (name_prefix kind) @ bs) FORMAT_VERSION_KEY"
  by (cases kind; simp add: FORMAT_VERSION_KEY_def as_bytes_def)+

end
