(* ===== verification/Process.thy ===== *)
theory Process
  imports Push Telemetry Fjall
begin

text \<open>
  The server process: \<open>crates/open-pubusb/src/main.rs\<close>, \<open>shutdown.rs\<close>, \<open>admin.rs\<close> and the
  start of \<open>server.rs\<close>. Start-up is a function of what the environment answers (\<open>serve_env\<close>) to
  an exit code or a running process. The running process is a step relation over its main task,
  its background loops, the servers and everything else that uses the service. Timers are steps
  that may be taken at any time; what is logged and the metrics are left out.
\<close>

section \<open>Readiness\<close>

definition STARTING :: u8 where "STARTING = 0"

definition READY :: u8 where "READY = 1"

definition DRAINING :: u8 where "DRAINING = 2"

definition is_ready :: "u8 \<Rightarrow> bool" where
  "is_ready s \<longleftrightarrow> s = READY"

definition is_draining :: "u8 \<Rightarrow> bool" where
  "is_draining s \<longleftrightarrow> s = DRAINING"

definition readyz :: "u8 \<Rightarrow> nat" where
  "readyz s = (if is_ready s then 200 else 503)"

text \<open>The admin router: the status of a \<open>GET\<close>, \<open>None\<close> for a path it does not route.\<close>

definition admin_router :: "u8 \<Rightarrow> bool \<Rightarrow> string \<Rightarrow> nat option" where
  "admin_router ready_state has_metrics path =
     (if path = ''/healthz'' then Some 200
      else if path = ''/readyz'' then Some (readyz ready_state)
      else if path = ''/metrics'' \<and> has_metrics then Some 200
      else None)"

section \<open>Start-up\<close>

record ('d, 'a) serve_env =
  en_log :: log_env
  en_rust_log :: "string option"
  en_fjall :: "'d fjall_ops"
  en_parse_addr :: "string \<Rightarrow> 'a option"
  en_recorder_ok :: bool
  en_bind :: "'a \<Rightarrow> bool"
  en_admin_bind :: "'a \<Rightarrow> bool"
  en_watchdog :: "nat option"

text \<open>The store named by the configuration.\<close>

definition open_store :: "('d, 'a) serve_env \<Rightarrow> storage_config \<Rightarrow> open_error + 'd any_kv" where
  "open_store E cfg =
     (if st_ephemeral cfg then Inr (AnyMem mem_new)
      else case fjall_open (en_fjall E) (st_data_dir cfg) (st_cache_size_bytes cfg) of
             Inl e \<Rightarrow> Inl e
           | Inr d \<Rightarrow> Inr (AnyFjall d))"

datatype main_phase = Serving | Unserving | Waiting | Joining | Exited nat

record 's process =
  po_svc :: "'s service"
  po_ready :: u8
  po_health :: bool
  po_has_metrics :: bool
  po_cancelled :: bool
  po_main :: main_phase
  po_server :: bool
  po_admin :: bool
  po_watchdog :: bool
  po_sync :: bool
  po_push :: bool
  po_retention :: bool
  po_manager :: push_manager
  po_tasks :: "push_event list"
  po_synced :: bool
  po_notified :: "notify_state list"

text \<open>
  \<open>run_serve\<close> up to the wait for a signal: an exit code, or the process. The \<open>po_\<close> flags of the
  servers and loops say that the task runs, \<open>po_synced\<close> that the final flush was made, and
  \<open>po_notified\<close> what was sent to the service manager.
\<close>

definition run_serve :: "('d, 'a) serve_env \<Rightarrow> ext \<Rightarrow> config \<Rightarrow> nat + 'd any_kv process" where
  "run_serve E X cfg =
     (if \<not> is_ok (telemetry_init (en_log E) (lg_format (cf_log cfg)) (effective_log_filter (en_rust_log E) (cf_log cfg)))
      then Inl 1
      else case open_store E (cf_storage cfg) of
        Inl e \<Rightarrow> Inl 1
      | Inr kv \<Rightarrow>
          let svc = with_max_disk_bytes (service_new (any_kv_ops (fjall_kv_ops (en_fjall E))) X kv)
                      (st_max_disk_bytes (cf_storage cfg)) in
          (case en_parse_addr E (sv_listen (cf_server cfg)) of
             None \<Rightarrow> Inl 2
           | Some listen_addr \<Rightarrow>
               let has_metrics = (mt_enabled (cf_metrics cfg) \<and> en_recorder_ok E) in
               (case (if trim_is_empty (sv_admin_listen (cf_server cfg)) then Inr None
                      else case en_parse_addr E (sv_admin_listen (cf_server cfg)) of
                             Some addr \<Rightarrow> Inr (Some addr) | None \<Rightarrow> Inl (2::nat)) of
                  Inl code \<Rightarrow> Inl code
                | Inr admin_addr \<Rightarrow>
                    if \<not> en_bind E listen_addr then Inl 2
                    else if (case admin_addr of Some addr \<Rightarrow> \<not> en_admin_bind E addr | None \<Rightarrow> False) then Inl 2
                    else Inr
                      \<lparr>po_svc = svc, po_ready = READY, po_health = True, po_has_metrics = has_metrics,
                       po_cancelled = False, po_main = Serving, po_server = True, po_admin = (admin_addr \<noteq> None),
                       po_watchdog = (watchdog_interval (en_watchdog E) \<noteq> None), po_sync = True, po_push = True, po_retention = True,
                       po_manager = push_manager_new (dl_push_timeout_secs (cf_delivery cfg))
                         (dl_push_max_concurrency_per_sub (cf_delivery cfg)),
                       po_tasks = [], po_synced = False, po_notified = notify NotifyReady []\<rparr>)))"

text \<open>The other commands. \<open>status\<close> is the answer to the health request, \<open>None\<close> when none came.\<close>

definition run_health_check :: "bool \<Rightarrow> nat option \<Rightarrow> nat" where
  "run_health_check client_ok status =
     (if \<not> client_ok then 1
      else case status of Some n \<Rightarrow> if 200 \<le> n \<and> n < 300 then 0 else 1 | None \<Rightarrow> 1)"

section \<open>Background loops\<close>

definition LEASE_GC_GRACE_MS :: int where "LEASE_GC_GRACE_MS = 3600000"

text \<open>One turn of the retention loop; \<open>clock\<close> is what each call in it reads.\<close>

definition retention_tick :: "'s kv_ops \<Rightarrow> ext \<Rightarrow> (nat \<Rightarrow> int) \<Rightarrow> 's service \<Rightarrow> 's service" where
  "retention_tick K X clock v =
     (let v = snd (svc_sweep_retention K X v (clock 0));
          subs = svc_list_all_subscriptions K X v
      in fold (\<lambda>(i, sub) v. snd (svc_sweep_subscription X v (clock (Suc i)) (sr_id sub) LEASE_GC_GRACE_MS))
           (enumerate 0 subs) v)"

text \<open>One turn of the push manager's loop, and its end.\<close>

definition push_tick :: "'s kv_ops \<Rightarrow> ext \<Rightarrow> 's process \<Rightarrow> 's process" where
  "push_tick K X p =
     (case reconcile K X (po_svc p) (po_manager p) of
        (M, evs) \<Rightarrow> p\<lparr>po_manager := M, po_tasks := po_tasks p @ evs\<rparr>)"

definition push_end :: "'s process \<Rightarrow> 's process" where
  "push_end p =
     (case manager_shutdown (po_manager p) of
        (M, evs) \<Rightarrow> p\<lparr>po_manager := M, po_tasks := po_tasks p @ evs, po_push := False\<rparr>)"

section \<open>The running process\<close>

text \<open>
  Each call of the retention loop is an operation of the service, so that other users may act
  between two of them is covered by \<open>request\<close>.

  \<open>listen_for_shutdown_signal\<close> and the line after it: on a signal the token is cancelled and the
  process stops being ready. \<open>signal_fails\<close> is the early return when no handler can be installed.
\<close>

definition running :: "'s process \<Rightarrow> bool" where
  "running p \<longleftrightarrow> po_main p \<notin> range Exited"

inductive process_step :: "'s kv_ops \<Rightarrow> ext \<Rightarrow> 's process \<Rightarrow> 's process \<Rightarrow> bool" for K X where
  signal: "po_main p = Serving \<Longrightarrow>
    process_step K X p (p\<lparr>po_cancelled := True, po_ready := DRAINING, po_main := Unserving\<rparr>)"
| signal_fails: "po_main p = Serving \<Longrightarrow>
    process_step K X p (p\<lparr>po_ready := DRAINING, po_main := Unserving\<rparr>)"
| unserve: "po_main p = Unserving \<Longrightarrow> 
    process_step K X p (p\<lparr>po_health := False, po_notified := notify NotifyStopping (po_notified p), po_main := Waiting\<rparr>)"
| drained: "po_main p = Waiting \<Longrightarrow> \<not> po_server p \<Longrightarrow> \<not> po_admin p \<Longrightarrow> process_step K X p (p\<lparr>po_main := Joining\<rparr>)"
| grace_elapsed: "po_main p = Waiting \<Longrightarrow> process_step K X p (p\<lparr>po_main := Joining\<rparr>)"
| exit: "po_main p = Joining \<Longrightarrow> \<not> po_watchdog p \<Longrightarrow> \<not> po_sync p \<Longrightarrow> \<not> po_push p \<Longrightarrow> \<not> po_retention p \<Longrightarrow>
    process_step K X p (p\<lparr>po_synced := True, po_main := Exited 0\<rparr>)"
| server_end: "running p \<Longrightarrow> po_server p \<Longrightarrow> po_cancelled p \<Longrightarrow> process_step K X p (p\<lparr>po_server := False\<rparr>)"
| admin_end: "running p \<Longrightarrow> po_admin p \<Longrightarrow> po_cancelled p \<Longrightarrow> process_step K X p (p\<lparr>po_admin := False\<rparr>)"
| watchdog: "running p \<Longrightarrow> po_watchdog p \<Longrightarrow>
    process_step K X p (p\<lparr>po_notified := notify NotifyWatchdog (po_notified p)\<rparr>)"
| watchdog_end: "running p \<Longrightarrow> po_watchdog p \<Longrightarrow> po_cancelled p \<Longrightarrow> process_step K X p (p\<lparr>po_watchdog := False\<rparr>)"
| sync_end: "running p \<Longrightarrow> po_sync p \<Longrightarrow> po_cancelled p \<Longrightarrow> process_step K X p (p\<lparr>po_sync := False\<rparr>)"
| retention: "running p \<Longrightarrow> po_retention p \<Longrightarrow> process_step K X p (p\<lparr>po_svc := retention_tick K X clock (po_svc p)\<rparr>)"
| retention_end: "running p \<Longrightarrow> po_retention p \<Longrightarrow> po_cancelled p \<Longrightarrow> process_step K X p (p\<lparr>po_retention := False\<rparr>)"
| push: "running p \<Longrightarrow> po_push p \<Longrightarrow> process_step K X p (push_tick K X p)"
| push_ends: "running p \<Longrightarrow> po_push p \<Longrightarrow> po_cancelled p \<Longrightarrow> process_step K X p (push_end p)"
| request: "running p \<Longrightarrow> op \<noteq> Restart \<Longrightarrow> process_step K X p (p\<lparr>po_svc := svc_exec K X op (po_svc p)\<rparr>)"

inductive process_steps :: "'s kv_ops \<Rightarrow> ext \<Rightarrow> 's process \<Rightarrow> 's process \<Rightarrow> bool" for K X p where
  here: "process_steps K X p p"
| more: "process_steps K X p q \<Longrightarrow> process_step K X q r \<Longrightarrow> process_steps K X p r"

section \<open>The push tasks\<close>

lemma tasks_after_stops: "tasks_after (map Stop hs) T = T - set hs"
proof (induction hs arbitrary: T)
  case (Cons h hs)
  have "tasks_after (map Stop (h # hs)) T = tasks_after (map Stop hs) (T - {h})" by (simp add: tasks_after_def)
  with Cons show ?case by auto
qed (simp add: tasks_after_def)

lemma manager_shutdown_stops:
  assumes "manager_shutdown M = (M', evs)"
  shows "mg_entries M' = []" and "tasks_after evs (handles M) = {}" and "manager_ok M'"
proof -
  have evs: "evs = map Stop (map (pe_handle \<circ> snd) (mg_entries M))" and M': "M' = M\<lparr>mg_entries := []\<rparr>"
    using assms by (auto simp: manager_shutdown_def)
  have "handles M \<subseteq> set (map (pe_handle \<circ> snd) (mg_entries M))"
    by (force simp: handles_def ran_def dest: map_of_SomeD)
  then show "tasks_after evs (handles M) = {}" unfolding evs tasks_after_stops by blast
  show "mg_entries M' = []" "manager_ok M'" by (simp_all add: M' manager_ok_def)
qed

section \<open>Shutdown\<close>

definition process_ok :: "'s process \<Rightarrow> bool" where
  "process_ok p \<longleftrightarrow>
     (po_main p = Serving \<longleftrightarrow> po_ready p = READY) \<and>
     (po_main p = Serving \<longrightarrow> \<not> po_cancelled p) \<and>
     (po_main p \<in> {Serving, Unserving} \<longrightarrow> po_health p) \<and> (po_health p \<longrightarrow> po_main p \<in> {Serving, Unserving}) \<and>
     (\<not> po_cancelled p \<longrightarrow> po_server p \<and> po_sync p \<and> po_push p \<and> po_retention p) \<and>
     (\<forall>n. po_main p = Exited n \<longrightarrow>
        n = 0 \<and> po_synced p \<and> \<not> po_watchdog p \<and> \<not> po_sync p \<and> \<not> po_push p \<and> \<not> po_retention p) \<and>
     lifecycle (po_notified p) = NotifyReady # (if po_health p then [] else [NotifyStopping]) \<and>
     manager_ok (po_manager p) \<and> tasks_after (po_tasks p) {} = handles (po_manager p) \<and>
     (\<not> po_push p \<longrightarrow> mg_entries (po_manager p) = [])"

lemma ready_values [simp]: "READY \<noteq> DRAINING" "DRAINING \<noteq> READY"
  by (simp_all add: READY_def DRAINING_def)

lemma process_step_ok:
  assumes "process_step K X p p'" and "process_ok p"
  shows "process_ok p'"
  using assms
proof (induction rule: process_step.induct)
  case (push p)
  obtain M evs where r: "reconcile K X (po_svc p) (po_manager p) = (M, evs)" by fastforce
  have "manager_ok M \<and> tasks_after evs (handles (po_manager p)) = handles M"
    using reconcile_logged [of "po_manager p" K X "po_svc p"] r push.prems by (auto simp: logged_def process_ok_def)
  with push show ?case by (auto simp: process_ok_def push_tick_def r running_def)
next
  case (push_ends p)
  obtain M evs where r: "manager_shutdown (po_manager p) = (M, evs)" by fastforce
  with push_ends manager_shutdown_stops [OF r] show ?case
    by (auto simp: process_ok_def push_end_def running_def handles_def)
qed (auto simp: process_ok_def running_def)

lemma process_steps_ok: "process_steps K X p q \<Longrightarrow> process_ok p \<Longrightarrow> process_ok q"
  by (induction rule: process_steps.induct) (auto intro: process_step_ok)

lemma run_serve_ok: "run_serve E X cfg = Inr p \<Longrightarrow> process_ok p"
  by (auto simp: run_serve_def process_ok_def Let_def push_manager_new_def manager_ok_def handles_def tasks_after_def
      split: if_splits sum.splits option.splits)

text \<open>What is left to do before the process ends; a server that does not end in time is not waited for.\<close>

definition shutdown_left :: "'s process \<Rightarrow> nat" where
  "shutdown_left p =
     (case po_main p of Serving \<Rightarrow> 4 | Unserving \<Rightarrow> 3 | Waiting \<Rightarrow> 2 | Joining \<Rightarrow> 1 | Exited _ \<Rightarrow> 0) +
     of_bool (po_watchdog p) + of_bool (po_sync p) + of_bool (po_push p) + of_bool (po_retention p)"

lemma shutdown_steps:
  assumes "process_step K X p q" and "po_cancelled p"
  shows "po_cancelled q \<and> shutdown_left q \<le> shutdown_left p"
  using assms
  by (induction rule: process_step.induct)
    (auto simp: shutdown_left_def push_tick_def push_end_def split: prod.split)

lemma shutdown_enabled:
  assumes "process_ok p" and "po_cancelled p" and "running p"
  shows "\<exists>q. process_step K X p q \<and> shutdown_left q < shutdown_left p"
proof -
  have main: "\<exists>q. process_step K X p q \<and> shutdown_left q < shutdown_left p"
    if "process_step K X p (f p)" "shutdown_left (f p) < shutdown_left p" for f
    using that by blast
  consider "po_watchdog p" | "po_sync p" | "po_push p" | "po_retention p"
    | "\<not> po_watchdog p" "\<not> po_sync p" "\<not> po_push p" "\<not> po_retention p" by blast
  then show ?thesis
  proof cases
    case 1
    then show ?thesis
      by (intro main [of "\<lambda>p. p\<lparr>po_watchdog := False\<rparr>"] process_step.watchdog_end assms) (simp_all add: shutdown_left_def)
  next
    case 2
    then show ?thesis
      by (intro main [of "\<lambda>p. p\<lparr>po_sync := False\<rparr>"] process_step.sync_end assms) (simp_all add: shutdown_left_def)
  next
    case 3
    then show ?thesis
      by (intro main [of push_end] process_step.push_ends assms) (simp_all add: shutdown_left_def push_end_def split: prod.split)
  next
    case 4
    then show ?thesis
      by (intro main [of "\<lambda>p. p\<lparr>po_retention := False\<rparr>"] process_step.retention_end assms)
        (simp_all add: shutdown_left_def)
  next
    case 5
    show ?thesis
    proof (cases "po_main p")
      case Unserving
      then show ?thesis
        by (intro main [of "\<lambda>p. p\<lparr>po_health := False, po_notified := notify NotifyStopping (po_notified p), po_main := Waiting\<rparr>"] process_step.unserve)
          (simp_all add: shutdown_left_def)
    next
      case Waiting
      then show ?thesis
        by (intro main [of "\<lambda>p. p\<lparr>po_main := Joining\<rparr>"] process_step.grace_elapsed) (simp_all add: shutdown_left_def)
    next
      case Joining
      with 5 show ?thesis
        by (intro main [of "\<lambda>p. p\<lparr>po_synced := True, po_main := Exited 0\<rparr>"] process_step.exit)
          (simp_all add: shutdown_left_def)
    qed (use assms in \<open>simp_all add: process_ok_def running_def\<close>)
  qed
qed

lemma steps_trans: "process_steps K X q r \<Longrightarrow> process_steps K X p q \<Longrightarrow> process_steps K X p r"
  by (induction rule: process_steps.induct) (auto intro: process_steps.more)

lemma shutdown_reaches_exit:
  assumes "process_ok p" and "po_cancelled p"
  shows "\<exists>q. process_steps K X p q \<and> po_main q = Exited 0"
  using assms
proof (induction "shutdown_left p" arbitrary: p rule: less_induct)
  case less
  show ?case
  proof (cases "running p")
    case True
    then obtain q where q: "process_step K X p q" "shutdown_left q < shutdown_left p"
      using shutdown_enabled less.prems by blast
    then obtain r where r: "process_steps K X q r" "po_main r = Exited 0"
      using less.hyps [of q] process_step_ok shutdown_steps less.prems by blast
    have "process_steps K X p q" by (rule process_steps.more [OF process_steps.here q(1)])
    with r show ?thesis using steps_trans by blast
  next
    case False
    then have "po_main p = Exited 0" using less.prems by (auto simp: running_def process_ok_def)
    then show ?thesis using process_steps.here by blast
  qed
qed

text \<open>Without a signal handler the process leaves readiness for good and never ends.\<close>

lemma handler_failure_hangs:
  assumes "process_steps K X p q" and "process_ok p" and "po_main p \<noteq> Serving" and "\<not> po_cancelled p"
  shows "\<not> po_cancelled q \<and> \<not> is_ready (po_ready q) \<and> running q \<and> po_main q \<noteq> Serving"
proof -
  have stuck: "running q" if "process_ok q" "\<not> po_cancelled q" for q :: "'a process"
    using that by (auto simp: process_ok_def running_def)
  have "process_ok q \<and> \<not> po_cancelled q \<and> po_main q \<noteq> Serving"
    using assms
  proof (induction rule: process_steps.induct)
    case (more q r)
    then have q: "process_ok q" "\<not> po_cancelled q" "po_main q \<noteq> Serving" by auto
    have "\<not> po_cancelled r \<and> po_main r \<noteq> Serving"
      using more.hyps(2) q by cases (auto simp: push_tick_def push_end_def split: prod.split)
    with process_step_ok [OF more.hyps(2) q(1)] show ?case by blast
  qed simp
  with stuck show ?thesis by (auto simp: process_ok_def is_ready_def)
qed

section \<open>The service behind the process\<close>

lemma retention_tick_ops: "\<exists>ops. retention_tick K X clock v = fold (svc_exec K X) ops v"
proof -
  let ?v = "snd (svc_sweep_retention K X v (clock 0))"
  let ?subs = "enumerate 0 (svc_list_all_subscriptions K X ?v)"
  have "retention_tick K X clock v = fold (svc_exec K X)
      (map (\<lambda>(i, sub). SweepSubscription (clock (Suc i)) (sr_id sub) LEASE_GC_GRACE_MS) ?subs) ?v"
    unfolding retention_tick_def Let_def fold_map by (intro fold_cong) (auto simp: fun_eq_iff)
  also have "\<dots> = fold (svc_exec K X) (SweepRetention (clock 0) #
      map (\<lambda>(i, sub). SweepSubscription (clock (Suc i)) (sr_id sub) LEASE_GC_GRACE_MS) ?subs) v"
    by simp
  finally show ?thesis by blast
qed

context store_env
begin

lemma process_step_inv: "process_step K X p q \<Longrightarrow> svc_inv (po_svc p) \<Longrightarrow> svc_inv (po_svc q)"
proof (induction rule: process_step.induct)
  case (retention p clock)
  obtain ops where "retention_tick K X clock (po_svc p) = fold (svc_exec K X) ops (po_svc p)"
    using retention_tick_ops by blast
  with retention fold_exec_inv show ?case by simp
next
  case (request p op)
  with svc_exec_inv show ?case by simp
qed (simp_all add: push_tick_def push_end_def split: prod.split)

lemma process_steps_inv: "process_steps K X p q \<Longrightarrow> svc_inv (po_svc p) \<Longrightarrow> svc_inv (po_svc q)"
proof (induction rule: process_steps.induct)
  case (more q r)
  then show ?case using process_step_inv by blast
qed simp

end

section \<open>Garbage collection of leases\<close>

lemma sweep_loop_other:
  assumes "\<And>x. x \<in> set xs \<Longrightarrow> e_sub_id x \<noteq> sub \<Longrightarrow> (e_sub_id x, e_seq x) \<noteq> k"
  shows "lease_abs (snd (sweep_loop X sub now xs (n, T))) k = lease_abs T k"
  using assms by (induction xs arbitrary: n T) (auto simp: insert_abs)

lemma sweep_loop_kept:
  assumes "x \<in> set xs" and "e_sub_id x \<noteq> sub"
    and "\<And>y. y \<in> set xs \<Longrightarrow> (e_sub_id y, e_seq y) = (e_sub_id x, e_seq x) \<Longrightarrow> y = x"
  shows "lease_abs (snd (sweep_loop X sub now xs (n, T))) (e_sub_id x, e_seq x) =
    Some \<lparr>l_sub_id = e_sub_id x, l_seq = e_seq x, l_deadline_ms = now, l_attempts = e_attempts x,
      l_generation = e_generation x\<rparr>"
  using assms
proof (induction xs arbitrary: n T)
  case (Cons y ys)
  show ?case
  proof (cases "x \<in> set ys")
    case True
    with Cons show ?thesis by simp
  next
    case False
    then have "y = x" "\<And>z. z \<in> set ys \<Longrightarrow> (e_sub_id z, e_seq z) \<noteq> (e_sub_id x, e_seq x)"
      using Cons.prems by auto
    then show ?thesis using Cons.prems(2) by (simp add: sweep_loop_other insert_abs)
  qed
qed simp

text \<open>
  The exact effect on a lease: once its grace is over it is dropped when it is of the swept
  subscription, and its deadline becomes the current time otherwise.
\<close>

definition swept_lease :: "u64 \<Rightarrow> int \<Rightarrow> int \<Rightarrow> lease \<Rightarrow> lease option" where
  "swept_lease sub now grace l =
     (if l_deadline_ms l \<le> i64_sat_sub now grace
      then if l_sub_id l = sub then None else Some (l\<lparr>l_deadline_ms := now\<rparr>) else Some l)"

lemma swept_lease_later:
  "swept_lease sub now grace l = Some l' \<Longrightarrow> i64_sat_sub now grace < now \<Longrightarrow> i64_sat_sub now grace < l_deadline_ms l'"
  by (auto simp: swept_lease_def split: if_splits)

lemma sweep_expired_leases:
  assumes "lease_table_wf (eng_leases e)"
  shows "lease_abs (eng_leases (snd (sweep_expired X e sub now grace))) k =
    Option.bind (lease_abs (eng_leases e) k) (swept_lease sub now grace)"
proof -
  let ?t = "i64_sat_sub now grace" and ?T = "eng_leases e"
  obtain xs T where x: "lease_expire_up_to ?T ?t = (xs, T)" by fastforce
  obtain n T' where l: "sweep_loop X sub now xs (0, T) = (n, T')" by fastforce
  have T: "eng_leases (snd (sweep_expired X e sub now grace)) = snd (sweep_loop X sub now xs (0, T))"
    by (simp add: sweep_expired_def x l)
  note spec = expire_spec [OF assms x]
  have ids: "l_sub_id l = fst j" "l_seq l = snd j" if "lease_abs ?T j = Some l" for j l
    using assms that by (cases j, simp add: lease_table_wf_def del: map_of_eq_Some_iff)+
  have xs: "y \<in> set xs \<longleftrightarrow> (\<exists>l. lease_abs ?T (e_sub_id y, e_seq y) = Some l \<and> l_deadline_ms l \<le> ?t \<and> y = expired_of l)" for y
  proof
    assume "y \<in> set xs"
    then obtain j l where j: "lease_abs ?T j = Some l" "l_deadline_ms l \<le> ?t" "y = expired_of l"
      unfolding spec(3) by blast
    moreover have "(e_sub_id y, e_seq y) = j" using ids [OF j(1)] j(3) by (simp add: expired_of_def)
    ultimately show "\<exists>l. lease_abs ?T (e_sub_id y, e_seq y) = Some l \<and> l_deadline_ms l \<le> ?t \<and> y = expired_of l"
      by blast
  next
    assume "\<exists>l. lease_abs ?T (e_sub_id y, e_seq y) = Some l \<and> l_deadline_ms l \<le> ?t \<and> y = expired_of l"
    then show "y \<in> set xs" unfolding spec(3) by blast
  qed
  show ?thesis
  proof (cases "\<exists>l. lease_abs ?T k = Some l \<and> l_deadline_ms l \<le> ?t \<and> l_sub_id l \<noteq> sub")
    case True
    then obtain l where l: "lease_abs ?T k = Some l" "l_deadline_ms l \<le> ?t" "l_sub_id l \<noteq> sub" by blast
    let ?x = "expired_of l"
    have k: "(e_sub_id ?x, e_seq ?x) = k" using ids [OF l(1)] by (simp add: expired_of_def)
    have "?x \<in> set xs" using l k by (simp add: xs [of ?x])
    moreover have "e_sub_id ?x \<noteq> sub" using l by (simp add: expired_of_def)
    moreover have "y = ?x" if "y \<in> set xs" "(e_sub_id y, e_seq y) = (e_sub_id ?x, e_seq ?x)" for y
      using that l(1) k by (simp add: xs [of y])
    ultimately have "lease_abs (snd (sweep_loop X sub now xs (0, T))) (e_sub_id ?x, e_seq ?x) =
        Some \<lparr>l_sub_id = e_sub_id ?x, l_seq = e_seq ?x, l_deadline_ms = now, l_attempts = e_attempts ?x,
          l_generation = e_generation ?x\<rparr>"
      by (rule sweep_loop_kept)
    then have "lease_abs (snd (sweep_loop X sub now xs (0, T))) k = Some (l\<lparr>l_deadline_ms := now\<rparr>)"
      unfolding k by (simp add: expired_of_def del: map_of_eq_Some_iff)
    with l show ?thesis unfolding T by (simp add: swept_lease_def del: map_of_eq_Some_iff)
  next
    case False
    have "lease_abs (snd (sweep_loop X sub now xs (0, T))) k = lease_abs T k"
    proof (rule sweep_loop_other)
      fix y assume y: "y \<in> set xs" "e_sub_id y \<noteq> sub"
      then obtain l where "lease_abs ?T (e_sub_id y, e_seq y) = Some l" "l_deadline_ms l \<le> ?t" "y = expired_of l"
        using xs [of y] by blast
      with False y(2) show "(e_sub_id y, e_seq y) \<noteq> k" by (auto simp: expired_of_def simp del: map_of_eq_Some_iff)
    qed
    with False show ?thesis
      unfolding T spec(2) by (cases "lease_abs ?T k") (auto simp: swept_lease_def simp del: map_of_eq_Some_iff)
  qed
qed

abbreviation svc_leases :: "'s service \<Rightarrow> u64 \<times> u64 \<Rightarrow> lease option" where
  "svc_leases v \<equiv> lease_abs (eng_leases (svc_engine v))"

lemma svc_sweep_leases:
  assumes "lease_table_wf (eng_leases (svc_engine v))"
  shows "svc_leases (snd (svc_sweep_subscription X v now sub grace)) k = Option.bind (svc_leases v k) (swept_lease sub now grace)"
    and "lease_table_wf (eng_leases (svc_engine (snd (svc_sweep_subscription X v now sub grace))))"
proof -
  let ?r = "sweep_expired X (svc_engine v) sub now grace"
  have r: "svc_engine (snd (svc_sweep_subscription X v now sub grace)) = snd ?r"
    by (simp add: svc_sweep_subscription_def split: prod.split)
  show "svc_leases (snd (svc_sweep_subscription X v now sub grace)) k = Option.bind (svc_leases v k) (swept_lease sub now grace)"
    unfolding r by (rule sweep_expired_leases [OF assms])
  obtain xs T where x: "lease_expire_up_to (eng_leases (svc_engine v)) (i64_sat_sub now grace) = (xs, T)" by fastforce
  have "eng_leases (snd ?r) = snd (sweep_loop X sub now xs (0, T))"
    by (simp add: sweep_expired_def x split: prod.split)
  with sweep_loop_wf [OF expire_spec(1) [OF assms x]]
  show "lease_table_wf (eng_leases (svc_engine (snd (svc_sweep_subscription X v now sub grace))))"
    unfolding r by simp
qed

text \<open>The sweeps of one turn, one subscription after the other.\<close>

definition gc_sweeps :: "ext \<Rightarrow> (nat \<Rightarrow> int) \<Rightarrow> (nat \<times> subscription_record) list \<Rightarrow> 's service \<Rightarrow> 's service" where
  "gc_sweeps X clock = fold (\<lambda>(i, sub) v. snd (svc_sweep_subscription X v (clock (Suc i)) (sr_id sub) LEASE_GC_GRACE_MS))"

lemma gc_sweeps_simps [simp]:
  "gc_sweeps X clock [] v = v"
  "gc_sweeps X clock ((i, sub) # xs) v =
     gc_sweeps X clock xs (snd (svc_sweep_subscription X v (clock (Suc i)) (sr_id sub) LEASE_GC_GRACE_MS))"
  by (simp_all add: gc_sweeps_def)

lemma gc_keeps_active:
  assumes "lease_table_wf (eng_leases (svc_engine v))" and "svc_leases v k = Some l"
    and "\<And>i. i64_sat_sub (clock i) LEASE_GC_GRACE_MS < l_deadline_ms l"
  shows "svc_leases (gc_sweeps X clock xs v) k = Some l"
  using assms(1,2)
proof (induction xs arbitrary: v)
  case (Cons x xs)
  obtain i sub where x: "x = (i, sub)" by fastforce
  let ?v = "snd (svc_sweep_subscription X v (clock (Suc i)) (sr_id sub) LEASE_GC_GRACE_MS)"
  have "svc_leases ?v k = Some l"
    unfolding svc_sweep_leases(1) [OF Cons.prems(1)] Cons.prems(2)
    using assms(3) [of "Suc i"] by (simp add: swept_lease_def)
  with Cons.IH svc_sweep_leases(2) [OF Cons.prems(1)] show ?case by (simp add: x del: map_of_eq_Some_iff)
qed simp

lemma gc_first_only:
  assumes "lease_table_wf (eng_leases (svc_engine v))" and "i64_min < now" and "in_i64 now"
  shows "svc_leases (gc_sweeps X (\<lambda>_. now) ((i, sub) # xs) v) k =
    Option.bind (svc_leases v k) (swept_lease (sr_id sub) now LEASE_GC_GRACE_MS)"
proof -
  let ?v = "snd (svc_sweep_subscription X v now (sr_id sub) LEASE_GC_GRACE_MS)"
  note sw = svc_sweep_leases [OF assms(1), of X now "sr_id sub" LEASE_GC_GRACE_MS]
  have past: "i64_sat_sub now LEASE_GC_GRACE_MS < now"
    using assms(2,3) by (simp add: i64_sat_sub_def sat_i64_def LEASE_GC_GRACE_MS_def in_i64_def i64_min_def i64_max_def)
  show ?thesis
  proof (cases "svc_leases ?v k")
    case (Some l)
    have "i64_sat_sub now LEASE_GC_GRACE_MS < l_deadline_ms l"
      using Some past unfolding sw(1) bind_eq_Some_conv by (blast intro: swept_lease_later)
    then have "svc_leases (gc_sweeps X (\<lambda>_. now) xs ?v) k = Some l"
      by (intro gc_keeps_active sw(2) Some)
    with Some sw(1) show ?thesis by simp
  next
    case None
    have "svc_leases (gc_sweeps X (\<lambda>_. now) ys w) k = None"
      if "lease_table_wf (eng_leases (svc_engine w))" "svc_leases w k = None" for ys and w :: "'a service"
      using that
    proof (induction ys arbitrary: w)
      case (Cons y ys)
      with svc_sweep_leases [OF Cons.prems(1)] show ?case by (cases y) (simp del: map_of_eq_None_iff)
    qed simp
    with None sw show ?thesis by (simp del: map_of_eq_None_iff)
  qed
qed

lemma retention_tick_gc:
  fixes v :: "'s service"
  defines "v1 \<equiv> \<lambda>K X clock. snd (svc_sweep_retention K X v (clock (0::nat)))"
  shows "retention_tick K X clock v = gc_sweeps X clock (enumerate 0 (svc_list_all_subscriptions K X (v1 K X clock))) (v1 K X clock)"
    and "eng_leases (svc_engine (v1 K X clock)) = eng_leases (svc_engine v)"
  by (simp_all add: retention_tick_def gc_sweeps_def v1_def Let_def svc_sweep_retention_def split: prod.split)

end
