(* ===== verification/Fjall_Claims.thy ===== *)
theory Fjall_Claims
  imports Fjall Demo_State
begin

text \<open>
  What the on-disk backend guarantees, with an instance whose engine keeps its entries in memory.
\<close>

section \<open>An engine\<close>

definition demo_fjall :: "mem_kv fjall_ops" where
  "demo_fjall =
     \<lparr>fj_open = (\<lambda>_ _. Inr []), fj_keyspace = (\<lambda>_ _. None), fj_get = (\<lambda>m ks k. Inr (map_of m (ks, k))),
      fj_insert = (\<lambda>m ks k v. (Inr (), hm_insert (ks, k) v m)), fj_remove = (\<lambda>m ks k. (Inr (), hm_remove (ks, k) m)),
      fj_prefix = (\<lambda>m ks p. map Inr (mem_scan_prefix m ks p)), fj_disk_space = (\<lambda>_. Inr 0)\<rparr>"

lemma demo_fjall_view: "fj_view demo_fjall m = map_of m"
  by (auto simp: fj_view_def demo_fjall_def fun_eq_iff)

lemma demo_fjall_laws: "fjall_laws demo_fjall hm_wf"
  unfolding fjall_laws_def fj_write_def demo_fjall_view
  using mem_scan_set mem_scan_sorted by (auto simp: demo_fjall_def)

lemma u32_one_bytes: "u32_to_be_bytes 1 = [0, 0, 0, 1]"
proof -
  have "(4::nat) = Suc (Suc (Suc (Suc 0)))" by simp
  then have "u32_to_be_bytes 1 = be_bytes (Suc (Suc (Suc (Suc 0)))) 1" by (simp only: u32_to_be_bytes_def unsigned_1)
  then show ?thesis by simp
qed

section \<open>Claims\<close>



text \<open>The marker is invisible to the broker's invariant.\<close>

lemma store_inv_marker: "store_inv X (V((''meta'', FORMAT_VERSION_KEY) \<mapsto> b)) \<longleftrightarrow> store_inv X V"
  by (simp add: store_inv_def counter_value_def marker_not_a_key marker_not_a_key [symmetric])

lemma format_check_inv:
  assumes "fjall_laws D good" and "good d" and "check_and_write_format_version D d = (r, d')"
  shows "good d' \<and> (store_inv X (kv_view (fjall_kv_ops D) d') \<longleftrightarrow> store_inv X (kv_view (fjall_kv_ops D) d))"
proof (cases "d' = d")
  case False
  let ?one = "u32_to_be_bytes FORMAT_VERSION"
  obtain q where ins: "fj_insert D d ''meta'' FORMAT_VERSION_KEY ?one = (q, d')"
    using assms(3) False
    by (auto simp: check_and_write_format_version_def fjall_reads [OF assms(1,2)] FORMAT_VERSION_KEYSPACE_def
        split: prod.splits sum.splits option.splits if_splits)
  have w: "fj_write D good d (''meta'', FORMAT_VERSION_KEY) (Some ?one) (q, d')"
    using fjall_insert [OF assms(1,2), of "''meta''" FORMAT_VERSION_KEY ?one] by (simp only: ins)
  then have good: "good d'" by (simp add: fj_write_def)
  have "store_inv X (fj_view D d') \<longleftrightarrow> store_inv X (fj_view D d)"
    using w store_inv_marker by (auto simp: fj_write_def)
  with good show ?thesis unfolding fjall_view [OF assms(1,2)] fjall_view [OF assms(1) good] by blast
qed (use assms in simp)

text \<open>
  C39: the format version of a data directory. A directory without the marker gets version 1 and
  nothing else changes; one with a marker is never changed, and is opened exactly when the marker
  is a version this program knows, a newer one and a damaged marker being refused by name. Opening
  an opened directory again succeeds and changes nothing, and opening preserves the invariant of
  the broker's data.
\<close>

theorem format_version_gate:
  assumes "fjall_laws D good" and "good d"
    and "check_and_write_format_version D d = (r, d')"
  shows "good d' \<and>
    (fj_view D d (''meta'', FORMAT_VERSION_KEY) = None \<longrightarrow>
       (r = Inr () \<longrightarrow> fj_view D d' = (fj_view D d)((''meta'', FORMAT_VERSION_KEY) \<mapsto> [0, 0, 0, 1])) \<and>
       (\<forall>e. r = Inl e \<longrightarrow> e \<in> range Storage)) \<and>
    (\<forall>bs. fj_view D d (''meta'', FORMAT_VERSION_KEY) = Some bs \<longrightarrow> d' = d \<and>
       r = (if length bs \<noteq> 4 then Inl CorruptFormatVersionMarker
            else if be_value 0 bs > 1 then Inl (UnsupportedFormatVersion (word_of_nat (be_value 0 bs)) 1)
            else Inr ())) \<and>
    (r = Inr () \<longrightarrow> check_and_write_format_version D d' = (Inr (), d')) \<and>
    (store_inv X (kv_view (fjall_kv_ops D) d') \<longleftrightarrow> store_inv X (kv_view (fjall_kv_ops D) d))"
proof -
  let ?k = "(''meta'', FORMAT_VERSION_KEY)"
  have one: "u32_to_be_bytes FORMAT_VERSION = [0, 0, 0, 1]"
    by (simp add: FORMAT_VERSION_def u32_one_bytes)
  have big: "word_of_nat (be_value 0 bs) > (1 :: u32) \<longleftrightarrow> be_value 0 bs > 1" if "length bs = 4" for bs
  proof -
    have "be_value 0 bs < 2 ^ LENGTH(32)" using be_value_less [of bs] that by simp
    then show ?thesis by (simp add: word_less_nat_alt unsigned_of_nat take_bit_nat_eq_self)
  qed
  note ks = fjall_reads [OF assms(1)]
  show ?thesis
  proof (cases "fj_view D d ?k")
    case (Some bs)
    have "r = (if length bs \<noteq> 4 then Inl CorruptFormatVersionMarker
        else if be_value 0 bs > 1 then Inl (UnsupportedFormatVersion (word_of_nat (be_value 0 bs)) 1)
        else Inr ()) \<and> d' = d"
      using assms(3) big [of bs] Some
      by (auto simp: check_and_write_format_version_def ks [OF assms(2)] FORMAT_VERSION_KEYSPACE_def FORMAT_VERSION_def
          u32_from_be_bytes_def split: if_splits)
    with Some assms(2,3) show ?thesis by auto
  next
    case None
    obtain q where ins: "fj_insert D d ''meta'' FORMAT_VERSION_KEY [0, 0, 0, 1] = (q, d')"
      and r: "r = (case q of Inl e \<Rightarrow> Inl (Storage e) | Inr _ \<Rightarrow> Inr ())"
      using assms(3) None
      by (auto simp: check_and_write_format_version_def ks [OF assms(2)] FORMAT_VERSION_KEYSPACE_def one
          split: prod.splits sum.splits)
    have w: "fj_write D good d ?k (Some [0, 0, 0, 1]) (q, d')"
      using fjall_insert [OF assms(1,2), of "''meta''" FORMAT_VERSION_KEY "[0, 0, 0, 1]"] by (simp only: ins)
    then have good: "good d'" by (simp add: fj_write_def)
    have "store_inv X (kv_view (fjall_kv_ops D) d') \<longleftrightarrow> store_inv X (kv_view (fjall_kv_ops D) d)"
      using format_check_inv [OF assms] by blast
    moreover have view: "fj_view D d' = (fj_view D d)(?k \<mapsto> [0, 0, 0, 1])" if "r = Inr ()"
      using that w r by (cases q) (auto simp: fj_write_def)
    moreover have "check_and_write_format_version D d' = (Inr (), d')" if "r = Inr ()"
      using view [OF that]
      by (simp add: check_and_write_format_version_def ks [OF good] FORMAT_VERSION_KEYSPACE_def FORMAT_VERSION_def
          u32_from_be_bytes_def)
    moreover have "e \<in> range Storage" if "r = Inl e" for e
      using that r by (cases q) auto
    ultimately show ?thesis using None good by simp
  qed
qed

theorem format_version_gate_witness:
  "\<exists>d'. check_and_write_format_version demo_fjall [] = (Inr (), d') \<and>
     map_of d' (''meta'', FORMAT_VERSION_KEY) = Some [0, 0, 0, 1] \<and>
     check_and_write_format_version demo_fjall d' = (Inr (), d')"
proof -
  have "\<exists>d'. check_and_write_format_version demo_fjall [] = (Inr (), d')"
    by (simp add: check_and_write_format_version_def demo_fjall_def)
  then obtain d' where "check_and_write_format_version demo_fjall [] = (Inr (), d')" by blast
  with format_version_gate [OF demo_fjall_laws _ this] show ?thesis by (simp add: demo_fjall_view)
qed

end
