(* ===== verification/Process_Claims.thy ===== *)
theory Process_Claims
  imports Process Fjall_Claims
begin

text \<open>What the server process guarantees from start-up to its end.\<close>

section \<open>Start-up\<close>

lemma open_store_inv:
  assumes laws: "fjall_laws (en_fjall E) good" and fresh: "\<And>path cache d. fj_open (en_fjall E) path cache = Inr d \<Longrightarrow>
      good d \<and> store_inv X (kv_view (fjall_kv_ops (en_fjall E)) d)"
    and open_ok: "open_store E cfg = Inr kv"
  shows "case_any_kv hm_wf good kv \<and> store_inv X (kv_view (any_kv_ops (fjall_kv_ops (en_fjall E))) kv)"
proof (cases "st_ephemeral cfg")
  case True
  then have "kv = AnyMem []" using open_ok by (simp add: open_store_def mem_new_def)
  then show ?thesis by (simp add: mem_view store_inv_def)
next
  case False
  then obtain d0 d where "fj_open (en_fjall E) (st_data_dir cfg) (st_cache_size_bytes cfg) = Inr d0"
    "check_and_write_format_version (en_fjall E) d0 = (Inr (), d)" "kv = AnyFjall d"
    using open_ok by (auto simp: open_store_def fjall_open_def split: sum.splits prod.splits)
  with fresh format_check_inv [OF laws] show ?thesis by fastforce
qed

lemma run_serve_service:
  assumes "run_serve E X cfg = Inr p"
  obtains kv where "open_store E (cf_storage cfg) = Inr kv"
    "po_svc p = with_max_disk_bytes (service_new (any_kv_ops (fjall_kv_ops (en_fjall E))) X kv) (st_max_disk_bytes (cf_storage cfg))"
  using assms by (auto simp: run_serve_def Let_def split: if_splits sum.splits option.splits)

text \<open>An environment in which everything works.\<close>

definition demo_env :: "(mem_kv, string) serve_env" where
  "demo_env =
     \<lparr>en_log = \<lparr>le_filter_ok = (\<lambda>_. True), le_journald = False, le_try_init = (\<lambda>_. True)\<rparr>, en_rust_log = None, en_fjall = demo_fjall, en_parse_addr = Some,
      en_recorder_ok = True, en_bind = (\<lambda>_. True), en_admin_bind = (\<lambda>_. True), en_watchdog = None\<rparr>"

lemma demo_open: "\<exists>d. fjall_open demo_fjall path cache = Inr d"
  by (simp add: fjall_open_def check_and_write_format_version_def demo_fjall_def)

lemma demo_store: "en_fjall E = demo_fjall \<Longrightarrow> \<exists>kv. open_store E cfg = Inr kv"
  using demo_open [of "st_data_dir cfg" "st_cache_size_bytes cfg"] by (auto simp: open_store_def)

lemma demo_logging: "is_ok (telemetry_init (en_log demo_env) (lg_format (cf_log config_default)) flt)"
  by (simp add: demo_env_def config_default_def log_default_def default_log_format_def install_def)

lemma demo_run_serve: "\<exists>p. run_serve demo_env demo config_default = Inr p"
  using demo_store [of demo_env "cf_storage config_default"] demo_logging by (auto simp: run_serve_def demo_env_def Let_def)



section \<open>Until the end\<close>



text \<open>
  C35: shutdown completes. Once the shutdown signal has been taken, whatever happens in between, the
  process is never stuck: until it has ended a step towards the end is enabled, no step of anybody
  moves it away from the end, and so its end can be reached from every state.
\<close>

theorem shutdown_completes:
  assumes "run_serve E X cfg = Inr p0" and "process_steps K X p0 p" and "po_cancelled p"
  shows "(po_main p \<notin> range Exited \<longrightarrow> (\<exists>q. process_step K X p q \<and> shutdown_left q < shutdown_left p)) \<and>
    (\<forall>q. process_step K X p q \<longrightarrow> po_cancelled q \<and> shutdown_left q \<le> shutdown_left p) \<and>
    (\<exists>q. process_steps K X p q \<and> po_main q = Exited 0)"
proof -
  have ok: "process_ok p" by (rule process_steps_ok [OF assms(2) run_serve_ok [OF assms(1)]])
  show ?thesis
    using shutdown_enabled [OF ok assms(3)] shutdown_steps [OF _ assms(3)] shutdown_reaches_exit [OF ok assms(3)]
    unfolding running_def by blast
qed

theorem shutdown_completes_witness:
  "\<exists>p q. run_serve demo_env demo config_default = Inr p \<and>
     process_steps (any_kv_ops (fjall_kv_ops demo_fjall)) demo p q \<and> po_main q = Exited 0"
proof -
  let ?K = "any_kv_ops (fjall_kv_ops demo_fjall)"
  obtain p where p: "run_serve demo_env demo config_default = Inr p" using demo_run_serve by blast
  let ?q = "p\<lparr>po_cancelled := True, po_ready := DRAINING, po_main := Unserving\<rparr>"
  have "po_main p = Serving"
    using p by (auto simp: run_serve_def Let_def split: if_splits sum.splits option.splits)
  then have steps: "process_steps ?K demo p ?q"
    by (intro process_steps.more [OF process_steps.here] process_step.signal)
  from shutdown_completes [OF p steps] obtain r where "process_steps ?K demo ?q r" "po_main r = Exited 0" by auto
  with steps p show ?thesis using steps_trans by blast
qed

section \<open>The retention loop\<close>

text \<open>
  C37: what a turn of the retention loop does to the leases. A lease whose deadline is less than
  an hour past is left alone, whatever the clock does during the turn. With the clock standing
  still the effect is exact: of the leases past their grace, those of the first subscription listed
  are collected, and those of every other subscription stay and get the current time as deadline.
\<close>

theorem retention_tick_leases:
  assumes "lease_table_wf (eng_leases (svc_engine v))"
  shows "(\<forall>k l. svc_leases v k = Some l \<and> (\<forall>i. i64_sat_sub (clock i) LEASE_GC_GRACE_MS < l_deadline_ms l) \<longrightarrow>
      svc_leases (retention_tick K X clock v) k = Some l) \<and>
    (\<forall>now k. in_i64 now \<and> i64_min < now \<longrightarrow> svc_leases (retention_tick K X (\<lambda>_. now) v) k =
      (case svc_list_all_subscriptions K X (snd (svc_sweep_retention K X v now)) of
         [] \<Rightarrow> svc_leases v k
       | s # _ \<Rightarrow> Option.bind (svc_leases v k) (\<lambda>l.
           if l_deadline_ms l \<le> i64_sat_sub now 3600000
           then if l_sub_id l = sr_id s then None else Some (l\<lparr>l_deadline_ms := now\<rparr>) else Some l)))"
proof (intro conjI allI impI; (elim conjE)?)
  fix k l
  assume l: "svc_leases v k = Some l" "\<forall>i. i64_sat_sub (clock i) LEASE_GC_GRACE_MS < l_deadline_ms l"
  show "svc_leases (retention_tick K X clock v) k = Some l"
    unfolding retention_tick_gc(1)
    by (rule gc_keeps_active) (use assms l in \<open>simp_all add: retention_tick_gc(2) del: map_of_eq_Some_iff\<close>)
next
  fix now k
  assume now: "in_i64 now" "i64_min < now"
  let ?v = "snd (svc_sweep_retention K X v now)"
  have wf: "lease_table_wf (eng_leases (svc_engine ?v))" and same: "svc_leases ?v k = svc_leases v k"
    using assms by (simp_all add: retention_tick_gc(2) [where clock = "\<lambda>_. now"])
  show "svc_leases (retention_tick K X (\<lambda>_. now) v) k =
      (case svc_list_all_subscriptions K X ?v of
         [] \<Rightarrow> svc_leases v k
       | s # _ \<Rightarrow> Option.bind (svc_leases v k) (\<lambda>l.
           if l_deadline_ms l \<le> i64_sat_sub now 3600000
           then if l_sub_id l = sr_id s then None else Some (l\<lparr>l_deadline_ms := now\<rparr>) else Some l))"
  proof (cases "svc_list_all_subscriptions K X ?v")
    case Nil
    then show ?thesis by (simp add: retention_tick_gc(1) same)
  next
    case (Cons s rest)
    then show ?thesis
      using gc_first_only [OF wf now(2,1), of X 0 s "enumerate 1 rest" k]
      by (simp add: retention_tick_gc(1) same swept_lease_def [abs_def] LEASE_GC_GRACE_MS_def)
  qed
qed

theorem retention_tick_leases_witness:
  "svc_leases (retention_tick mem_kv_ops demo (\<lambda>_. 20) demo_service) (2, 1) = Some demo_lease"
proof -
  have "svc_leases demo_service (2, 1) = Some demo_lease" by (simp add: demo_service_def demo_leased_def)
  moreover have "i64_sat_sub 20 LEASE_GC_GRACE_MS < l_deadline_ms demo_lease"
    by (simp add: i64_sat_sub_def sat_i64_def LEASE_GC_GRACE_MS_def i64_min_def i64_max_def demo_lease_def)
  ultimately show ?thesis
    using retention_tick_leases [OF demo_service_inv(3), of "\<lambda>_. 20" mem_kv_ops demo] by blast
qed

end
