(* ===== verification/Publish.thy ===== *)
theory Publish
  imports Liveness Service
begin

text \<open>
  Publishing: what \<open>publish\<close> of the service does to the log of the topic, to the rest of the store
  and to the waiters, and that a later pull returns what was published.
\<close>

section \<open>Appending\<close>

definition raw_messages :: "publish_message list \<Rightarrow> new_message list" where
  "raw_messages ms = map (\<lambda>m. (pm_data m, pm_attributes m, pm_ordering_key m)) ms"

text \<open>The \<open>i\<close>-th sequence number after a log's tail.\<close>

definition seq_after :: "u64 \<Rightarrow> nat \<Rightarrow> u64" where
  "seq_after tail i = tail + of_nat (Suc i)"

lemma seq_after_mono:
  assumes "unat tail + n < 2 ^ 64" and "i < n"
  shows "unat (seq_after tail i) = unat tail + Suc i"
proof -
  have "unat (of_nat (Suc i) :: u64) = Suc i"
    using assms by (simp add: unsigned_of_nat take_bit_nat_eq_self del: of_nat_Suc)
  then show ?thesis
    using assms unfolding seq_after_def by (subst unat_add_lem [THEN iffD1]) (simp_all del: of_nat_Suc)
qed

lemma seq_after_greater:
  "unat tail + n < 2 ^ 64 \<Longrightarrow> i < n \<Longrightarrow> tail < seq_after tail i"
  by (simp add: word_less_nat_alt seq_after_mono)

text \<open>The store after \<open>ms\<close> were appended to the log of topic \<open>t\<close>.\<close>

definition appended ::
    "ext \<Rightarrow> u64 \<Rightarrow> int \<Rightarrow> int \<Rightarrow> new_message list \<Rightarrow> view \<Rightarrow> view \<Rightarrow> bool" where
  "appended X t now expire ms V V' \<longleftrightarrow>
     log_tail V' t = log_tail V t + of_nat (length ms) \<and>
     (\<forall>i < length ms. V' (''msg'', msg_key t (seq_after (log_tail V t) i)) =
        Some (message_encode X (new_record now expire (ms ! i)))) \<and>
     (\<forall>p. p \<noteq> (''meta'', topic_seq_counter_key t) \<longrightarrow>
        (\<forall>i < length ms. p \<noteq> (''msg'', msg_key t (seq_after (log_tail V t) i))) \<longrightarrow> V' p = V p)"

lemma appended_other:
  "appended X t now expire ms V V' \<Longrightarrow> fst p \<noteq> ''msg'' \<Longrightarrow> p \<noteq> (''meta'', topic_seq_counter_key t) \<Longrightarrow> V' p = V p"
  by (cases p) (auto simp: appended_def)

definition publish_expiry :: "int \<Rightarrow> topic_record \<Rightarrow> int" where
  "publish_expiry now r = i64_sat_add now (i64_sat_mul (effective_retention (tr_message_retention_secs r)) 1000)"

text \<open>Waking is never lost: a waiter of a subscription of the topic is notified.\<close>

lemma notify_wakes:
  assumes "map_of w i = Some n"
  shows "\<exists>m. map_of (foldl (\<lambda>w sub_id. case map_of w sub_id of
      Some n \<Rightarrow> hm_insert sub_id (Suc n) w | None \<Rightarrow> w) w ids) i = Some m \<and> n \<le> m \<and> (i \<in> set ids \<longrightarrow> n < m)"
  using assms
proof (induction ids arbitrary: w n)
  case (Cons j ids)
  let ?w = "case map_of w j of Some n \<Rightarrow> hm_insert j (Suc n) w | None \<Rightarrow> w"
  have "\<exists>k. map_of ?w i = Some k \<and> n \<le> k \<and> (j = i \<longrightarrow> n < k)"
    using Cons.prems by (cases "map_of w j") (auto simp del: map_of_eq_Some_iff)
  then obtain k where k: "map_of ?w i = Some k" "n \<le> k" "j = i \<longrightarrow> n < k" by blast
  from Cons.IH [OF k(1)] show ?case
    using k(2,3) by (auto simp del: map_of_eq_Some_iff)
qed (simp del: map_of_eq_Some_iff)

lemma topic_append_invalid:
  "\<not> valid_batch ms \<Longrightarrow> \<exists>e. topic_append K X s t ms now ret = (Inl e, s)"
  using batch_valid_iff [of ms]
  by (cases "append_validate 0 ms"; cases "validate_publish_batch (length ms) (projr (append_validate 0 ms))")
    (auto simp: topic_append_def)

lemma publish_refused:
  assumes "check_disk_guard K v \<noteq> Inr () \<or> (\<exists>e. topic_get K X (svc_kv v) n = Inl e) \<or> \<not> valid_batch (raw_messages ms)"
  shows "\<exists>e. svc_publish K X v now n ms = (Inl e, v)"
proof (cases "check_disk_guard K v")
  case (Inr u)
  show ?thesis
  proof (cases "topic_get K X (svc_kv v) n")
    case r: (Inr r)
    with Inr assms have "\<not> valid_batch (raw_messages ms)" by simp
    then obtain e where "topic_append K X (svc_kv v) (tr_id r) (raw_messages ms) now
        (effective_retention (tr_message_retention_secs r)) = (Inl e, svc_kv v)"
      using topic_append_invalid [of "raw_messages ms" K X "svc_kv v"] by blast
    then show ?thesis
      using Inr r by (simp add: svc_publish_def on_store_def on_engine_def on_kv_def Let_def raw_messages_def)
  qed (use Inr in \<open>simp add: svc_publish_def\<close>)
qed (simp add: svc_publish_def)

context store_env
begin

lemma topic_append_ok:
  assumes "wf s" and "topic_append K X s t ms now ret = (Inr qs, s')"
    and "unat (log_tail (V s) t) + length ms < 2 ^ 64"
  shows "valid_batch ms \<and> wf s' \<and> qs = map (seq_after (log_tail (V s) t)) [0..<length ms] \<and>
    appended X t now (i64_sat_add now (i64_sat_mul ret 1000)) ms (V s) (V s')"
proof -
  have "valid_batch ms" and w: "append_write K X t now (i64_sat_add now (i64_sat_mul ret 1000)) s ms = (Inr qs, s')"
    using assms(2) batch_valid_iff [of ms] by (auto simp: topic_append_def result_iffs Let_def)
  with append_write_ok [OF assms(1) w assms(3)] show ?thesis
    unfolding appended_def seq_after_def by blast
qed

lemma publish_ok:
  assumes "wf (svc_kv v)" and run: "svc_publish K X v now n ms = (Inr ids, v')"
    and room: "\<And>r. topic_get K X (svc_kv v) n = Inr r \<Longrightarrow> unat (log_tail (V (svc_kv v)) (tr_id r)) + length ms < 2 ^ 64"
  shows "\<exists>r. topic_get K X (svc_kv v) n = Inr r \<and> valid_batch (raw_messages ms) \<and> wf (svc_kv v') \<and>
    ids = map (\<lambda>i. nat_to_string (unat (seq_after (log_tail (V (svc_kv v)) (tr_id r)) i))) [0..<length ms] \<and>
    appended X (tr_id r) now (publish_expiry now r) (raw_messages ms) (V (svc_kv v)) (V (svc_kv v')) \<and>
    eng_leases (svc_engine v') = eng_leases (svc_engine v) \<and> eng_filters (svc_engine v') = eng_filters (svc_engine v) \<and>
    eng_streams (svc_engine v') = eng_streams (svc_engine v) \<and>
    (\<forall>i k. map_of (eng_waiters (svc_engine v)) i = Some k \<and> i \<in> set (sub_list_by_topic_id K (svc_kv v') (tr_id r)) \<longrightarrow>
       (\<exists>m > k. map_of (eng_waiters (svc_engine v')) i = Some m))"
proof -
  obtain r qs s where r: "topic_get K X (svc_kv v) n = Inr r"
    and app: "topic_append K X (svc_kv v) (tr_id r) (raw_messages ms) now (effective_retention (tr_message_retention_secs r)) = (Inr qs, s)"
    and ids: "ids = map (\<lambda>q. nat_to_string (unat q)) qs"
    and v': "v' = (let v = v\<lparr>svc_engine := (svc_engine v)\<lparr>eng_kv := s\<rparr>\<rparr>; subs = sub_list_by_topic_id K s (tr_id r) in
      if subs \<noteq> [] then v\<lparr>svc_engine := notify_published (svc_engine v) subs\<rparr> else v)"
    using run by (auto simp: svc_publish_def result_iffs on_store_Inr Let_def raw_messages_def)
  have len: "length (raw_messages ms) = length ms" by (simp add: raw_messages_def)
  note a = topic_append_ok [OF assms(1) app, unfolded len, OF room [OF r]]
  have eng: "svc_kv v' = s" "eng_leases (svc_engine v') = eng_leases (svc_engine v)"
    "eng_filters (svc_engine v') = eng_filters (svc_engine v)" "eng_streams (svc_engine v') = eng_streams (svc_engine v)"
    by (simp_all add: v' Let_def notify_published_def)
  have "\<exists>m > k. map_of (eng_waiters (svc_engine v')) i = Some m"
    if "map_of (eng_waiters (svc_engine v)) i = Some k" "i \<in> set (sub_list_by_topic_id K s (tr_id r))" for i k
    using notify_wakes [OF that(1), of "sub_list_by_topic_id K s (tr_id r)"] that(2)
    by (auto simp: v' Let_def notify_published_def simp del: map_of_eq_Some_iff)
  then show ?thesis
    using r a ids by (intro exI [of _ r]) (auto simp: eng publish_expiry_def simp del: map_of_eq_Some_iff)
qed

end

section \<open>Publishing and pulling\<close>

lemma compiled_filter_same:
  assumes "eng_filters e' = eng_filters e" and "\<And>i. sub_record_of K X (eng_kv e') i = sub_record_of K X (eng_kv e) i"
  shows "fst (compiled_filter K X e' i) = fst (compiled_filter K X e i)"
  by (simp add: compiled_filter_def assms Let_def split: option.split)

text \<open>
  When the messages behind \<open>tail\<close> can reach a subscription: it is attached, has no dead-letter
  topic, and neither its cursor nor a lease or delivery row is ahead of the log.
\<close>

definition open_to :: "'s kv_ops \<Rightarrow> ext \<Rightarrow> 's service \<Rightarrow> subscription_record \<Rightarrow> u64 \<Rightarrow> bool" where
  "open_to K X v sub tail \<longleftrightarrow>
     \<not> is_detached sub \<and> no_dead_letter K X (svc_kv v) (sr_id sub) \<and>
     (\<exists>c. load_cursor K X (svc_kv v) (sr_id sub) = Inr c \<and> cursor_ok c \<and> (\<forall>q \<in> done_seqs c. q \<le> tail)) \<and>
     (\<forall>q > tail. lease_abs (eng_leases (svc_engine v)) (sr_id sub, q) = None \<and>
        kv_get K (svc_kv v) ''dlv'' (delivery_key (sr_id sub) q) = None)"

definition published :: "int \<Rightarrow> topic_record \<Rightarrow> publish_message \<Rightarrow> message_record" where
  "published now r m =
     \<lparr>mr_publish_ts_ms = now, mr_ordering_key = pm_ordering_key m, mr_attributes = pm_attributes m,
      mr_payload = pm_data m, mr_expire_at_ms = publish_expiry now r\<rparr>"

definition carries :: "int \<Rightarrow> publish_message \<Rightarrow> pulled_message \<Rightarrow> bool" where
  "carries now m d \<longleftrightarrow>
     pl_data d = pm_data m \<and> pl_attributes d = pm_attributes m \<and> pl_ordering_key d = pm_ordering_key m \<and>
     pl_publish_time_ms d = now"

context store_env_reliable
begin

lemma append_write_total:
  assumes "wf s"
  shows "\<exists>qs s'. append_write K X t now expire s ms = (Inr qs, s')"
  using assms
proof (induction ms arbitrary: s)
  case (Cons m ms)
  obtain p as ok where m: "m = (p, as, ok)" by (cases m) auto
  let ?q = "word_sat_add (read_counter K s (topic_seq_counter_key t)) 1"
  obtain s1 where s1: "kv_put K s ''meta'' (topic_seq_counter_key t) (to_be_bytes ?q) = (Inr (), s1)"
    using put_total [OF Cons.prems] by fastforce
  then have "wf s1" using put_ok' [OF s1 Cons.prems] by simp
  then obtain s2 where s2: "kv_put K s1 ''msg'' (msg_key t ?q) (message_encode X (new_record now expire m)) = (Inr (), s2)"
    using put_total by fastforce
  then have "wf s2" using put_ok' [OF s2 \<open>wf s1\<close>] by simp
  then obtain qs s' where "append_write K X t now expire s2 ms = (Inr qs, s')" using Cons.IH by blast
  with s1 s2 show ?case by (simp add: m next_seq_def Let_def new_record_def)
qed simp

lemma topic_append_total:
  assumes "wf s" and "valid_batch ms"
  shows "\<exists>qs s'. topic_append K X s t ms now ret = (Inr qs, s')"
proof -
  obtain b where "append_validate 0 ms = Inr b" "validate_publish_batch (length ms) b = Inr ()"
    using assms(2) batch_valid_iff by blast
  then show ?thesis using append_write_total [OF assms(1)] by (simp add: topic_append_def)
qed

lemma publish_total:
  assumes "wf (svc_kv v)" and "check_disk_guard K v = Inr ()" and "topic_get K X (svc_kv v) n = Inr r"
    and "valid_batch (raw_messages ms)"
  shows "\<exists>ids v'. svc_publish K X v now n ms = (Inr ids, v')"
proof -
  obtain qs s' where "topic_append K X (svc_kv v) (tr_id r) (raw_messages ms) now (effective_retention (tr_message_retention_secs r)) = (Inr qs, s')"
    using topic_append_total [OF assms(1,4)] by blast
  then show ?thesis
    using assms(2,3) by (simp add: svc_publish_def on_store_def on_engine_def on_kv_def Let_def raw_messages_def)
qed

text \<open>A message that was published reaches the next pull, unless it is full.\<close>

lemma publish_then_pull:
  assumes wf: "wf (svc_kv v)" "lease_table_wf (eng_leases (svc_engine v))"
    and pub: "svc_publish K X v now n ms = (Inr ids, v1)" and r: "topic_get K X (svc_kv v) n = Inr r"
    and room: "unat (log_tail (V (svc_kv v)) (tr_id r)) + length ms < 2 ^ 64"
    and sub: "sub_get K X (svc_kv v) sn = Inr sub" "sr_topic_id sub = tr_id r"
    and open_to: "open_to K X v sub (log_tail (V (svc_kv v)) (tr_id r))"
    and flt: "\<And>m. m \<in> set ms \<Longrightarrow> filter_passes (fst (compiled_filter K X (svc_engine v) (sr_id sub)))
      (published now r m)"
    and mx: "0 < mx" "mx \<le> 1000"
  shows "\<exists>out v2. svc_pull K X v1 later sn mx = (Inr out, v2) \<and>
    (\<forall>i < length ms. (\<exists>d \<in> set out. pl_message_id d = ids ! i \<and> carries now (ms ! i) d) \<or> nat mx \<le> length out)"
proof -
  let ?tail = "log_tail (V (svc_kv v)) (tr_id r)" and ?q = "seq_after (log_tail (V (svc_kv v)) (tr_id r))"
  let ?e = "svc_engine v" and ?e1 = "svc_engine v1" and ?i = "sr_id sub"
  obtain ids: "ids = map (\<lambda>i. nat_to_string (unat (?q i))) [0..<length ms]" and wf1: "wf (svc_kv v1)"
    and app: "appended X (tr_id r) now (publish_expiry now r) (raw_messages ms) (V (svc_kv v)) (V (svc_kv v1))"
    and eng: "eng_leases ?e1 = eng_leases ?e" "eng_filters ?e1 = eng_filters ?e"
    using publish_ok [OF wf(1) pub] r room by auto
  note same = appended_other [OF app]
  have get: "sub_get K X (svc_kv v1) m = sub_get K X (svc_kv v) m" "sub_record_of K X (svc_kv v1) j = sub_record_of K X (svc_kv v) j"
    for m j by (intro sub_get_view same; simp)+
  have filter: "fst (compiled_filter K X ?e1 ?i) = fst (compiled_filter K X ?e ?i)"
    by (intro compiled_filter_same eng get)
  obtain c where c: "load_cursor K X (svc_kv v1) ?i = Inr c" "cursor_ok c" "\<forall>q \<in> done_seqs c. q \<le> ?tail"
    using open_to load_cursor_view [of "svc_kv v1" ?i "svc_kv v"] same [of "(''sub'', cursor_key ?i)"]
    by (auto simp: open_to_def)
  have plain: "no_dead_letter K X (svc_kv v1) ?i" using open_to by (simp add: open_to_def no_dead_letter_def get)
  have fresh: "lease_abs (eng_leases ?e1) (?i, q) = None" "persisted_delivery_record K X (svc_kv v1) ?i q = None"
    if "?tail < q" for q
    using open_to that same [of "(''dlv'', delivery_key ?i q)"] eng(1)
    by (auto simp: open_to_def persisted_delivery_record_def kv_get_view)
  obtain out e2 where pull: "lease_next K X ?e1 ?i (tr_id r) mx later (sr_ack_deadline_secs sub) = (Inr out, e2)"
    and live: "\<forall>q b. V (svc_kv v1) (''msg'', msg_key (tr_id r) q) = Some b \<and> pending X (fst (compiled_filter K X ?e1 ?i)) c q b \<and>
       deliverable_now K X ?e1 ?i later q \<longrightarrow>
         q \<in> d_seq ` set out \<or> nat mx \<le> length out \<and> (\<forall>d \<in> set out. d_seq d < q)"
    using lease_next_live [OF wf1 plain c(1,2) mx(1)] by blast
  have sound: "\<forall>d \<in> set out. \<exists>b. V (svc_kv v1) (''msg'', msg_key (tr_id r) (d_seq d)) = Some b \<and> message_decode X b = Some (d_message d)"
    using lease_next_spec [OF _ c(1,2) pull] wf1 wf(2) eng(1) by (auto simp: sound_delivery_def)
  let ?out = "map (pulled_of (sr_dead_letter_topic sub \<noteq> None)) out"
  have run: "\<exists>v2. svc_pull K X v1 later sn mx = (Inr ?out, v2)"
    using mx open_to pull sub by (simp add: svc_pull_def get validate_pull_max_messages_def limit_defs open_to_def on_engine_def Let_def)
  have "(\<exists>d \<in> set ?out. pl_message_id d = ids ! i \<and> carries now (ms ! i) d) \<or> nat mx \<le> length ?out" if i: "i < length ms" for i
  proof -
    let ?m = "published now r (ms ! i)"
    have row: "V (svc_kv v1) (''msg'', msg_key (tr_id r) (?q i)) = Some (message_encode X ?m)"
      using app i by (simp add: appended_def raw_messages_def published_def new_record_def)
    have up: "?tail < ?q i" by (rule seq_after_greater [OF room i])
    then have "pending X (fst (compiled_filter K X ?e1 ?i)) c (?q i) (message_encode X ?m)"
      using c(3) flt [OF nth_mem [OF i]] by (force simp: pending_def filter)
    moreover have "deliverable_now K X ?e1 ?i later (?q i)" using fresh [OF up] by (simp add: deliverable_now_def)
    ultimately have "?q i \<in> d_seq ` set out \<or> nat mx \<le> length out" using live row by blast
    then consider d where "d \<in> set out" "d_seq d = ?q i" | "nat mx \<le> length out" by fastforce
    then show ?thesis
    proof cases
      case 1
      then have "d_message d = ?m" using sound row by force
      then have "carries now (ms ! i) (pulled_of b d)" "pl_message_id (pulled_of b d) = ids ! i" for b
        using 1(2) i by (simp_all add: carries_def pulled_of_def published_def ids)
      with 1(1) show ?thesis by auto
    qed simp
  qed
  with run show ?thesis by blast
qed

end

end
