(* ===== verification/Publish_Claims.thy ===== *)
theory Publish_Claims
  imports Publish Catalog_Claims
begin

text \<open>What publishing guarantees, with instances on the demo service.\<close>

section \<open>Instances\<close>

definition demo_news :: publish_message where
  "demo_news = \<lparr>pm_data = [104, 105], pm_attributes = [(''k'', ''v'')], pm_ordering_key = []\<rparr>"

lemma demo_topic_get: "topic_get mem_kv_ops demo (svc_kv demo_service) demo_topic_name = Inr demo_topic"
  using demo_env.topic_get_ok [of "svc_kv demo_service" demo_topic_name] demo_catalogs(1,2) demo_names(1)
  by (simp add: catalog_defs)

lemma demo_tail: "current_tail mem_kv_ops (svc_kv demo_service) 1 = 1"
  by (simp add: current_tail_view counter_value_def mem_view demo_service_def demo_leased_view)

lemma demo_news_valid: "valid_batch (raw_messages [demo_news])"
  by (simp add: valid_batch_def raw_messages_def demo_news_def valid_message_def message_size_def attributes_size_def
      valid_attribute_def char_count_def ATTRIBUTE_KEY_FORBIDDEN_PREFIX_def)

lemma demo_guard: "check_disk_guard mem_kv_ops demo_service = Inr ()"
  by (simp add: check_disk_guard_def demo_service_def)

lemma demo_open_to: "open_to mem_kv_ops demo demo_service demo_sub 1"
  using demo_leased_load
  by (auto simp: open_to_def demo_service_def is_detached_def demo_sub_def DELETED_TOPIC_def demo_topic_name_def
      no_dead_letter_def sub_record_of_def mem_get_map_of demo_leased_view demo_cursor_def cursor_ok_def done_seqs_def
      demo_leased_def split: if_splits)

section \<open>Claims\<close>

text \<open>
  C10: what a publish does. When it succeeds the batch was valid, the ids returned are the sequence
  numbers following the tail of the topic's log, in the order of the batch, each message is stored
  under its number with the time of the publish and its expiry, the tail has moved by the length of
  the batch and nothing else in the store, no lease and no stream has changed, and everybody who
  waits on a subscription of the topic is woken. A publish that the disk guard, the lookup of the
  topic or the validation of the batch refuses changes nothing at all. On a store whose writes
  succeed a publish that none of them refuses succeeds.
\<close>

theorem publish_exact:
  assumes "store_env K good X" and "good (svc_kv v)"
    and "\<forall>r. topic_get K X (svc_kv v) n = Inr r \<longrightarrow> unat (current_tail K (svc_kv v) (tr_id r)) + length ms < 2 ^ 64"
  shows "(\<forall>ids v'. svc_publish K X v now n ms = (Inr ids, v') \<longrightarrow>
      (\<exists>r. topic_get K X (svc_kv v) n = Inr r \<and> valid_batch (raw_messages ms) \<and> good (svc_kv v') \<and>
         ids = map (\<lambda>i. nat_to_string (unat (seq_after (current_tail K (svc_kv v) (tr_id r)) i))) [0..<length ms] \<and>
         appended X (tr_id r) now (publish_expiry now r) (raw_messages ms) (kv_view K (svc_kv v)) (kv_view K (svc_kv v')) \<and>
         eng_leases (svc_engine v') = eng_leases (svc_engine v) \<and> eng_streams (svc_engine v') = eng_streams (svc_engine v) \<and>
         (\<forall>i k. map_of (eng_waiters (svc_engine v)) i = Some k \<and> i \<in> set (sub_list_by_topic_id K (svc_kv v') (tr_id r)) \<longrightarrow>
            (\<exists>m > k. map_of (eng_waiters (svc_engine v')) i = Some m)))) \<and>
    (check_disk_guard K v \<noteq> Inr () \<or> (\<exists>e. topic_get K X (svc_kv v) n = Inl e) \<or> \<not> valid_batch (raw_messages ms) \<longrightarrow>
      (\<exists>e. svc_publish K X v now n ms = (Inl e, v))) \<and>
    (store_env_reliable K good X \<and> check_disk_guard K v = Inr () \<and> (\<exists>r. topic_get K X (svc_kv v) n = Inr r) \<and>
      valid_batch (raw_messages ms) \<longrightarrow> (\<exists>ids v'. svc_publish K X v now n ms = (Inr ids, v')))"
proof (intro conjI allI impI)
  fix ids v'
  assume "svc_publish K X v now n ms = (Inr ids, v')"
  from store_env.publish_ok [OF assms(1,2) this] assms(3)
  show "\<exists>r. topic_get K X (svc_kv v) n = Inr r \<and> valid_batch (raw_messages ms) \<and> good (svc_kv v') \<and>
      ids = map (\<lambda>i. nat_to_string (unat (seq_after (current_tail K (svc_kv v) (tr_id r)) i))) [0..<length ms] \<and>
      appended X (tr_id r) now (publish_expiry now r) (raw_messages ms) (kv_view K (svc_kv v)) (kv_view K (svc_kv v')) \<and>
      eng_leases (svc_engine v') = eng_leases (svc_engine v) \<and> eng_streams (svc_engine v') = eng_streams (svc_engine v) \<and>
      (\<forall>i k. map_of (eng_waiters (svc_engine v)) i = Some k \<and> i \<in> set (sub_list_by_topic_id K (svc_kv v') (tr_id r)) \<longrightarrow>
         (\<exists>m > k. map_of (eng_waiters (svc_engine v')) i = Some m))"
    unfolding current_tail_view by blast
next
  assume "check_disk_guard K v \<noteq> Inr () \<or> (\<exists>e. topic_get K X (svc_kv v) n = Inl e) \<or> \<not> valid_batch (raw_messages ms)"
  then show "\<exists>e. svc_publish K X v now n ms = (Inl e, v)" by (rule publish_refused)
next
  assume "store_env_reliable K good X \<and> check_disk_guard K v = Inr () \<and> (\<exists>r. topic_get K X (svc_kv v) n = Inr r) \<and>
    valid_batch (raw_messages ms)"
  then show "\<exists>ids v'. svc_publish K X v now n ms = (Inr ids, v')"
    using store_env_reliable.publish_total [of K good X v n] assms(2) by blast
qed

theorem publish_exact_witness:
  "\<exists>v'. svc_publish mem_kv_ops demo demo_service 50 demo_topic_name [demo_news] = (Inr [''2''], v') \<and>
     current_tail mem_kv_ops (svc_kv v') 1 = 2"
proof -
  have room: "\<forall>r. topic_get mem_kv_ops demo (svc_kv demo_service) demo_topic_name = Inr r \<longrightarrow>
      unat (current_tail mem_kv_ops (svc_kv demo_service) (tr_id r)) + length [demo_news] < 2 ^ 64"
    using demo_tail by (simp add: demo_topic_get demo_topic_def)
  note p = publish_exact [OF demo_store_env demo_service_inv(1) room]
  obtain ids v' where v': "svc_publish mem_kv_ops demo demo_service 50 demo_topic_name [demo_news] = (Inr ids, v')"
    using p demo_store_env_reliable demo_guard demo_topic_get demo_news_valid by blast
  with p obtain r where r: "topic_get mem_kv_ops demo (svc_kv demo_service) demo_topic_name = Inr r"
    "ids = map (\<lambda>i. nat_to_string (unat (seq_after (current_tail mem_kv_ops (svc_kv demo_service) (tr_id r)) i))) [0..<length [demo_news]]"
    "appended demo (tr_id r) 50 (publish_expiry 50 r) (raw_messages [demo_news])
       (kv_view mem_kv_ops (svc_kv demo_service)) (kv_view mem_kv_ops (svc_kv v'))"
    by blast
  have "tr_id r = 1" using r(1) by (auto simp: demo_topic_get demo_topic_def)
  then have "ids = [nat_to_string 2]" "current_tail mem_kv_ops (svc_kv v') 1 = 2"
    using r(2,3) demo_tail by (simp_all add: seq_after_def appended_def current_tail_view raw_messages_def)
  with v' show ?thesis by (simp add: nat_to_string.simps char_of_def bit_0)
qed



end
