(* ===== verification/Seek.thy ===== *)
theory Seek
  imports Catalog
begin

text \<open>
  Seeking: a seek to a time splits the log at that time, a seek to a snapshot brings back the
  cursor the snapshot was taken of.
\<close>

section \<open>To a time\<close>

text \<open>A log whose publish times do not decrease; what retention removed counts as oldest.\<close>

definition log_in_order :: "'s kv_ops \<Rightarrow> ext \<Rightarrow> 's \<Rightarrow> u64 \<Rightarrow> bool" where
  "log_in_order K X s t \<longleftrightarrow>
     (\<forall>p q. 1 \<le> p \<longrightarrow> p \<le> q \<longrightarrow> q \<le> current_tail K s t \<longrightarrow> publish_ts_at K X s t p \<le> publish_ts_at K X s t q)"

lemma word_less_Suc:
  assumes "(tail :: u64) < - 1"
  shows "word_sat_add tail 1 = tail + 1" and "q < tail + 1 \<longleftrightarrow> q \<le> tail" and "1 \<le> tail + 1"
proof -
  have "unat tail < unat (- 1 :: u64)" using assms by (simp only: word_less_nat_alt)
  then have n: "unat (tail + 1) = Suc (unat tail)"
    by (simp add: unat_word_ariths unsigned_minus_1_eq_mask mask_eq_exp_minus_1)
  show "word_sat_add tail 1 = tail + 1" by (rule word_sat_add_one [OF assms])
  show "q < tail + 1 \<longleftrightarrow> q \<le> tail" "1 \<le> tail + 1" using n by (auto simp: word_less_nat_alt word_le_nat_alt)
qed

lemma boundary_splits:
  assumes order: "log_in_order K X s t" and tail: "current_tail K s t < - 1" and q: "1 \<le> q" "q \<le> current_tail K s t"
  shows "q \<le> word_sat_sub (seq_boundary_for_time K X s t time) 1 \<longleftrightarrow> publish_ts_at K X s t q < time"
proof -
  let ?b = "seq_boundary_for_time K X s t time" and ?tail = "current_tail K s t"
  note w = word_less_Suc [OF tail]
  have b: "?b = seq_search (publish_ts_at K X s t) time 1 (?tail + 1)" by (simp add: seq_boundary_for_time_def Let_def w(1))
  have srch: "1 \<le> ?b" "\<forall>q. 1 \<le> q \<and> q < ?b \<longrightarrow> publish_ts_at K X s t q < time"
    "\<forall>q. ?b \<le> q \<and> q < ?tail + 1 \<longrightarrow> time \<le> publish_ts_at K X s t q"
    using seq_search_correct [of 1 "?tail + 1" "publish_ts_at K X s t" time] order w(2,3)
    unfolding b log_in_order_def by blast+
  have "q < ?b \<longleftrightarrow> publish_ts_at K X s t q < time"
    using srch(2,3) q w(2) by (meson linorder_not_le)
  moreover have "q \<le> word_sat_sub ?b 1 \<longleftrightarrow> q < ?b"
    using srch(1) q(1) by (auto simp: word_less_nat_alt word_le_nat_alt unat_word_sat_sub)
  ultimately show ?thesis by simp
qed

context store_env
begin

lemma seek_to_time_ok:
  assumes wf: "eng_wf (svc_engine v)" and run: "svc_seek_to_time K X v n time = (Inr (), v')"
    and sub: "sub_get K X (svc_kv v) n = Inr sub"
  shows "\<exists>c c'. load_cursor K X (svc_kv v) (sr_id sub) = Inr c \<and> load_cursor K X (svc_kv v') (sr_id sub) = Inr c' \<and>
    cursor_ok c' \<and> cr_attach_seq c' = cr_attach_seq c \<and>
    (log_in_order K X (svc_kv v) (sr_topic_id sub) \<and> current_tail K (svc_kv v) (sr_topic_id sub) < - 1 \<longrightarrow>
      (\<forall>q. 1 \<le> q \<and> q \<le> current_tail K (svc_kv v) (sr_topic_id sub) \<longrightarrow>
        (q \<in> done_seqs c' \<longleftrightarrow> q \<le> cr_attach_seq c \<or> publish_ts_at K X (svc_kv v) (sr_topic_id sub) q < time))) \<and>
    (\<forall>q. lease_abs (eng_leases (svc_engine v')) (sr_id sub, q) = None \<and>
       V (svc_kv v') (''dlv'', delivery_key (sr_id sub) q) = None)"
proof -
  obtain c e where c: "load_cursor K X (svc_kv v) (sr_id sub) = Inr c"
    and r: "restore_cursor K X (svc_engine v) (sr_id sub)
      \<lparr>cr_attach_seq = cr_attach_seq c,
       cr_acked_floor = max (word_sat_sub (seq_boundary_for_time K X (svc_kv v) (sr_topic_id sub) time) 1) (cr_attach_seq c),
       cr_acked_above_floor = []\<rparr> = (Inr (), e)" and v': "v' = v\<lparr>svc_engine := e\<rparr>"
    using run sub by (auto simp: svc_seek_to_time_def result_iffs cursor_snapshot_def on_engine_Inr Let_def)
  from restore_cursor_spec [OF wf r] c boundary_splits [of K X "svc_kv v" "sr_topic_id sub"] show ?thesis
    by (auto simp: v' cursor_ok_def done_seqs_def le_max_iff_disj)
qed

end

section \<open>Success\<close>

context store_env_reliable
begin

lemma delete_keys_total:
  "wf s \<Longrightarrow> \<exists>s'. delete_keys K ks s = (Inr (), s') \<and> wf s'"
proof (induction ks arbitrary: s)
  case (Cons k ks)
  obtain s1 where s1: "kv_delete K s ''dlv'' k = (Inr (), s1)" using delete_total [OF Cons.prems] by fastforce
  then have "wf s1" using delete_ok' [OF s1 Cons.prems] by simp
  with Cons.IH [of s1] s1 show ?case by simp
qed simp

lemma restore_cursor_total:
  assumes "wf (eng_kv e)"
  shows "\<exists>e'. restore_cursor K X e sub c = (Inr (), e')"
proof -
  obtain qs T where rm: "lease_remove_all_for_subscription (eng_leases e) sub = (qs, T)" by fastforce
  obtain s1 where s1: "delete_keys K (map (delivery_key sub) qs) (eng_kv e) = (Inr (), s1)" "wf s1"
    using delete_keys_total [OF assms] by blast
  obtain s2 where s2: "delete_keys K (map fst (kv_scan_prefix K s1 ''dlv'' (delivery_key_prefix sub))) s1 = (Inr (), s2)" "wf s2"
    using delete_keys_total [OF s1(2)] by blast
  obtain s3 where "kv_put K s2 ''sub'' (cursor_key sub) (cursor_encode X c) = (Inr (), s3)"
    using put_total [OF s2(2)] by fastforce
  with s1(1) s2(1) show ?thesis by (simp add: restore_cursor_def rm on_kv_def save_cursor_def)
qed

lemma seek_to_time_total:
  assumes "wf (svc_kv v)" and "sub_get K X (svc_kv v) n = Inr sub" and "load_cursor K X (svc_kv v) (sr_id sub) = Inr c"
  shows "\<exists>v'. svc_seek_to_time K X v n time = (Inr (), v')"
  using assms(2,3) restore_cursor_total [OF assms(1), of "sr_id sub"]
  by (auto simp: svc_seek_to_time_def cursor_snapshot_def on_engine_def Let_def split: prod.split) (metis Pair_inject)+

lemma seek_to_snapshot_total:
  assumes "wf (svc_kv v)" and "sub_get K X (svc_kv v) n = Inr sub" and "snapshot_get K X (svc_kv v) m = Inr r"
    and "sn_topic_id r = sr_topic_id sub"
  shows "\<exists>v'. svc_seek_to_snapshot K X v n m = (Inr (), v')"
  using assms(2-) restore_cursor_total [OF assms(1), of "sr_id sub" "sn_cursor r"]
  by (auto simp: svc_seek_to_snapshot_def on_engine_def)

end

section \<open>To a snapshot\<close>

context store_env
begin

lemma snapshot_create_subs:
  assumes "wf s" and "snapshot_create K X s n t tid labels c ex = (Inr r, s')"
  shows "sub_get K X s' m = sub_get K X s m"
proof -
  obtain i s1 s2 b where "kv_put K s ''meta'' id_seq_key b = (Inr (), s1)" "snapshot_put_record K X s1 r = (Inr (), s2)"
    "kv_put K s2 ''meta'' (name_key KSnapshot n) (to_be_bytes i) = (Inr (), s')"
    using assms(2) by (auto simp: snapshot_create_def snapshot_next_id_def result_iffs Let_def split: if_splits)
  then obtain v where "V s' = (V s)((''meta'', id_seq_key) \<mapsto> b, (''meta'', snapshot_key (sn_id r)) \<mapsto> v,
      (''meta'', name_key KSnapshot n) \<mapsto> to_be_bytes i)"
    using assms(1) snapshot_put_record_ok by (metis put_ok' keyspaces_simps(1))
  then show ?thesis by (intro sub_get_view) simp_all
qed

lemma create_snapshot_captures:
  assumes wf: "wf (svc_kv v)" and good: "snaps.good (V (svc_kv v))" and room: "counter_value (V (svc_kv v)) id_seq_key < - 1"
    and sub: "sub_get K X (svc_kv v) sn = Inr sub" and c: "load_cursor K X (svc_kv v) (sr_id sub) = Inr c"
    and run: "svc_create_snapshot K X v now n sn labels = (Inr r, v')"
  shows "snaps.look (V (svc_kv v')) n = Some r \<and> sn_cursor r = c \<and> sn_topic_id r = sr_topic_id sub"
proof -
  obtain ex s where cr: "snapshot_create K X (svc_kv v) n (sr_topic sub) (sr_topic_id sub) labels c ex = (Inr r, s)"
    and v': "svc_kv v' = s"
    using run sub c
    by (auto simp: svc_create_snapshot_def result_iffs cursor_snapshot_def on_store_Inr)
  note k = snapshot_create_refines [OF wf good room cr]
  have "sn_cursor r = c" "sn_topic_id r = sr_topic_id sub" using k(5) by (metis snapshot_record.select_convs(4,6))+
  then show ?thesis using k(2) v' by simp
qed

lemma seek_to_snapshot_ok:
  assumes wf: "eng_wf (svc_engine v)" and good: "snaps.good (V (svc_kv v))" and run: "svc_seek_to_snapshot K X v sn n = (Inr (), v')"
    and sub: "sub_get K X (svc_kv v) sn = Inr sub" and snap: "snaps.look (V (svc_kv v)) n = Some r"
  shows "load_cursor K X (svc_kv v') (sr_id sub) = Inr (sn_cursor r) \<and> sn_topic_id r = sr_topic_id sub \<and>
    (\<forall>q. lease_abs (eng_leases (svc_engine v')) (sr_id sub, q) = None \<and>
       V (svc_kv v') (''dlv'', delivery_key (sr_id sub) q) = None)"
proof -
  obtain r' e where r': "snapshot_get K X (svc_kv v) n = Inr r'" "sn_topic_id r' = sr_topic_id sub"
    and e: "restore_cursor K X (svc_engine v) (sr_id sub) (sn_cursor r') = (Inr (), e)" and v': "v' = v\<lparr>svc_engine := e\<rparr>"
    using run sub by (auto simp: svc_seek_to_snapshot_def result_iffs on_engine_Inr split: if_splits)
  have "is_ok (snapshot_name_parse n)"
    using r'(1) by (cases "snapshot_name_parse n") (auto simp: snapshot_get_def snapshot_resolve_id_def)
  with r'(1) snap have "r' = r" using snapshot_get_ok [OF good] by simp
  with restore_cursor_spec [OF wf e] r'(2) show ?thesis by (simp add: v')
qed

end

end
