(* ===== verification/Retention_Facts.thy ===== *)
theory Retention_Facts
  imports Retention
begin

text \<open>
  The retention sweep removes exactly the messages whose time has come, and the delivery rows the
  topic's subscriptions have for them.
\<close>

section \<open>What a sweep removes\<close>

text \<open>The entries of the store an expired entry of the log takes with it.\<close>

definition expired_entry :: "ext \<Rightarrow> int \<Rightarrow> bytes \<times> bytes \<Rightarrow> (u64 \<times> u64) option" where
  "expired_entry X now x =
     (case parse_msg_key (fst x) of
        None \<Rightarrow> None
      | Some tq \<Rightarrow>
          (case message_decode X (snd x) of
             None \<Rightarrow> None
           | Some r \<Rightarrow> if mr_expire_at_ms r > now then None else Some tq))"

definition gone_with :: "ext \<Rightarrow> (u64 \<Rightarrow> u64 list) \<Rightarrow> int \<Rightarrow> bytes \<times> bytes \<Rightarrow> (string \<times> bytes) set" where
  "gone_with X subs now x =
     (case expired_entry X now x of
        None \<Rightarrow> {}
      | Some (t, q) \<Rightarrow> insert (''msg'', fst x) ((\<lambda>i. (''dlv'', delivery_key i q)) ` set (subs t)))"

definition without :: "(string \<times> bytes) set \<Rightarrow> view \<Rightarrow> view" where
  "without P V = (\<lambda>p. if p \<in> P then None else V p)"

lemma without_simps [simp]:
  "without {} V = V" "without P (without Q V) = without (P \<union> Q) V" "V(p := None) = without {p} V"
  by (auto simp: without_def fun_eq_iff)

lemma gone_with_keyspace: "p \<in> gone_with X subs now x \<Longrightarrow> fst p \<in> {''msg'', ''dlv''}"
  by (auto simp: gone_with_def split: option.splits)

context store_env_reliable
begin

lemma sub_list_by_topic_view:
  assumes "wf s" and "wf s'" and "\<And>k. V s' (''idx'', k) = V s (''idx'', k)"
  shows "sub_list_by_topic_id K s' t = sub_list_by_topic_id K s t"
proof -
  let ?p = "topic_sub_idx_prefix t"
  have "set (kv_scan_prefix K s' ''idx'' ?p) = set (kv_scan_prefix K s ''idx'' ?p)"
    using assms by (simp add: scan_set)
  moreover have "sorted_wrt (<) (map fst (kv_scan_prefix K s' ''idx'' ?p))" "sorted_wrt (<) (map fst (kv_scan_prefix K s ''idx'' ?p))"
    using assms scan_sorted by simp_all
  ultimately have "kv_scan_prefix K s' ''idx'' ?p = kv_scan_prefix K s ''idx'' ?p"
    using map_sorted_distinct_set_unique [of fst "kv_scan_prefix K s' ''idx'' ?p" "kv_scan_prefix K s ''idx'' ?p"]
    by (simp add: strict_sorted_iff distinct_map)
  then show ?thesis by (simp add: sub_list_by_topic_id_def)
qed

lemma delete_rows_exact:
  assumes "wf s"
  shows "wf (delete_delivery_rows K q ids s) \<and>
    V (delete_delivery_rows K q ids s) = without ((\<lambda>i. (''dlv'', delivery_key i q)) ` set ids) (V s)"
  using assms
proof (induction ids arbitrary: s)
  case (Cons i ids)
  obtain s1 where s1: "kv_delete K s ''dlv'' (delivery_key i q) = (Inr (), s1)"
    using delete_total [OF Cons.prems] by fastforce
  then have "wf s1" "V s1 = without {(''dlv'', delivery_key i q)} (V s)"
    using delete_ok' [OF s1 Cons.prems] by simp_all
  with Cons.IH [of s1] s1 show ?case by simp
qed simp

lemma retention_step_exact:
  assumes "wf s"
  shows "\<exists>s'. retention_step K X now x (stats, s) =
      (stats\<lparr>rs_messages_expired := rs_messages_expired stats + (if expired_entry X now x = None then 0 else 1)\<rparr>, s') \<and>
    wf s' \<and> V s' = without (gone_with X (sub_list_by_topic_id K s) now x) (V s)"
proof (cases "expired_entry X now x")
  case None
  then show ?thesis
    using assms by (auto simp: retention_step_def expired_entry_def gone_with_def split: option.splits if_splits)
next
  case (Some tq)
  obtain t q where tq: "tq = (t, q)" by (cases tq)
  obtain s1 where s1: "kv_delete K s ''msg'' (fst x) = (Inr (), s1)"
    using delete_total [OF assms] by fastforce
  have 1: "wf s1" "V s1 = without {(''msg'', fst x)} (V s)" using delete_ok' [OF s1 assms] by simp_all
  have subs: "sub_list_by_topic_id K s1 t = sub_list_by_topic_id K s t"
    using 1 assms by (intro sub_list_by_topic_view) (simp_all add: without_def)
  have "retention_step K X now x (stats, s) =
      (stats\<lparr>rs_messages_expired := rs_messages_expired stats + 1\<rparr>, delete_delivery_rows K q (sub_list_by_topic_id K s t) s1)"
    using Some s1 unfolding tq by (auto simp: retention_step_def expired_entry_def subs split: option.splits if_splits)
  with delete_rows_exact [OF 1(1)] show ?thesis
    using Some by (simp add: tq gone_with_def 1(2) insert_commute)
qed

lemma retention_fold_exact:
  assumes "wf s"
  shows "\<exists>s'. fold (retention_step K X now) es (stats, s) =
      (stats\<lparr>rs_messages_expired := rs_messages_expired stats + of_nat (length (filter (\<lambda>x. expired_entry X now x \<noteq> None) es))\<rparr>, s') \<and>
    wf s' \<and> V s' = without (\<Union>x \<in> set es. gone_with X (sub_list_by_topic_id K s) now x) (V s)"
  using assms
proof (induction es arbitrary: stats s)
  case (Cons x es)
  let ?stats = "stats\<lparr>rs_messages_expired := rs_messages_expired stats + (if expired_entry X now x = None then 0 else 1)\<rparr>"
  obtain s1 where s1: "retention_step K X now x (stats, s) = (?stats, s1)" "wf s1"
    "V s1 = without (gone_with X (sub_list_by_topic_id K s) now x) (V s)"
    using retention_step_exact [OF Cons.prems] by blast
  have "V s1 (''idx'', k) = V s (''idx'', k)" for k
    using gone_with_keyspace by (fastforce simp: s1(3) without_def)
  then have subs: "sub_list_by_topic_id K s1 = sub_list_by_topic_id K s"
    using sub_list_by_topic_view [OF Cons.prems s1(2)] by blast
  from Cons.IH [OF s1(2), of ?stats] obtain s' where
    "fold (retention_step K X now) es (?stats, s1) = (?stats\<lparr>rs_messages_expired := rs_messages_expired ?stats +
        of_nat (length (filter (\<lambda>x. expired_entry X now x \<noteq> None) es))\<rparr>, s')"
    "wf s'" "V s' = without (\<Union>x \<in> set es. gone_with X (sub_list_by_topic_id K s) now x) (V s1)"
    unfolding subs by blast
  with s1 show ?case by (simp add: Un_commute)
qed simp

end

definition expired_message :: "'s kv_ops \<Rightarrow> ext \<Rightarrow> 's \<Rightarrow> int \<Rightarrow> u64 \<Rightarrow> u64 \<Rightarrow> bool" where
  "expired_message K X s now t q \<longleftrightarrow>
     (\<exists>b m. kv_get K s ''msg'' (msg_key t q) = Some b \<and> message_decode X b = Some m \<and> mr_expire_at_ms m \<le> now)"

context store_env_reliable
begin

lemma expired_entry_iff:
  assumes "wf s"
  shows "x \<in> set (kv_scan_prefix K s ''msg'' []) \<and> expired_entry X now x = Some (t, q) \<longleftrightarrow>
    (\<exists>b m. x = (msg_key t q, b) \<and> V s (''msg'', msg_key t q) = Some b \<and> message_decode X b = Some m \<and> mr_expire_at_ms m \<le> now)"
  using assms by (cases x) (auto simp: scan_set expired_entry_def parse_msg_key_iff split: option.splits if_splits)

lemma expired_entry_message:
  assumes "wf s"
  shows "(\<exists>x \<in> set (kv_scan_prefix K s ''msg'' []). expired_entry X now x = Some (t, q)) \<longleftrightarrow> expired_message K X s now t q"
  using expired_entry_iff [OF assms] unfolding expired_message_def kv_get_view by blast

lemma expired_count:
  assumes "wf s"
  shows "length (filter (\<lambda>x. expired_entry X now x \<noteq> None) (kv_scan_prefix K s ''msg'' [])) =
    card {(t, q). expired_message K X s now t q}"
proof -
  let ?es = "filter (\<lambda>x. expired_entry X now x \<noteq> None) (kv_scan_prefix K s ''msg'' [])"
  let ?f = "\<lambda>x. the (expired_entry X now x)"
  have "distinct (map fst (kv_scan_prefix K s ''msg'' []))"
    using scan_sorted [OF assms, of "''msg''"] by (simp add: strict_sorted_iff)
  then have "distinct ?es" by (simp add: distinct_map)
  then have "length ?es = card (set ?es)" by (rule distinct_card [symmetric])
  also have "\<dots> = card (?f ` set ?es)"
  proof (rule card_image [symmetric], rule inj_onI)
    fix x y
    assume xy: "x \<in> set ?es" "y \<in> set ?es" "?f x = ?f y"
    then obtain t q where "expired_entry X now x = Some (t, q)" "expired_entry X now y = Some (t, q)" by fastforce
    with xy(1,2) have "\<exists>b. x = (msg_key t q, b) \<and> V s (''msg'', msg_key t q) = Some b"
      "\<exists>b. y = (msg_key t q, b) \<and> V s (''msg'', msg_key t q) = Some b"
      using expired_entry_iff [OF assms, of x now t q] expired_entry_iff [OF assms, of y now t q] by auto
    then show "x = y" by auto
  qed
  also have "?f ` set ?es = {(t, q). expired_message K X s now t q}"
  proof (intro set_eqI iffI)
    fix tq
    assume "tq \<in> ?f ` set ?es"
    then obtain x where "x \<in> set (kv_scan_prefix K s ''msg'' [])" "expired_entry X now x = Some tq" by auto
    then show "tq \<in> {(t, q). expired_message K X s now t q}"
      using expired_entry_message [OF assms, of now "fst tq" "snd tq"] by auto
  next
    fix tq
    assume "tq \<in> {(t, q). expired_message K X s now t q}"
    then obtain x where "x \<in> set (kv_scan_prefix K s ''msg'' [])" "expired_entry X now x = Some tq"
      using expired_entry_message [OF assms, of now "fst tq" "snd tq"] by auto
    then have "x \<in> set ?es" "?f x = tq" by simp_all
    then show "tq \<in> ?f ` set ?es" by blast
  qed
  finally show ?thesis .
qed

lemma sweep_messages_exact:
  assumes wf: "wf s" and run: "sweep_expired_messages K X s now = (stats, s')"
  shows "wf s'" and "rs_messages_expired stats = of_nat (card {(t, q). expired_message K X s now t q})"
    and "V s' (''msg'', msg_key t q) = (if expired_message K X s now t q then None else V s (''msg'', msg_key t q))"
    and "V s' (''dlv'', delivery_key i q) =
      (if \<exists>t. expired_message K X s now t q \<and> i \<in> set (sub_list_by_topic_id K s t) then None else V s (''dlv'', delivery_key i q))"
    and "fst p \<notin> {''msg'', ''dlv''} \<Longrightarrow> V s' p = V s p"
proof -
  let ?es = "kv_scan_prefix K s ''msg'' []"
  let ?gone = "\<Union>x \<in> set ?es. gone_with X (sub_list_by_topic_id K s) now x"
  have run: "stats = \<lparr>rs_messages_expired = of_nat (length (filter (\<lambda>x. expired_entry X now x \<noteq> None) ?es))\<rparr>"
    "wf s'" "V s' = without ?gone (V s)"
    using retention_fold_exact [OF wf, of now ?es "\<lparr>rs_messages_expired = 0\<rparr>"] run
    by (auto simp: sweep_expired_messages_def)
  show "wf s'" by (fact run(2))
  show "rs_messages_expired stats = of_nat (card {(t, q). expired_message K X s now t q})"
    unfolding run(1) expired_count [OF wf] by simp
  have "(''msg'', msg_key t q) \<in> gone_with X (sub_list_by_topic_id K s) now x \<longleftrightarrow> expired_entry X now x = Some (t, q)"
    if "x \<in> set ?es" for x
    by (cases "parse_msg_key (fst x)")
      (auto simp: gone_with_def expired_entry_def parse_msg_key_iff split: option.splits if_splits)
  then have "(''msg'', msg_key t q) \<in> ?gone \<longleftrightarrow> expired_message K X s now t q"
    unfolding expired_entry_message [OF wf, symmetric] by blast
  then show "V s' (''msg'', msg_key t q) = (if expired_message K X s now t q then None else V s (''msg'', msg_key t q))"
    by (simp add: run(3) without_def)
  have "(''dlv'', delivery_key i q) \<in> ?gone \<longleftrightarrow> (\<exists>t. expired_message K X s now t q \<and> i \<in> set (sub_list_by_topic_id K s t))"
    unfolding expired_entry_message [OF wf, symmetric] by (force simp: gone_with_def split: option.splits)
  then show "V s' (''dlv'', delivery_key i q) =
      (if \<exists>t. expired_message K X s now t q \<and> i \<in> set (sub_list_by_topic_id K s t) then None else V s (''dlv'', delivery_key i q))"
    by (simp add: run(3) without_def)
  show "V s' p = V s p" if "fst p \<notin> {''msg'', ''dlv''}"
  proof -
    have "p \<notin> ?gone" using that gone_with_keyspace [of p] by blast
    then show ?thesis by (simp add: run(3) without_def)
  qed
qed

end

end
