(* ===== verification/Log_Claims.thy ===== *)
theory Log_Claims
  imports Publish_Claims Seek Retention_Facts
begin

text \<open>
  What the operations that rewrite the past of a topic promise: the retention sweep, the seek to a
  time and the seek to a snapshot. The lemmas are in \<open>Retention_Facts\<close> and \<open>Seek\<close>.
\<close>

lemma demo_leased_scan:
  "mem_scan_prefix (eng_kv demo_leased) ''msg'' (msg_key_prefix 1) = [(msg_key 1 1, message_encode demo demo_message)]"
  by (simp add: mem_scan_prefix_def demo_leased_def demo_kv_def hm_insert_def)

text \<open>
  C13: the retention sweep is exact. On a store whose writes succeed it removes exactly the messages
  that can be read and whose expiry time has come, of every topic, together with the delivery rows
  the subscriptions of the topic have for them; everything else in the store stays, and the
  number reported is the number of messages removed.
\<close>

theorem retention_sweep_exact:
  assumes "store_env_reliable K good X" and "good s" and "sweep_expired_messages K X s now = (stats, s')"
  shows "good s' \<and> rs_messages_expired stats = of_nat (card {(t, q). expired_message K X s now t q}) \<and>
    (\<forall>t q. kv_get K s' ''msg'' (msg_key t q) =
       (if expired_message K X s now t q then None else kv_get K s ''msg'' (msg_key t q))) \<and>
    (\<forall>i q. kv_get K s' ''dlv'' (delivery_key i q) =
       (if \<exists>t. expired_message K X s now t q \<and> i \<in> set (sub_list_by_topic_id K s t) then None
        else kv_get K s ''dlv'' (delivery_key i q))) \<and>
    (\<forall>ks k. ks \<noteq> ''msg'' \<and> ks \<noteq> ''dlv'' \<longrightarrow> kv_get K s' ks k = kv_get K s ks k)"
  using store_env_reliable.sweep_messages_exact [OF assms] unfolding kv_get_view by force

theorem retention_sweep_exact_witness:
  "kv_get mem_kv_ops (snd (sweep_expired_messages mem_kv_ops demo demo_kv 99)) ''msg'' (msg_key 1 1) \<noteq> None \<and>
   kv_get mem_kv_ops (snd (sweep_expired_messages mem_kv_ops demo demo_kv 100)) ''msg'' (msg_key 1 1) = None"
proof -
  have *: "expired_message mem_kv_ops demo demo_kv now 1 1 \<longleftrightarrow> 100 \<le> now" for now
    by (simp add: expired_message_def mem_get_map_of demo_message_def)
  have "kv_get mem_kv_ops (snd (sweep_expired_messages mem_kv_ops demo demo_kv now)) ''msg'' (msg_key 1 1) =
      (if 100 \<le> now then None else kv_get mem_kv_ops demo_kv ''msg'' (msg_key 1 1))" for now
    using retention_sweep_exact [OF demo_store_env_reliable demo_kv_wf surjective_pairing [where t = "sweep_expired_messages mem_kv_ops demo demo_kv now"]] *
    by auto
  then show ?thesis by (simp add: mem_get_map_of)
qed



text \<open>
  C12: a snapshot brings the cursor back. A snapshot that was created holds the cursor of its
  subscription, and whenever it is still there a successful seek to it, of any subscription of the
  topic, makes that cursor the subscription's and forgets its leases and delivery rows, whatever
  was acknowledged in between.
\<close>

theorem snapshot_restores:
  assumes "store_env K good X" and "good (svc_kv v)" and "snapshots_ok K X (svc_kv v)"
    and "counter_value (kv_view K (svc_kv v)) id_seq_key < - 1"
    and "sub_get K X (svc_kv v) sn = Inr sub" and "load_cursor K X (svc_kv v) (sr_id sub) = Inr c"
    and "svc_create_snapshot K X v now n sn labels = (Inr r, v1)"
    and "good (svc_kv v2)" and "lease_table_wf (eng_leases (svc_engine v2))" and "snapshots_ok K X (svc_kv v2)"
    and "snapshots_of K X (svc_kv v2) n = Some r" and "sub_get K X (svc_kv v2) sn2 = Inr sub2"
    and "svc_seek_to_snapshot K X v2 sn2 n = (Inr (), v3)"
  shows "snapshots_of K X (svc_kv v1) n = Some r \<and> sr_topic_id sub2 = sr_topic_id sub \<and>
    load_cursor K X (svc_kv v3) (sr_id sub2) = Inr c \<and>
    (\<forall>q. lease_abs (eng_leases (svc_engine v3)) (sr_id sub2, q) = None \<and>
       kv_get K (svc_kv v3) ''dlv'' (delivery_key (sr_id sub2) q) = None)"
proof -
  have "snapshots_of K X (svc_kv v1) n = Some r \<and> sn_cursor r = c \<and> sn_topic_id r = sr_topic_id sub"
    using store_env.create_snapshot_captures [OF assms(1,2) _ assms(4-7)] assms(3) by (simp add: catalog_defs)
  moreover have "load_cursor K X (svc_kv v3) (sr_id sub2) = Inr (sn_cursor r) \<and> sn_topic_id r = sr_topic_id sub2 \<and>
      (\<forall>q. lease_abs (eng_leases (svc_engine v3)) (sr_id sub2, q) = None \<and>
         kv_view K (svc_kv v3) (''dlv'', delivery_key (sr_id sub2) q) = None)"
    using store_env.seek_to_snapshot_ok [OF assms(1) _ _ assms(13,12)] assms(8-11) by (simp add: catalog_defs)
  ultimately show ?thesis by (simp add: kv_get_view)
qed

theorem snapshot_restores_witness:
  "\<exists>r v1 v2. svc_create_snapshot mem_kv_ops demo demo_service 50 demo_snapshot_name demo_sub_name [] = (Inr r, v1) \<and>
     svc_seek_to_snapshot mem_kv_ops demo v1 demo_sub_name demo_snapshot_name = (Inr (), v2) \<and>
     load_cursor mem_kv_ops demo (svc_kv v2) 2 = Inr demo_cursor"
proof -
  have id: "sr_id demo_sub = 2" "sr_topic_id demo_sub = 1" by (simp_all add: demo_sub_def)
  have load: "load_cursor mem_kv_ops demo (svc_kv demo_service) (sr_id demo_sub) = Inr demo_cursor"
    using demo_leased_load by (simp add: demo_service_def id)
  have topic: "sr_topic demo_sub = demo_topic_name" by (simp add: demo_sub_def)
  obtain ex where "oldest_unacked_publish_ts_ms mem_kv_ops demo (svc_engine demo_service) 2 1 = Inr (Some 5)"
    "compute_expire_at_ms 50 (Some 5) = Inr ex"
    using load
    by (simp add: oldest_unacked_publish_ts_ms_def id demo_service_def demo_leased_scan demo_cursor_def demo_message_def
        compute_expire_at_ms_def Let_def i64_sat_add_def i64_sat_sub_def i64_sat_mul_def sat_i64_def i64_min_def i64_max_def limit_defs)
  moreover obtain r s where s: "snapshot_create mem_kv_ops demo (svc_kv demo_service) demo_snapshot_name demo_topic_name 1 []
      demo_cursor ex = (Inr r, s)"
    using demo_snapshot_create by blast
  ultimately obtain v1 where create: "svc_create_snapshot mem_kv_ops demo demo_service 50 demo_snapshot_name demo_sub_name [] = (Inr r, v1)"
    and v1: "svc_kv v1 = s" "eng_leases (svc_engine v1) = eng_leases (svc_engine demo_service)"
    using load by (simp add: svc_create_snapshot_def demo_sub_get cursor_snapshot_def id topic on_store_def on_engine_def on_kv_def)
  note k = store_env.snapshot_create_refines [OF demo_store_env demo_service_inv(1) demo_catalogs(5) [unfolded catalog_defs] demo_counter s]
  have of_v1: "snapshots_of mem_kv_ops demo (svc_kv v1) demo_snapshot_name = Some r" "snapshots_ok mem_kv_ops demo (svc_kv v1)"
    "hm_wf (svc_kv v1)" "lease_table_wf (eng_leases (svc_engine v1))"
    using k demo_service_inv(3) by (simp_all add: v1 catalog_defs)
  have sub1: "sub_get mem_kv_ops demo (svc_kv v1) demo_sub_name = Inr demo_sub"
    using store_env.snapshot_create_subs [OF demo_store_env demo_service_inv(1) s] by (simp add: v1 demo_sub_get)
  have "snapshot_get mem_kv_ops demo (svc_kv v1) demo_snapshot_name = Inr r"
    using store_env.snapshot_get_ok [OF demo_store_env _ demo_snapshot_valid, of "svc_kv v1"] of_v1(1,2) by (simp add: catalog_defs)
  moreover have "sn_topic_id r = sr_topic_id demo_sub" using k(5) id by (metis snapshot_record.select_convs(4))
  ultimately obtain v2 where seek: "svc_seek_to_snapshot mem_kv_ops demo v1 demo_sub_name demo_snapshot_name = (Inr (), v2)"
    using store_env_reliable.seek_to_snapshot_total [OF demo_store_env_reliable of_v1(3) sub1] by blast
  from snapshot_restores [OF demo_store_env demo_service_inv(1) demo_catalogs(5) demo_counter demo_sub_get load create
      of_v1(3,4,2,1) sub1 seek] create seek show ?thesis by (auto simp: id)
qed

end
