(* ===== verification/Dead_Letter.thy ===== *)
theory Dead_Letter
  imports Publish
begin

text \<open>
  A pull loses nothing: what it marks done without delivering it is filtered out, or was tried too
  often and is in the log of the dead-letter topic when the pull returns. A copy that the topic refuses
  blocks the subscription.
\<close>

section \<open>Logs that only grow\<close>

text \<open>Every log has gained at most \<open>n\<close> messages behind its tail; what was in it is still there.\<close>

definition logs_grow :: "nat \<Rightarrow> view \<Rightarrow> view \<Rightarrow> bool" where
  "logs_grow n V V' \<longleftrightarrow>
     (\<forall>t. log_tail V t \<le> log_tail V' t \<and> unat (log_tail V' t) \<le> unat (log_tail V t) + n \<and>
        (\<forall>q \<le> log_tail V t. V' (''msg'', msg_key t q) = V (''msg'', msg_key t q)))"

lemma logs_grow_refl [simp]: "logs_grow n V V"
  by (simp add: logs_grow_def)

lemma logs_growD:
  assumes "logs_grow n V V'"
  shows "log_tail V t \<le> log_tail V' t" and "unat (log_tail V' t) \<le> unat (log_tail V t) + n"
    and "q \<le> log_tail V t \<Longrightarrow> V' (''msg'', msg_key t q) = V (''msg'', msg_key t q)"
  using assms by (simp_all add: logs_grow_def)

lemma logs_grow_trans:
  assumes "logs_grow n V V'" and "logs_grow m V' V''"
  shows "logs_grow (n + m) V V''"
  unfolding logs_grow_def
proof (intro allI conjI impI)
  fix t
  note 1 = logs_growD [OF assms(1), of t] and 2 = logs_growD [OF assms(2), of t]
  show "log_tail V t \<le> log_tail V'' t" using 1(1) 2(1) by (rule order_trans)
  show "unat (log_tail V'' t) \<le> unat (log_tail V t) + (n + m)" using 1(2) 2(2) by linarith
  fix q assume q: "q \<le> log_tail V t"
  have "V'' (''msg'', msg_key t q) = V' (''msg'', msg_key t q)" by (rule logs_growD(3) [OF assms(2) order_trans [OF q 1(1)]])
  also have "\<dots> = V (''msg'', msg_key t q)" by (rule logs_growD(3) [OF assms(1) q])
  finally show "V'' (''msg'', msg_key t q) = V (''msg'', msg_key t q)" .
qed

lemma logs_grow_mono: "logs_grow n V V' \<Longrightarrow> n \<le> m \<Longrightarrow> logs_grow m V V'"
  unfolding logs_grow_def by (meson add_left_mono order_trans)

lemma logs_grow_same:
  assumes "\<And>t. V' (''meta'', topic_seq_counter_key t) = V (''meta'', topic_seq_counter_key t)"
    and "\<And>k. V' (''msg'', k) = V (''msg'', k)"
  shows "logs_grow n V V'"
  using assms by (simp add: logs_grow_def counter_value_def)

lemma appended_grows:
  assumes "appended X d now expire [m] V V'" and "unat (log_tail V d) + 1 < 2 ^ 64"
  shows "logs_grow 1 V V'"
    and "log_tail V' d = log_tail V d + 1"
    and "V' (''msg'', msg_key d (log_tail V d + 1)) = Some (message_encode X (new_record now expire m))"
proof -
  have tail: "log_tail V' d = log_tail V d + 1" using assms(1) by (simp add: appended_def)
  then show "log_tail V' d = log_tail V d + 1" .
  show "V' (''msg'', msg_key d (log_tail V d + 1)) = Some (message_encode X (new_record now expire m))"
    using assms(1) by (simp add: appended_def seq_after_def)
  have up: "unat (log_tail V d + 1) = unat (log_tail V d) + 1"
    using assms(2) by (simp add: unat_word_ariths)
  show "logs_grow 1 V V'"
    unfolding logs_grow_def
  proof (intro allI)
    fix t
    show "log_tail V t \<le> log_tail V' t \<and> unat (log_tail V' t) \<le> unat (log_tail V t) + 1 \<and>
        (\<forall>q \<le> log_tail V t. V' (''msg'', msg_key t q) = V (''msg'', msg_key t q))"
    proof (cases "t = d")
      case True
      have "V' (''msg'', msg_key d q) = V (''msg'', msg_key d q)" if "q \<le> log_tail V d" for q
      proof -
        have "q \<noteq> log_tail V d + 1" using that up by (auto simp: word_le_nat_alt)
        then show ?thesis using assms(1) by (simp add: appended_def seq_after_def)
      qed
      with True tail up show ?thesis by (simp add: word_le_nat_alt)
    next
      case False
      have "log_tail V' t = log_tail V t"
        using appended_other [OF assms(1), of "(''meta'', topic_seq_counter_key t)"] False by (simp add: counter_value_def)
      moreover have "V' (''msg'', msg_key t q) = V (''msg'', msg_key t q)" for q
        using assms(1) False by (simp add: appended_def)
      ultimately show ?thesis by simp
    qed
  qed
qed

section \<open>The dead-letter topic\<close>

definition dead_letter_topic_of :: "'s kv_ops \<Rightarrow> ext \<Rightarrow> 's \<Rightarrow> u64 \<Rightarrow> topic_record option" where
  "dead_letter_topic_of K X s sub =
     Option.bind (sub_record_of K X s sub) (\<lambda>r. Option.bind (sr_dead_letter_topic r) (\<lambda>n.
       case topic_get K X s n of Inr dlq \<Rightarrow> Some dlq | Inl _ \<Rightarrow> None))"

text \<open>The copy of a message in the dead-letter log, after \<open>attempts\<close> deliveries.\<close>

definition dead_letter_copy ::
    "ext \<Rightarrow> view \<Rightarrow> int \<Rightarrow> subscription_record \<Rightarrow> u64 \<Rightarrow> u32 \<Rightarrow> message_record \<Rightarrow> bool"
where
  "dead_letter_copy X V now r d attempts m \<longleftrightarrow>
     (\<exists>q expire. q \<le> log_tail V d \<and> V (''msg'', msg_key d q) = Some (message_encode X
        \<lparr>mr_publish_ts_ms = now, mr_ordering_key = mr_ordering_key m,
         mr_attributes = build_attributes (mr_attributes m) attempts (sr_name r) (mr_publish_ts_ms m),
         mr_payload = mr_payload m, mr_expire_at_ms = expire\<rparr>))"

lemma dead_letter_copy_grows:
  assumes "dead_letter_copy X V now r d a m" and "logs_grow n V V'"
  shows "dead_letter_copy X V' now r d a m"
proof -
  obtain q expire where q: "q \<le> log_tail V d" and row: "V (''msg'', msg_key d q) = Some (message_encode X
        \<lparr>mr_publish_ts_ms = now, mr_ordering_key = mr_ordering_key m,
         mr_attributes = build_attributes (mr_attributes m) a (sr_name r) (mr_publish_ts_ms m),
         mr_payload = mr_payload m, mr_expire_at_ms = expire\<rparr>)"
    using assms(1) unfolding dead_letter_copy_def by (elim exE conjE)
  have "q \<le> log_tail V' d" by (rule order_trans [OF q logs_growD(1) [OF assms(2)]])
  moreover have "V' (''msg'', msg_key d q) = V (''msg'', msg_key d q)" by (rule logs_growD(3) [OF assms(2) q])
  ultimately show ?thesis unfolding dead_letter_copy_def using row by (intro exI [of _ q] exI [of _ expire]) simp
qed

text \<open>Why message \<open>m\<close> was given up: it was tried as often as allowed, and there is a copy of it.\<close>

definition dead_lettered ::
    "'s kv_ops \<Rightarrow> ext \<Rightarrow> 's engine \<Rightarrow> view \<Rightarrow> int \<Rightarrow> u64 \<Rightarrow> u64 \<Rightarrow> message_record \<Rightarrow> bool"
where
  "dead_lettered K X e V now sub q m \<longleftrightarrow>
     (\<exists>r dlq. sub_record_of K X (eng_kv e) sub = Some r \<and> dead_letter_topic_of K X (eng_kv e) sub = Some dlq \<and>
        0 < sr_max_delivery_attempts r \<and> sr_max_delivery_attempts r \<le> int (unat (prior_attempts K X e sub q)) \<and>
        dead_letter_copy X V now r (tr_id dlq) (prior_attempts K X e sub q) m)"

lemma dead_lettered_grows:
  "dead_lettered K X e V now sub q m \<Longrightarrow> logs_grow n V V' \<Longrightarrow> dead_lettered K X e V' now sub q m"
  unfolding dead_lettered_def using dead_letter_copy_grows by blast

lemma frame_records:
  assumes "eng_frame K sub Q e e'"
  shows "sub_record_of K X (eng_kv e') i = sub_record_of K X (eng_kv e) i"
    and "topic_get K X (eng_kv e') n = topic_get K X (eng_kv e) n"
    and "dead_letter_topic_of K X (eng_kv e') i = dead_letter_topic_of K X (eng_kv e) i"
proof -
  have view: "kv_view K (eng_kv e') p = kv_view K (eng_kv e) p" if "protected sub Q p" for p
    by (rule eng_frame_view [OF assms that])
  show sub: "sub_record_of K X (eng_kv e') i = sub_record_of K X (eng_kv e) i"
    by (simp add: sub_record_of_def kv_get_view view)
  show topic: "topic_get K X (eng_kv e') n = topic_get K X (eng_kv e) n" for n
    by (simp add: topic_get_def topic_resolve_id_def topic_load_record_def [abs_def] kv_get_view view)
  show "dead_letter_topic_of K X (eng_kv e') i = dead_letter_topic_of K X (eng_kv e) i"
    by (simp add: dead_letter_topic_of_def sub topic)
qed

lemma dead_lettered_frame:
  "dead_lettered K X e' V now sub q m \<Longrightarrow> eng_frame K sub Q e e' \<Longrightarrow> q \<notin> Q \<Longrightarrow> dead_lettered K X e V now sub q m"
  by (simp add: dead_lettered_def frame_records [of K sub Q e e'] prior_attempts_frame [of K sub Q e e'])

context store_env
begin

lemma forward_grows:
  assumes wf: "wf s" and run: "forward_to_dead_letter_topic K X s n m policy a now = (Inr b, s')"
    and room: "\<And>dlq. topic_get K X s n = Inr dlq \<Longrightarrow> unat (log_tail (V s) (tr_id dlq)) + 1 < 2 ^ 64"
  shows "logs_grow 1 (V s) (V s') \<and> (b \<longrightarrow> (\<exists>dlq. topic_get K X s n = Inr dlq \<and>
    (\<forall>r. sr_name r = rp_subscription_full_name policy \<longrightarrow> dead_letter_copy X (V s') now r (tr_id dlq) a m)))"
proof (cases "topic_get K X s n")
  case (Inl err)
  then have "s' = s \<and> \<not> b" using run by (cases err) (auto simp: forward_to_dead_letter_topic_def)
  then show ?thesis by simp
next
  case (Inr dlq)
  let ?attrs = "build_attributes (mr_attributes m) a (rp_subscription_full_name policy) (mr_publish_ts_ms m)"
  obtain qs ret where app: "topic_append K X s (tr_id dlq) [(mr_payload m, ?attrs, mr_ordering_key m)] now ret = (Inr qs, s')"
    using run Inr by (auto simp: forward_to_dead_letter_topic_def result_iffs Let_def)
  have "appended X (tr_id dlq) now (i64_sat_add now (i64_sat_mul ret 1000)) [(mr_payload m, ?attrs, mr_ordering_key m)] (V s) (V s')"
    using topic_append_ok [OF wf app] room [OF Inr] by simp
  note g = appended_grows [OF this room [OF Inr]]
  have "dead_letter_copy X (V s') now r (tr_id dlq) a m" if "sr_name r = rp_subscription_full_name policy" for r
    unfolding dead_letter_copy_def using g(2,3) that
    by (intro exI [of _ "log_tail (V s) (tr_id dlq) + 1"] exI conjI) (simp_all add: new_record_def)
  with Inr g(1) show ?thesis by blast
qed

lemma try_dead_letter_grows:
  assumes "eng_wf e" and run: "try_dead_letter K X e m (reclaim_policy_of K X (eng_kv e) sub) a now = (Inr b, e')"
    and room: "\<And>dlq. dead_letter_topic_of K X (eng_kv e) sub = Some dlq \<Longrightarrow>
      unat (log_tail (V (eng_kv e)) (tr_id dlq)) + 1 < 2 ^ 64"
    and a: "b \<Longrightarrow> a = prior_attempts K X e sub q"
  shows "logs_grow 1 (V (eng_kv e)) (V (eng_kv e')) \<and> (b \<longrightarrow> dead_lettered K X e (V (eng_kv e')) now sub q m)"
proof (cases "should_dead_letter a (rp_dead_letter (reclaim_policy_of K X (eng_kv e) sub))")
  case True
  let ?p = "reclaim_policy_of K X (eng_kv e) sub"
  obtain r n where r: "sub_record_of K X (eng_kv e) sub = Some r" "sr_dead_letter_topic r = Some n"
      "0 < sr_max_delivery_attempts r" "sr_max_delivery_attempts r \<le> int (unat a)"
      "rp_subscription_full_name ?p = sr_name r" "dp_topic (rp_dead_letter ?p) = Some n"
    using True by (auto simp: should_dead_letter_def reclaim_policy_of_def split: option.splits)
  obtain s' where s': "forward_to_dead_letter_topic K X (eng_kv e) n m ?p a now = (Inr b, s')" "e' = e\<lparr>eng_kv := s'\<rparr>"
    using run True r(6) by (auto simp: try_dead_letter_def Let_def on_kv_Inr unwrap_or_def)
  have dlq: "dead_letter_topic_of K X (eng_kv e) sub = Some d" if "topic_get K X (eng_kv e) n = Inr d" for d
    using that r(1,2) by (simp add: dead_letter_topic_of_def)
  have g: "logs_grow 1 (V (eng_kv e)) (V s') \<and> (b \<longrightarrow> (\<exists>dlq. topic_get K X (eng_kv e) n = Inr dlq \<and>
      (\<forall>r. sr_name r = rp_subscription_full_name ?p \<longrightarrow> dead_letter_copy X (V s') now r (tr_id dlq) a m)))"
    by (rule forward_grows [OF _ s'(1)]) (use assms(1) room dlq in auto)
  have "dead_lettered K X e (V s') now sub q m" if b
  proof -
    obtain d where d: "topic_get K X (eng_kv e) n = Inr d"
        "\<forall>r. sr_name r = rp_subscription_full_name ?p \<longrightarrow> dead_letter_copy X (V s') now r (tr_id d) a m"
      using g \<open>b\<close> by blast
    then have "dead_letter_copy X (V s') now r (tr_id d) a m" using r(5) by simp
    with r d dlq a [OF \<open>b\<close>] show ?thesis by (auto simp: dead_lettered_def)
  qed
  with g s'(2) show ?thesis by simp
qed (use run in \<open>simp add: try_dead_letter_def\<close>)

lemma row_change_grows:
  assumes "eng_wf e" and "on_kv e (\<lambda>s. kv_delete K s ''dlv'' k) = (Inr u, e')"
  shows "logs_grow n (V (eng_kv e)) (V (eng_kv e'))"
  using assms delete_ok' by (fastforce simp: on_kv_Inr intro: logs_grow_same)

lemma reclaim_tail_grows:
  assumes "eng_wf e1" and "logs_grow 1 (V (eng_kv e)) (V (eng_kv e1))"
    and fwd: "fwd \<Longrightarrow> dead_lettered K X e (V (eng_kv e1)) now sub q m"
    and run: "(if fwd then bind_st (on_kv e1 (\<lambda>s. kv_delete K s ''dlv'' (delivery_key sub q)))
        (\<lambda>_ e. (Inr DeadLettered, e)) else (Inr (Deliverable n), e1)) = (Inr oc, e')"
  shows "logs_grow 1 (V (eng_kv e)) (V (eng_kv e')) \<and>
    (oc = DeadLettered \<longrightarrow> dead_lettered K X e (V (eng_kv e')) now sub q m)"
proof (cases fwd)
  case True
  then have "on_kv e1 (\<lambda>s. kv_delete K s ''dlv'' (delivery_key sub q)) = (Inr (), e')"
    using run by (auto simp: bind_st_Inr_iff)
  then have g: "logs_grow 0 (V (eng_kv e1)) (V (eng_kv e'))" by (rule row_change_grows [OF assms(1)])
  show ?thesis using logs_grow_trans [OF assms(2) g] dead_lettered_grows [OF fwd [OF True] g] by simp
qed (use assms in auto)

lemma reclaim_grows:
  assumes wf: "eng_wf e" and run: "reclaim K X e sub q m now = (Inr oc, e')"
    and room: "\<And>dlq. dead_letter_topic_of K X (eng_kv e) sub = Some dlq \<Longrightarrow>
      unat (log_tail (V (eng_kv e)) (tr_id dlq)) + 1 < 2 ^ 64"
  shows "logs_grow 1 (V (eng_kv e)) (V (eng_kv e')) \<and>
    (oc = DeadLettered \<longrightarrow> dead_lettered K X e (V (eng_kv e')) now sub q m)"
proof (cases "lease_abs (eng_leases e) (sub, q)")
  case lease: (Some l)
  let ?p = "reclaim_policy_of K X (eng_kv e) sub"
  have a: "prior_attempts K X e sub q = l_attempts l" using lease by (simp add: prior_attempts_def)
  show ?thesis
  proof (cases "l_deadline_ms l > now \<or> in_backoff ?p (l_attempts l) (l_deadline_ms l) now")
    case True
    then have "oc = HoldBack \<and> e' = e"
      using run lease by (auto simp: reclaim_def lease_get_def Let_def split: if_splits)
    then show ?thesis by simp
  next
    case False
    then obtain fwd e1 where e1: "try_dead_letter K X e m ?p (l_attempts l) now = (Inr fwd, e1)"
      using run lease by (auto simp: reclaim_def lease_get_def Let_def bind_st_Inr_iff)
    let ?e2 = "e1\<lparr>eng_leases := snd (lease_remove (eng_leases e1) sub q)\<rparr>"
    have "eng_wf ?e2" using drop_lease_frame [of e1] try_dead_letter_frame [OF wf e1] by blast
    moreover have "logs_grow 1 (V (eng_kv e)) (V (eng_kv ?e2)) \<and> (fwd \<longrightarrow> dead_lettered K X e (V (eng_kv ?e2)) now sub q m)"
      using try_dead_letter_grows [OF wf e1 room, of q] a by simp
    ultimately show ?thesis
      using run lease False e1
      by (intro reclaim_tail_grows [of ?e2 e fwd]) (auto simp: reclaim_def lease_get_def Let_def)
  qed
next
  case None
  let ?p = "reclaim_policy_of K X (eng_kv e) sub"
  show ?thesis
  proof (cases "persisted_delivery_record K X (eng_kv e) sub q")
    case no_row: None
    then have "oc = Deliverable 0 \<and> e' = e" using run None by (auto simp: reclaim_def lease_get_def)
    then show ?thesis by simp
  next
    case (Some r)
    have a: "prior_attempts K X e sub q = dr_attempts r" using None Some by (simp add: prior_attempts_def)
    show ?thesis
    proof (cases "in_backoff ?p (dr_attempts r) (dr_deadline_ms r) now")
      case True
      then have "oc = HoldBack \<and> e' = e"
        using run None Some by (auto simp: reclaim_def lease_get_def Let_def)
      then show ?thesis by simp
    next
      case False
      then obtain fwd e1 where e1: "try_dead_letter K X e m ?p (dr_attempts r) now = (Inr fwd, e1)"
        using run None Some by (auto simp: reclaim_def lease_get_def Let_def bind_st_Inr_iff)
      have "eng_wf e1" using try_dead_letter_frame [OF wf e1] by blast
      moreover have "logs_grow 1 (V (eng_kv e)) (V (eng_kv e1)) \<and> (fwd \<longrightarrow> dead_lettered K X e (V (eng_kv e1)) now sub q m)"
        using try_dead_letter_grows [OF wf e1 room, of q] a by simp
      ultimately show ?thesis
        using run None Some False e1
        by (intro reclaim_tail_grows [of e1 e fwd]) (auto simp: reclaim_def lease_get_def Let_def)
    qed
  qed
qed

lemma grant_grows:
  assumes "eng_wf e" and "grant K X e sub q m n now secs = (Inr d, e')"
  shows "logs_grow k (V (eng_kv e)) (V (eng_kv e'))"
proof -
  obtain T b s where s: "kv_put K (eng_kv e) ''dlv'' (delivery_key sub q) b = (Inr (), s)" "eng_kv e' = s"
    using assms(2) by (auto simp: grant_def Let_def bind_st_Inr_iff on_kv_Inr split: prod.splits)
  then show ?thesis using put_ok' [OF s(1)] assms(1) by (auto intro: logs_grow_same)
qed

section \<open>The scan\<close>

text \<open>Why a message behind the cursor \<open>c'\<close> that was not behind \<open>c\<close> is done.\<close>

definition accounted ::
    "u64 \<Rightarrow> u64 \<Rightarrow> int \<Rightarrow> compiled_filter option \<Rightarrow> (bytes \<times> bytes) list \<Rightarrow>
     cursor_record \<Rightarrow> 's engine \<Rightarrow> cursor_record \<Rightarrow> view \<Rightarrow> bool"
where
  "accounted sub t now flt entries c e c' V' \<longleftrightarrow>
     (\<forall>q \<in> done_seqs c' - done_seqs c. \<exists>b m. (msg_key t q, b) \<in> set entries \<and> message_decode X b = Some m \<and>
        (\<not> filter_passes flt m \<or> dead_lettered K X e V' now sub q m))"

lemma lease_step_grows:
  assumes wf: "eng_wf e" and ok: "cursor_ok c" and key: "parse_msg_key k = Some (t, q)"
    and run: "lease_step K X sub now secs flt (k, b) (c, ch, out) e = (Inr (c', ch', out'), e')"
    and room: "\<And>dlq. dead_letter_topic_of K X (eng_kv e) sub = Some dlq \<Longrightarrow>
      unat (log_tail (V (eng_kv e)) (tr_id dlq)) + 1 < 2 ^ 64"
  shows "logs_grow 1 (V (eng_kv e)) (V (eng_kv e')) \<and> accounted sub t now flt [(k, b)] c e c' (V (eng_kv e'))"
proof -
  have k: "k = msg_key t q" using key by (simp add: parse_msg_key_iff)
  have md: "done_seqs (mark_done c q) = insert q (done_seqs c)" using mark_done_spec [OF ok] by simp
  show ?thesis
  proof (cases "q \<in> done_seqs c \<or> message_decode X b = None")
    case True
    then have "(c', ch', out') = (c, ch, out) \<and> e' = e"
      using run key by (auto simp: lease_step_def done_seqs_def split: if_splits)
    then show ?thesis by (simp add: accounted_def)
  next
    case False
    then obtain m where q: "q \<notin> done_seqs c" and m: "message_decode X b = Some m" by auto
    show ?thesis
    proof (cases "filter_passes flt m")
      case False
      then have "(c', ch', out') = (mark_done c q, True, out) \<and> e' = e"
        using run key q m by (auto simp: lease_step_def done_seqs_def filter_passes_def split: option.splits)
      then show ?thesis using False m by (auto simp: accounted_def md k)
    next
      case True
      then obtain oc e1 where e1: "reclaim K X e sub q m now = (Inr oc, e1)"
        and rest: "(case oc of HoldBack \<Rightarrow> (Inr (c, ch, out), e1)
          | DeadLettered \<Rightarrow> (Inr (mark_done c q, True, out), e1)
          | Deliverable n \<Rightarrow> bind_st (grant K X e1 sub q m n now secs)
              (\<lambda>d e. (Inr (c, ch, out @ [d]), e))) = (Inr (c', ch', out'), e')"
        using run key q m
        by (auto simp: lease_step_def done_seqs_def filter_passes_def bind_st_Inr_iff split: option.splits)
      note r = reclaim_grows [OF wf e1 room]
      show ?thesis
      proof (cases oc)
        case (Deliverable n)
        then obtain d where d: "grant K X e1 sub q m n now secs = (Inr d, e')" and c': "c' = c"
          using rest by (auto simp: bind_st_Inr_iff)
        have "logs_grow 0 (V (eng_kv e1)) (V (eng_kv e'))"
          using grant_grows [OF _ d] reclaim_spec [OF wf e1] by blast
        then show ?thesis using logs_grow_trans [of 1 _ _ 0] r by (fastforce simp: accounted_def c')
      qed (use r rest m in \<open>auto simp: accounted_def md k\<close>)
    qed
  qed
qed

lemma accounted_later:
  assumes step: "accounted sub t now flt [x] c e c1 (V (eng_kv e1))" and rest: "accounted sub t now flt entries c1 e1 c' V'"
    and frame: "eng_frame K sub {q} e e1" and later: "q \<notin> entry_seqs entries" and grows: "logs_grow n (V (eng_kv e1)) V'"
  shows "accounted sub t now flt (x # entries) c e c' V'"
  unfolding accounted_def
proof
  fix p assume "p \<in> done_seqs c' - done_seqs c"
  then consider "p \<in> done_seqs c1 - done_seqs c" | "p \<in> done_seqs c' - done_seqs c1" by blast
  then show "\<exists>b m. (msg_key t p, b) \<in> set (x # entries) \<and> message_decode X b = Some m \<and>
      (\<not> filter_passes flt m \<or> dead_lettered K X e V' now sub p m)"
  proof cases
    case 1
    obtain b m where b: "(msg_key t p, b) = x" "message_decode X b = Some m"
        "\<not> filter_passes flt m \<or> dead_lettered K X e (V (eng_kv e1)) now sub p m"
      using bspec [OF step [unfolded accounted_def] 1] by auto
    have "\<not> filter_passes flt m \<or> dead_lettered K X e V' now sub p m"
      using b(3) dead_lettered_grows [OF _ grows] by blast
    with b(1,2) show ?thesis by (intro exI [of _ b] exI [of _ m]) simp
  next
    case 2
    then obtain b m where b: "(msg_key t p, b) \<in> set entries" "message_decode X b = Some m"
        "\<not> filter_passes flt m \<or> dead_lettered K X e1 V' now sub p m"
      using rest unfolding accounted_def by blast
    have "p \<notin> {q}" using b(1) later by (auto simp: entry_seqs_mem)
    then have "\<not> filter_passes flt m \<or> dead_lettered K X e V' now sub p m"
      using b(3) dead_lettered_frame [OF _ frame] by blast
    with b(1,2) show ?thesis by (intro exI [of _ b] exI [of _ m]) simp
  qed
qed

lemma accounted_skip: "accounted sub t now flt entries c e c' V' \<Longrightarrow> accounted sub t now flt (x # entries) c e c' V'"
  unfolding accounted_def by fastforce

lemma lease_scan_accounted:
  assumes "eng_wf e" and "cursor_ok c"
    and "sorted_wrt (<) (map fst entries)" and "\<forall>(k, b) \<in> set entries. prefix (msg_key_prefix t) k"
    and "lease_scan K X sub now secs flt mx entries (c, ch, out) e = (Inr (c', ch', out'), e')"
    and "\<And>dlq. dead_letter_topic_of K X (eng_kv e) sub = Some dlq \<Longrightarrow>
      unat (log_tail (V (eng_kv e)) (tr_id dlq)) + length entries < 2 ^ 64"
  shows "logs_grow (length entries) (V (eng_kv e)) (V (eng_kv e')) \<and> accounted sub t now flt entries c e c' (V (eng_kv e'))"
  using assms
proof (induction entries arbitrary: c ch out e)
  case Nil
  then show ?case by (simp add: accounted_def)
next
  case (Cons x entries)
  obtain k b where x: "x = (k, b)" by (cases x)
  show ?case
  proof (cases "mx \<le> length out")
    case True
    then show ?thesis using Cons.prems by (simp add: accounted_def)
  next
    case False
    then obtain c1 ch1 out1 e1 where step:
        "lease_step K X sub now secs flt (k, b) (c, ch, out) e = (Inr (c1, ch1, out1), e1)"
      and rest: "lease_scan K X sub now secs flt mx entries (c1, ch1, out1) e1 = (Inr (c', ch', out'), e')"
      using Cons.prems(5) by (auto simp: x bind_st_Inr_iff)
    have srt: "sorted_wrt (<) (map fst entries)" "\<forall>(k, b) \<in> set entries. prefix (msg_key_prefix t) k"
      using Cons.prems(3,4) by (auto simp: x)
    show ?thesis
    proof (cases "parse_msg_key k")
      case None
      with step have eqs: "c1 = c" "ch1 = ch" "out1 = out" "e1 = e" by (auto simp: lease_step_def)
      have "logs_grow (length entries) (V (eng_kv e)) (V (eng_kv e')) \<and> accounted sub t now flt entries c e c' (V (eng_kv e'))"
        by (rule Cons.IH [OF Cons.prems(1,2) srt rest [unfolded eqs]]) (use Cons.prems(6) in fastforce)
      then show ?thesis using logs_grow_mono [of "length entries" _ _ "length (x # entries)"] accounted_skip by simp
    next
      case (Some tq)
      then obtain t' q where k: "k = msg_key t' q" by (cases tq) (auto simp: parse_msg_key_iff)
      moreover have "prefix (msg_key_prefix t) k" using Cons.prems(4) by (simp add: x)
      ultimately have key: "parse_msg_key k = Some (t, q)" by simp
      have later: "\<forall>p \<in> entry_seqs entries. q < p"
        using Cons.prems(3) key srt(2) unfolding x by (rule later_seqs)
      note spec = lease_step_spec [OF Cons.prems(1,2) key step]
      have g: "logs_grow 1 (V (eng_kv e)) (V (eng_kv e1)) \<and> accounted sub t now flt [(k, b)] c e c1 (V (eng_kv e1))"
        by (rule lease_step_grows [OF Cons.prems(1,2) key step]) (use Cons.prems(6) in fastforce)
      have frame: "eng_frame K sub {q} e e1" using spec by blast
      have "unat (log_tail (V (eng_kv e1)) (tr_id d)) + length entries < 2 ^ 64"
        if "dead_letter_topic_of K X (eng_kv e1) sub = Some d" for d
        using Cons.prems(6) [of d] that logs_growD(2) [OF g [THEN conjunct1], of "tr_id d"]
        by (simp add: frame_records(3) [OF frame])
      moreover have "cursor_ok c1" using spec Cons.prems(2) mark_done_spec [OF Cons.prems(2)] by auto
      ultimately have r: "logs_grow (length entries) (V (eng_kv e1)) (V (eng_kv e')) \<and>
          accounted sub t now flt entries c1 e1 c' (V (eng_kv e'))"
        using Cons.IH [OF _ _ srt rest] spec by blast
      have "q \<notin> entry_seqs entries" using later by blast
      then have "accounted sub t now flt (x # entries) c e c' (V (eng_kv e'))"
        using accounted_later [OF _ _ frame] g r unfolding x by blast
      with logs_grow_trans [of 1 "V (eng_kv e)" "V (eng_kv e1)"] g r show ?thesis by simp
    qed
  qed
qed

lemma lease_next_accounted:
  assumes wf: "eng_wf e" and c: "load_cursor K X (eng_kv e) sub = Inr c" "cursor_ok c"
    and run: "lease_next K X e sub t mx now secs = (Inr out, e')" and c': "load_cursor K X (eng_kv e') sub = Inr c'"
    and room: "\<And>dlq. dead_letter_topic_of K X (eng_kv e) sub = Some dlq \<Longrightarrow>
      unat (log_tail (V (eng_kv e)) (tr_id dlq)) + length (kv_scan_prefix K (eng_kv e) ''msg'' (msg_key_prefix t)) < 2 ^ 64"
  shows "accounted sub t now (fst (compiled_filter K X e sub)) (kv_scan_prefix K (eng_kv e) ''msg'' (msg_key_prefix t))
    c e c' (V (eng_kv e'))"
proof (cases "nat (max mx 0) = 0")
  case True
  then have "e' = e" using run by (simp add: lease_next_def)
  then show ?thesis using c c' by (simp add: accounted_def)
next
  case False
  let ?entries = "kv_scan_prefix K (eng_kv e) ''msg'' (msg_key_prefix t)"
  obtain flt fs where cf: "compiled_filter K X e sub = (flt, e\<lparr>eng_filters := fs\<rparr>)"
    using compiled_filter_state [of e sub] by (cases "compiled_filter K X e sub") auto
  let ?e = "e\<lparr>eng_filters := fs\<rparr>"
  obtain c1 ch e1 where scan: "lease_scan K X sub now secs flt (nat (max mx 0)) ?entries (c, False, []) ?e
      = (Inr (c1, ch, out), e1)"
    and rest: "(if ch then bind_st (on_kv e1 (\<lambda>s. save_cursor K X s sub c1)) (\<lambda>_ e. (Inr out, e))
      else (Inr out, e1)) = (Inr out, e')"
    using run False c(1) cf by (auto simp: lease_next_def Let_def bind_st_Inr_iff split: if_splits)
  have srt: "sorted_wrt (<) (map fst ?entries)" "\<forall>(k, b) \<in> set ?entries. prefix (msg_key_prefix t) k"
    using wf scan_sorted scan_mem by auto
  obtain ok: "scan_ok sub t now secs flt ?entries out c ?e c1 e1" and keep: "\<not> ch \<longrightarrow> c1 = c"
    using lease_scan_spec [OF _ c(2) srt scan] wf by auto
  have e1: "eng_wf e1" "eng_frame K sub (entry_seqs ?entries) ?e e1" using ok by (auto simp: scan_ok_def)
  have acc: "accounted sub t now flt ?entries c ?e c1 (V (eng_kv e1))"
    using lease_scan_accounted [OF _ c(2) srt scan] wf room by simp
  have "c1 = c' \<and> (\<forall>k. V (eng_kv e') (''msg'', k) = V (eng_kv e1) (''msg'', k)) \<and>
      (\<forall>t. V (eng_kv e') (''meta'', topic_seq_counter_key t) = V (eng_kv e1) (''meta'', topic_seq_counter_key t))"
  proof (cases ch)
    case True
    then have "on_kv e1 (\<lambda>s. save_cursor K X s sub c1) = (Inr (), e')" using rest by (auto simp: bind_st_Inr_iff)
    from save_cursor_ok [OF e1(1) this] c' show ?thesis by simp
  next
    case False
    have "load_cursor K X (eng_kv e1) sub = load_cursor K X (eng_kv e) sub"
      using eng_frame_view [OF e1(2), of "(''sub'', cursor_key sub)"] by (intro load_cursor_view) simp
    then show ?thesis using rest keep False c(1) c' by simp
  qed
  then have "c1 = c'" "logs_grow 0 (V (eng_kv e1)) (V (eng_kv e'))" by (auto intro: logs_grow_same)
  moreover have "dead_lettered K X ?e W now sub q m = dead_lettered K X e W now sub q m" for W q m
    by (simp add: dead_lettered_def)
  ultimately show ?thesis
    using acc dead_lettered_grows unfolding accounted_def cf fst_conv by metis
qed

end

section \<open>A message that cannot be forwarded\<close>

lemma forward_invalid:
  assumes "topic_get K X s n = Inr dlq"
    and "\<not> valid_batch [(mr_payload m, build_attributes (mr_attributes m) a (rp_subscription_full_name policy)
      (mr_publish_ts_ms m), mr_ordering_key m)]"
  shows "\<exists>err. forward_to_dead_letter_topic K X s n m policy a now = (Inl err, s)"
proof -
  let ?ret = "if tr_message_retention_secs dlq > 0 then tr_message_retention_secs dlq else MAX_TOPIC_RETENTION_SECS"
  obtain err where "topic_append K X s (tr_id dlq) [(mr_payload m, build_attributes (mr_attributes m) a
      (rp_subscription_full_name policy) (mr_publish_ts_ms m), mr_ordering_key m)] now ?ret = (Inl err, s)"
    using topic_append_invalid [OF assms(2), of K X s "tr_id dlq" now ?ret] by (elim exE)
  with assms(1) show ?thesis by (simp add: forward_to_dead_letter_topic_def Let_def)
qed

text \<open>
  The attributes of a dead-lettered message are validated with the ones that forwarding adds. When
  the first message to be delivered is refused there, every pull fails and none of them changes the
  store, so that the messages behind it are not delivered either.
\<close>

lemma refused_copy_blocks_pull:
  assumes "load_cursor K X (eng_kv e) sub = Inr c"
    and first: "kv_scan_prefix K (eng_kv e) ''msg'' (msg_key_prefix t) = (msg_key t q, b) # rest"
    and m: "q \<notin> done_seqs c" "message_decode X b = Some m" "filter_passes (fst (compiled_filter K X e sub)) m"
    and row: "lease_get (eng_leases e) sub q = None" "persisted_delivery_record K X (eng_kv e) sub q = Some row"
      "\<not> in_backoff (reclaim_policy_of K X (eng_kv e) sub) (dr_attempts row) (dr_deadline_ms row) now"
    and r: "sub_record_of K X (eng_kv e) sub = Some r" "sr_dead_letter_topic r = Some n" "topic_get K X (eng_kv e) n = Inr dlq"
      "0 < sr_max_delivery_attempts r" "sr_max_delivery_attempts r \<le> int (unat (dr_attempts row))"
    and refused: "\<not> valid_batch [(mr_payload m, build_attributes (mr_attributes m) (dr_attempts row) (sr_name r)
      (mr_publish_ts_ms m), mr_ordering_key m)]"
    and "0 < mx"
  shows "\<exists>err e'. lease_next K X e sub t mx now secs = (Inl err, e') \<and> eng_kv e' = eng_kv e"
proof -
  obtain flt fs where cf: "compiled_filter K X e sub = (flt, e\<lparr>eng_filters := fs\<rparr>)"
  proof (cases "map_of (eng_filters e) sub")
    case (Some flt)
    then show thesis by (intro that [of flt "eng_filters e"]) (simp add: compiled_filter_def)
  qed (auto simp: compiled_filter_def Let_def intro: that)
  let ?p = "reclaim_policy_of K X (eng_kv e) sub" and ?e = "e\<lparr>eng_filters := fs\<rparr>"
  have p: "rp_subscription_full_name ?p = sr_name r" "should_dead_letter (dr_attempts row) (rp_dead_letter ?p)"
      "dp_topic (rp_dead_letter ?p) = Some n"
    using r by (simp_all add: reclaim_policy_of_def should_dead_letter_def)
  obtain err where "forward_to_dead_letter_topic K X (eng_kv e) n m ?p (dr_attempts row) now = (Inl err, eng_kv e)"
    using forward_invalid [OF r(3), of m "dr_attempts row" ?p] refused p(1) by auto
  then have "try_dead_letter K X ?e m ?p (dr_attempts row) now = (Inl err, ?e)"
    using p(2,3) by (simp add: try_dead_letter_def on_kv_def unwrap_or_def)
  then have "reclaim K X ?e sub q m now = (Inl err, ?e)"
    using row by (simp add: reclaim_def Let_def)
  then have "lease_step K X sub now secs flt (msg_key t q, b) (c, False, []) ?e = (Inl err, ?e)"
    using m cf by (auto simp: lease_step_def done_seqs_def filter_passes_def split: option.splits)
  then show ?thesis
    using assms(1) first cf \<open>0 < mx\<close> by (simp add: lease_next_def)
qed

end
