(* ===== verification/Dead_Letter_Claims.thy ===== *)
theory Dead_Letter_Claims
  imports Dead_Letter Publish_Claims
begin

text \<open>What becomes of a message that a pull gives up, with an instance on the demo store.\<close>

section \<open>Instances\<close>

text \<open>The demo subscription with a dead-letter topic, and a message of it that was tried five times.\<close>

definition demo_tired_sub :: subscription_record where
  "demo_tired_sub = demo_sub\<lparr>sr_dead_letter_topic := Some demo_topic_name, sr_max_delivery_attempts := 5\<rparr>"

definition demo_tired_kv :: mem_kv where
  "demo_tired_kv =
     hm_insert (''dlv'', delivery_key 2 1) (delivery_encode demo \<lparr>dr_deadline_ms = 3, dr_attempts = 5, dr_generation = 5\<rparr>)
       (hm_insert (''meta'', sub_key 2) (unwrap_or_default (sub_to_vec demo demo_tired_sub)) demo_kv)"

definition demo_tired :: "mem_kv engine" where
  "demo_tired = engine_new demo_tired_kv"

lemma demo_tired_kv: "eng_kv demo_tired = demo_tired_kv"
  by (simp add: demo_tired_def engine_new_def)

lemma demo_tired_wf: "hm_wf (eng_kv demo_tired)" "lease_table_wf (eng_leases demo_tired)"
  by (simp_all add: demo_tired_def demo_tired_kv_def engine_new_def wf_new)

lemma demo_tired_view:
  "map_of demo_tired_kv = (map_of demo_kv)
     ((''meta'', sub_key 2) \<mapsto> unwrap_or_default (sub_to_vec demo demo_tired_sub),
      (''dlv'', delivery_key 2 1) \<mapsto> delivery_encode demo \<lparr>dr_deadline_ms = 3, dr_attempts = 5, dr_generation = 5\<rparr>)"
  by (simp add: demo_tired_kv_def)

lemma demo_tired_rows:
  "load_cursor mem_kv_ops demo demo_tired_kv 2 = Inr demo_cursor"
  "sub_record_of mem_kv_ops demo demo_tired_kv 2 = Some demo_tired_sub"
  "topic_get mem_kv_ops demo demo_tired_kv demo_topic_name = Inr demo_topic"
  "persisted_delivery_record mem_kv_ops demo demo_tired_kv 2 1 = Some \<lparr>dr_deadline_ms = 3, dr_attempts = 5, dr_generation = 5\<rparr>"
  "mem_scan_prefix demo_tired_kv ''msg'' (msg_key_prefix 1) = [(msg_key 1 1, message_encode demo demo_message)]"
proof -
  show "load_cursor mem_kv_ops demo demo_tired_kv 2 = Inr demo_cursor"
    by (simp add: load_cursor_def mem_get_map_of demo_tired_view)
  show "sub_record_of mem_kv_ops demo demo_tired_kv 2 = Some demo_tired_sub"
    by (simp add: sub_record_of_def mem_get_map_of demo_tired_view serde_unwrap demo.sub_rt)
  show "topic_get mem_kv_ops demo demo_tired_kv demo_topic_name = Inr demo_topic"
    using demo_names(1)
    by (cases "topic_name_parse demo_topic_name") (simp_all add: topic_get_def topic_resolve_id_def topic_load_record_def mem_get_map_of demo_tired_view)
  show "persisted_delivery_record mem_kv_ops demo demo_tired_kv 2 1 = Some \<lparr>dr_deadline_ms = 3, dr_attempts = 5, dr_generation = 5\<rparr>"
    by (simp add: persisted_delivery_record_def mem_get_map_of demo_tired_view)
  show "mem_scan_prefix demo_tired_kv ''msg'' (msg_key_prefix 1) = [(msg_key 1 1, message_encode demo demo_message)]"
    by (simp add: mem_scan_prefix_def demo_tired_kv_def demo_kv_def hm_insert_def)
qed

lemma demo_epoch: "civil_from_days 0 = (1970, 1, 1)"
proof -
  have "i64_div (if (0::int) \<le> 719468 then 719468 else 719468 - 146096) 146097 = 4" by (simp add: i64_div_def)
  moreover have "nat (719468 - 4 * 146097) = 135080" by simp
  moreover have "(135080 - 135080 div 1460 + 135080 div 36524 - 135080 div 146096) div 365 = (369::nat)" by simp
  moreover have "135080 - (365 * 369 + 369 div 4 - 369 div 100) = (306::nat)" by simp
  ultimately show ?thesis unfolding civil_from_days_def add_0 Let_def by simp
qed

lemma demo_numerals: "nat_to_string 0 = ''0''" "nat_to_string 1 = ''1''" "nat_to_string 5 = ''5''" "nat_to_string 1970 = ''1970''"
  by code_simp+

lemma demo_published_at: "format_rfc3339_ms 5 = ''1970-01-01T00:00:00.005Z''"
  using demo_numerals by (simp add: format_rfc3339_ms_def Let_def demo_epoch fmt_int_def fmt_nat_def i64_div_def numeral_eq_Suc)

lemma demo_copy_valid:
  "valid_batch [(mr_payload demo_message, build_attributes [] 5 demo_sub_name 5, [])]"
  by (simp add: valid_batch_def demo_message_def build_attributes_def Let_def hm_insert_def demo_sub_name_def strip_prefix_def
    demo_numerals demo_published_at valid_message_def message_size_def attributes_size_def valid_attribute_def
    ATTR_DELIVERY_COUNT_def ATTR_SUBSCRIPTION_def ATTR_SUBSCRIPTION_PROJECT_def ATTR_TOPIC_PUBLISH_TIME_def)

lemma demo_tired_forward:
  "\<exists>s'. forward_to_dead_letter_topic mem_kv_ops demo demo_tired_kv demo_topic_name demo_message
     (reclaim_policy_of mem_kv_ops demo demo_tired_kv 2) 5 7 = (Inr True, s')"
proof -
  have "rp_subscription_full_name (reclaim_policy_of mem_kv_ops demo demo_tired_kv 2) = demo_sub_name"
    by (simp add: reclaim_policy_of_def demo_tired_rows demo_tired_sub_def demo_sub_def)
  moreover have "\<exists>qs s'. topic_append mem_kv_ops demo demo_tired_kv 1
      [(mr_payload demo_message, build_attributes [] 5 demo_sub_name 5, [])] 7 MAX_TOPIC_RETENTION_SECS = (Inr qs, s')"
    using demo_tired_wf(1) demo_copy_valid by (intro store_env_reliable.topic_append_total [OF demo_store_env_reliable]) (simp_all add: demo_tired_kv)
  ultimately show ?thesis
    by (auto simp: forward_to_dead_letter_topic_def demo_tired_rows demo_topic_def demo_message_def)
qed

lemma demo_tired_pull:
  "\<exists>e'. lease_next mem_kv_ops demo demo_tired 2 1 10 7 10 = (Inr [], e') \<and>
     load_cursor mem_kv_ops demo (eng_kv e') 2 = Inr (mark_done demo_cursor 1)"
proof -
  obtain s' where "forward_to_dead_letter_topic mem_kv_ops demo demo_tired_kv demo_topic_name demo_message
     (reclaim_policy_of mem_kv_ops demo demo_tired_kv 2) 5 7 = (Inr True, s')"
    using demo_tired_forward by blast
  then have dl: "try_dead_letter mem_kv_ops demo (demo_tired\<lparr>eng_filters := fs\<rparr>) demo_message
      (reclaim_policy_of mem_kv_ops demo demo_tired_kv 2) 5 7 = (Inr True, demo_tired\<lparr>eng_kv := s', eng_filters := fs\<rparr>)" for fs
    by (simp add: try_dead_letter_def should_dead_letter_def reclaim_policy_of_def demo_tired_rows demo_tired_sub_def
        on_kv_def demo_tired_kv unwrap_or_def)
  have "\<not> in_backoff (reclaim_policy_of mem_kv_ops demo demo_tired_kv 2) 5 3 7"
    by (simp add: in_backoff_def reclaim_policy_of_def demo_tired_rows demo_tired_sub_def demo_sub_def)
  then have r: "reclaim mem_kv_ops demo (demo_tired\<lparr>eng_filters := fs\<rparr>) 2 1 demo_message 7 =
      (Inr DeadLettered, demo_tired\<lparr>eng_kv := snd (mem_delete s' ''dlv'' (delivery_key 2 1)), eng_filters := fs\<rparr>)" for fs
    using dl by (simp add: reclaim_def lease_get_def demo_tired_def engine_new_def lease_table_new_def demo_tired_rows on_kv_def mem_delete_def)
  have "compiled_filter mem_kv_ops demo demo_tired 2 = (None, demo_tired\<lparr>eng_filters := [(2, None)]\<rparr>)"
    by (simp add: compiled_filter_def demo_tired_def engine_new_def demo_tired_rows demo_tired_sub_def demo_sub_def hm_insert_def)
  moreover have "load_cursor mem_kv_ops demo (hm_insert (''sub'', cursor_key 2) (cursor_encode demo c) s) 2 = Inr c" for c s
    by (simp add: load_cursor_def mem_get_map_of)
  ultimately show ?thesis
    using r by (simp add: lease_next_def demo_tired_rows demo_tired_kv lease_step_def demo_cursor_def on_kv_def
        save_cursor_def mem_put_def)
qed

section \<open>Claim\<close>

text \<open>
  C6: a pull loses nothing. A message that a successful pull marks done without anybody having
  acknowledged it is a stored message of the topic that either does not pass the filter of the
  subscription, or was delivered at least as often as the dead-letter policy allows; in the second
  case the dead-letter topic exists and, when the pull returns, its log has a copy of the message:
  the same payload and ordering key, the time of the pull, and the attributes of the original with
  the number of deliveries, the subscription and the time of the first publish added.
\<close>

theorem pull_loses_nothing:
  assumes "store_env K good X" and "good (eng_kv e)" and "lease_table_wf (eng_leases e)"
    and "load_cursor K X (eng_kv e) sub = Inr c" and "cursor_ok c"
    and "lease_next K X e sub t mx now secs = (Inr out, e')"
    and "load_cursor K X (eng_kv e') sub = Inr c'"
    and room: "\<forall>dlq. dead_letter_topic_of K X (eng_kv e) sub = Some dlq \<longrightarrow>
      unat (current_tail K (eng_kv e) (tr_id dlq)) + length (kv_scan_prefix K (eng_kv e) ''msg'' (msg_key_prefix t)) < 2 ^ 64"
  shows "\<forall>q \<in> done_seqs c' - done_seqs c. \<exists>b m.
    kv_get K (eng_kv e) ''msg'' (msg_key t q) = Some b \<and> message_decode X b = Some m \<and>
    (\<not> filter_passes (fst (compiled_filter K X e sub)) m \<or>
     dead_lettered K X e (kv_view K (eng_kv e')) now sub q m)"
proof -
  have "store_env.accounted K X sub t now (fst (compiled_filter K X e sub))
      (kv_scan_prefix K (eng_kv e) ''msg'' (msg_key_prefix t)) c e c' (kv_view K (eng_kv e'))"
    by (rule store_env.lease_next_accounted [OF assms(1) _ assms(4-7)])
      (use assms(2,3) room current_tail_view [of K] in auto)
  then show ?thesis
    using assms(1,2) kv_store.scan_mem [of K good]
    by (fastforce simp: store_env.accounted_def [OF assms(1)] kv_get_view dest: store_env.axioms)
qed

theorem pull_loses_nothing_witness:
  "\<exists>e'. lease_next mem_kv_ops demo demo_tired 2 1 10 7 10 = (Inr [], e') \<and>
     dead_lettered mem_kv_ops demo demo_tired (kv_view mem_kv_ops (eng_kv e')) 7 2 1 demo_message"
proof -
  obtain e' where run: "lease_next mem_kv_ops demo demo_tired 2 1 10 7 10 = (Inr [], e')"
    and c': "load_cursor mem_kv_ops demo (eng_kv e') 2 = Inr (mark_done demo_cursor 1)"
    using demo_tired_pull by blast
  have c: "load_cursor mem_kv_ops demo (eng_kv demo_tired) 2 = Inr demo_cursor" by (simp add: demo_tired_kv demo_tired_rows)
  have tail: "current_tail mem_kv_ops demo_tired_kv 1 = 1"
    by (simp add: current_tail_view counter_value_def mem_view demo_tired_view)
  have new: "1 \<in> done_seqs (mark_done demo_cursor 1) - done_seqs demo_cursor"
    using mark_done_spec [OF demo_cursor_ok, of 1] by (simp add: done_seqs_def demo_cursor_def)
  have "fst (compiled_filter mem_kv_ops demo demo_tired 2) = None"
    by (simp add: compiled_filter_def demo_tired_def engine_new_def demo_tired_rows demo_tired_sub_def demo_sub_def)
  moreover have "dead_letter_topic_of mem_kv_ops demo (eng_kv demo_tired) 2 = Some demo_topic"
    by (simp add: dead_letter_topic_of_def demo_tired_kv demo_tired_rows demo_tired_sub_def)
  ultimately show ?thesis
    using bspec [OF pull_loses_nothing [OF demo_store_env demo_tired_wf c demo_cursor_ok run c'] new] run
    by (simp add: demo_tired_kv demo_tired_rows demo_topic_def tail mem_get_map_of demo_tired_view filter_passes_def)
qed

end
