(* ===== verification/Record_Types.thy ===== *)
theory Record_Types
  imports Catalog_Claims
begin

text \<open>
  What the fields of a stored subscription can be: \<open>sub_typed\<close> holds of every record in the store
  of a service, whatever operations it went through and however they ended. The proof is a frame as
  in \<open>Quiet\<close>: only the subscription store writes subscription rows, and it writes typed ones.
\<close>

section \<open>Typed records\<close>

definition sub_typed :: "subscription_record \<Rightarrow> bool" where
  "sub_typed r \<longleftrightarrow>
     is_ok (subscription_name_parse (sr_name r)) \<and>
     (sr_topic r = DELETED_TOPIC \<or> is_ok (topic_name_parse (sr_topic r))) \<and>
     10 \<le> sr_ack_deadline_secs r \<and> sr_ack_deadline_secs r \<le> 600 \<and>
     600 \<le> sr_message_retention_secs r \<and> sr_message_retention_secs r \<le> 7 * 24 * 3600 \<and>
     char_count (sr_filter r) \<le> 256 \<and>
     (sr_max_delivery_attempts r = 0 \<or> 5 \<le> sr_max_delivery_attempts r \<and> sr_max_delivery_attempts r \<le> 100) \<and>
     0 \<le> sr_min_retry_backoff_secs r \<and> sr_min_retry_backoff_secs r \<le> 600 \<and>
     0 \<le> sr_max_retry_backoff_secs r \<and> sr_max_retry_backoff_secs r \<le> 600"

definition subs_typed :: "ext \<Rightarrow> view \<Rightarrow> bool" where
  "subs_typed X V \<longleftrightarrow>
     (\<forall>i b r. V (''meta'', sub_key i) = Some b \<longrightarrow> sub_from_slice X b = Some r \<longrightarrow> sr_id r = i \<and> sub_typed r)"

lemma is_ok_Inr: "m = Inr x \<Longrightarrow> is_ok m"
  by (simp add: is_ok_def)

lemma validated:
  "validate_ack_deadline_secs v = Inr () \<longleftrightarrow> 10 \<le> v \<and> v \<le> 600"
  "validate_subscription_retention_secs v = Inr () \<longleftrightarrow> 600 \<le> v \<and> v \<le> 7 * 24 * 3600"
  "validate_dead_letter_max_attempts v = Inr () \<longleftrightarrow> v = 0 \<or> 5 \<le> v \<and> v \<le> 100"
  "validate_retry_backoff_secs v = Inr () \<longleftrightarrow> 0 \<le> v \<and> v \<le> 600"
  "validate_filter_len flt = Inr () \<longleftrightarrow> char_count flt \<le> 256"
  by (auto simp: validate_defs limit_defs)

lemma checked_backoff:
  "(case y of None \<Rightarrow> Inr d | Some v \<Rightarrow> bind_r (validate_retry_backoff_secs v) (\<lambda>_. Inr v)) = Inr m \<Longrightarrow>
     0 \<le> d \<Longrightarrow> d \<le> 600 \<Longrightarrow> 0 \<le> m \<and> m \<le> 600"
  by (cases y) (auto simp: bind_r_Inr_iff validated)

lemma checked_attempts:
  "(if b then bind_r (validate_dead_letter_max_attempts v) (\<lambda>_. Inr (if v = 0 then 5 else v)) else Inr 0) = Inr m \<Longrightarrow>
     m = 0 \<or> 5 \<le> m \<and> m \<le> 100"
  by (cases b) (auto simp: bind_r_Inr_iff validated split: if_splits)

lemma sub_build_typed:
  assumes "sub_build_record n tn t now opts = Inr f"
  shows "sub_typed (f i)"
  using assms unfolding sub_build_record_def Let_def bind_r_Inr_iff
  by (elim exE conjE)
    (drule checked_attempts checked_backoff; simp?; drule checked_backoff; simp?; drule checked_backoff; simp?;
     clarsimp simp: sub_typed_def validated is_ok_Inr)

text \<open>A patch keeps a record typed: each of its steps does.\<close>

definition keeps_typed :: "subscription_record result \<Rightarrow> bool" where
  "keeps_typed m \<longleftrightarrow> (\<forall>r. m = Inr r \<longrightarrow> sub_typed r)"

lemma keeps_typed_bind: "keeps_typed m \<Longrightarrow> (\<And>r. sub_typed r \<Longrightarrow> keeps_typed (f r)) \<Longrightarrow> keeps_typed (bind_r m f)"
  unfolding keeps_typed_def bind_r_Inr_iff by blast

lemma keeps_typed_check: "(u = Inr () \<Longrightarrow> keeps_typed m) \<Longrightarrow> keeps_typed (bind_r u (\<lambda>_. m))"
  unfolding keeps_typed_def bind_r_Inr_iff by simp

lemma keeps_typed_Let: "sub_typed x \<Longrightarrow> (\<And>r. sub_typed r \<Longrightarrow> keeps_typed (f r)) \<Longrightarrow> keeps_typed (Let x f)"
  by simp

lemma keeps_typed_case:
  "(\<And>v. keeps_typed (g v)) \<Longrightarrow> keeps_typed m \<Longrightarrow> keeps_typed (case y of None \<Rightarrow> m | Some v \<Rightarrow> g v)"
  by (cases y) simp_all

lemma keeps_typed_Inr: "sub_typed x \<Longrightarrow> keeps_typed (Inr x)"
  by (simp add: keeps_typed_def)

lemma sub_typed_case:
  "(\<And>v. sub_typed (h v)) \<Longrightarrow> sub_typed x \<Longrightarrow> sub_typed (case y of None \<Rightarrow> x | Some v \<Rightarrow> h v)"
  by (cases y) simp_all

lemma sub_typed_free:
  assumes "sub_typed r"
  shows "sub_typed (r\<lparr>sr_retain_acked_messages := b\<rparr>)" "sub_typed (r\<lparr>sr_labels := l\<rparr>)"
    "sub_typed (r\<lparr>sr_expiration_ttl_secs := e\<rparr>)" "sub_typed (r\<lparr>sr_dead_letter_topic := d\<rparr>)"
    "sub_typed (r\<lparr>sr_detached := b\<rparr>)" "sub_typed (r\<lparr>sr_enable_exactly_once_delivery := b\<rparr>)"
    "sub_typed (r\<lparr>sr_push_config := p\<rparr>)" "sub_typed (r\<lparr>sr_last_activity_ts_ms := now\<rparr>)"
    "sub_typed (r\<lparr>sr_topic := DELETED_TOPIC\<rparr>)"
  using assms by (simp_all add: sub_typed_def)

lemma sub_typed_checked:
  assumes "sub_typed r"
  shows "validate_ack_deadline_secs v = Inr () \<Longrightarrow> sub_typed (r\<lparr>sr_ack_deadline_secs := v\<rparr>)"
    and "validate_subscription_retention_secs v = Inr () \<Longrightarrow> sub_typed (r\<lparr>sr_message_retention_secs := v\<rparr>)"
    and "validate_dead_letter_max_attempts v = Inr () \<Longrightarrow>
      sub_typed (r\<lparr>sr_max_delivery_attempts := if v = 0 then 5 else v\<rparr>)"
    and "validate_retry_backoff_secs v = Inr () \<Longrightarrow>
      sub_typed (r\<lparr>sr_min_retry_backoff_secs := v, sr_retry_policy_explicit := True\<rparr>)"
    and "validate_retry_backoff_secs v = Inr () \<Longrightarrow>
      sub_typed (r\<lparr>sr_max_retry_backoff_secs := v, sr_retry_policy_explicit := True\<rparr>)"
  using assms by (auto simp: sub_typed_def validated)

lemma sub_patch_typed:
  assumes "sub_typed r0" and "sub_patch p r0 = Inr r"
  shows "sub_typed r"
proof -
  have "keeps_typed (sub_patch p r0)"
    unfolding sub_patch_def
    by (intro keeps_typed_check keeps_typed_bind keeps_typed_Let keeps_typed_case keeps_typed_Inr sub_typed_case
        sub_typed_free sub_typed_checked assms(1))
  then show ?thesis using assms(2) by (simp add: keeps_typed_def)
qed

section \<open>The frame\<close>

text \<open>\<open>f\<close> selects the store in the state at hand.\<close>

definition kept :: "'s kv_ops \<Rightarrow> ('s \<Rightarrow> bool) \<Rightarrow> ext \<Rightarrow> ('a \<Rightarrow> 's) \<Rightarrow> 'a \<Rightarrow> 'a \<Rightarrow> bool" where
  "kept K good X f x y \<longleftrightarrow>
     (good (f x) \<and> subs_typed X (kv_view K (f x)) \<longrightarrow> good (f y) \<and> subs_typed X (kv_view K (f y)))"

interpretation kept: step_frame "kept K good X f" for K good X f
  by unfold_locales (auto simp: kept_def)

lemma quiet_kept: "quiet K good (f x) (f y) \<Longrightarrow> kept K good X f x y"
  by (auto simp: quiet_def kept_def subs_typed_def)

lemma eng_quiet_kept: "eng_quiet K good e e' \<Longrightarrow> kept K good X eng_kv e e'"
  by (simp add: eng_quiet_def quiet_kept)

lemma kept_on_kv [quiet_rules]:
  "kept K good X (\<lambda>s. s) (eng_kv e) (snd (g (eng_kv e))) \<Longrightarrow> kept K good X eng_kv e (snd (on_kv e g))"
  by (cases "g (eng_kv e)") (simp add: kept_def on_kv_def)

lemma kept_on_engine [quiet_rules]:
  "kept K good X eng_kv (svc_engine v) (snd (g (svc_engine v))) \<Longrightarrow> kept K good X svc_kv v (snd (on_engine v g))"
  by (cases "g (svc_engine v)") (simp add: kept_def on_engine_def)

lemma kept_on_store [quiet_rules]:
  "kept K good X (\<lambda>s. s) (svc_kv v) (snd (g (svc_kv v))) \<Longrightarrow> kept K good X svc_kv v (snd (on_store v g))"
  unfolding on_store_def by (intro kept_on_engine kept_on_kv)

lemma kept_engine: "kept K good X eng_kv (svc_engine v) e \<Longrightarrow> kept K good X svc_kv v (v\<lparr>svc_engine := e\<rparr>)"
  by (simp add: kept_def)

lemma keptI:
  "(good (f x) \<Longrightarrow> subs_typed X (kv_view K (f x)) \<Longrightarrow> kept K good X f x y) \<Longrightarrow> kept K good X f x y"
  by (auto simp: kept_def)

section \<open>The stores\<close>

context store_env
begin

abbreviation "st_kept \<equiv> kept K wf X (\<lambda>s. s)"

abbreviation "eng_kept \<equiv> kept K wf X eng_kv"

abbreviation "svc_kept \<equiv> kept K wf X svc_kv"

lemma kept_put:
  assumes "ks \<in> keyspaces" and "\<And>i r. (ks, k) = (''meta'', sub_key i) \<Longrightarrow> sub_from_slice X b = Some r \<Longrightarrow> sr_id r = i \<and> sub_typed r"
  shows "st_kept s (snd (kv_put K s ks k b))"
  using put_either [OF _ assms(1), of s k b] assms(2) by (fastforce simp: kept_def subs_typed_def)

lemma kept_delete [quiet_rules]: "ks \<in> keyspaces \<Longrightarrow> st_kept s (snd (kv_delete K s ks k))"
  using delete_either [of s ks k] by (auto simp: kept_def subs_typed_def split: if_splits)

lemma kept_put_other [quiet_rules]:
  "st_kept s (snd (kv_put K s ''sub'' k b))" "st_kept s (snd (kv_put K s ''idx'' k b))"
  "st_kept s (snd (kv_put K s ''meta'' id_seq_key b))" "st_kept s (snd (kv_put K s ''meta'' (snapshot_key i) b))"
  "st_kept s (snd (kv_put K s ''meta'' (name_key kind n) b))"
  by (rule kept_put; simp)+

lemmas kept_quiet_ops [quiet_rules] = quiet_ops [THEN quiet_kept [where f = "\<lambda>s. s"]]

lemma kept_next_ids [quiet_rules]:
  "st_kept s (snd (topic_next_id K s))" "st_kept s (snd (snapshot_next_id K s))" "st_kept s (snd (sub_next_id K s))"
  unfolding topic_next_id_def snapshot_next_id_def sub_next_id_def Let_def by (intro quiet_rules)+

lemma kept_topic_create: "st_kept s (snd (topic_create K X s n l r k a b))"
  unfolding topic_create_def Let_def by (intro quiet_rules)

lemma kept_snapshot_put [quiet_rules]: "st_kept s (snd (snapshot_put_record K X s r))"
  unfolding snapshot_put_record_def by (intro quiet_rules)

lemma kept_snapshot_ops:
  "st_kept s (snd (snapshot_create K X s n t ti l c x))" "st_kept s (snd (snapshot_update_labels K X s n l))"
  "st_kept s (snd (snapshot_delete K s n))"
  unfolding snapshot_create_def snapshot_update_labels_def snapshot_delete_def Let_def
  by (intro quiet_rules; simp)+

lemma sub_load_typed:
  "subs_typed X (V s) \<Longrightarrow> sub_load K X s i n = Inr r \<Longrightarrow> sr_id r = i \<and> sub_typed r"
  by (auto simp: sub_load_def bind_r_Inr_iff ok_or_Inr_iff kv_get_view subs_typed_def)

lemma sub_get_typed: "subs_typed X (V s) \<Longrightarrow> sub_get K X s n = Inr r \<Longrightarrow> sub_typed r"
  using sub_load_typed by (auto simp: sub_get_def bind_r_Inr_iff)

lemma kept_persist:
  assumes "sub_typed r"
  shows "st_kept s (snd (sub_persist K X s r))"
proof -
  obtain b where b: "sub_to_vec X r = Some b" "sub_from_slice X b = Some r" using sub_to_vec_ex by blast
  then have "st_kept s (snd (kv_put K s ''meta'' (sub_key (sr_id r)) b))" using assms by (intro kept_put) auto
  then show ?thesis unfolding sub_persist_def b(1) ok_or_simps with_r_simps by (intro quiet_rules)
qed

lemma kept_checked:
  assumes "\<And>r. m = Inr r \<Longrightarrow> subs_typed X (V s) \<Longrightarrow> sub_typed r" and "\<And>r. sub_typed r \<Longrightarrow> st_kept s (snd (g r))"
  shows "st_kept s (snd (with_r m s g))"
proof (cases m)
  case (Inr r)
  show ?thesis
  proof (rule keptI)
    assume "subs_typed X (V s)"
    then show "st_kept s (snd (with_r m s g))" using assms Inr by simp
  qed
qed (simp add: kept.refl)

lemma kept_load: "(\<And>r. sub_typed r \<Longrightarrow> st_kept s (snd (g r))) \<Longrightarrow> st_kept s (snd (with_r (sub_load K X s i n) s g))"
  by (rule kept_checked) (auto dest: sub_load_typed)

lemma kept_get: "(\<And>r. sub_typed r \<Longrightarrow> st_kept s (snd (g r))) \<Longrightarrow> st_kept s (snd (with_r (sub_get K X s n) s g))"
  by (rule kept_checked) (auto dest: sub_get_typed)

lemma kept_sub_ops:
  "st_kept s (snd (set_topic_to_deleted K X s i))" "st_kept s (snd (sub_detach K X s n))"
  "st_kept s (snd (sub_set_push_config K X s n pc))"
  unfolding set_topic_to_deleted_def sub_detach_def sub_set_push_config_def
  by (intro kept_load kept_get kept_persist sub_typed_free; assumption)+

lemma kept_sub_touch [quiet_rules]: "st_kept s (snd (sub_touch K X s i now))"
proof (cases "sub_load K X s i (sub_id_text i)")
  case (Inr r)
  have "st_kept s (snd (with_r (sub_load K X s i (sub_id_text i)) s
      (\<lambda>r. sub_persist K X s (r\<lparr>sr_last_activity_ts_ms := now\<rparr>))))"
    by (intro kept_load kept_persist sub_typed_free)
  then show ?thesis by (simp add: sub_touch_def Inr)
qed (simp add: sub_touch_def kept.refl)

lemma kept_sub_update: "st_kept s (snd (sub_update K X s n p))"
  unfolding sub_update_def
proof (rule kept_get)
  fix r assume "sub_typed r"
  then show "st_kept s (snd (with_r (sub_patch p r) s (\<lambda>r. bind_st (sub_persist K X s r) (\<lambda>_ s. (Inr r, s)))))"
    using sub_patch_typed
    by (cases "sub_patch p r") (auto simp: kept.refl intro!: quiet_rules kept_persist simp del: bind_st_simps)
qed

lemma kept_sub_delete [quiet_rules]: "st_kept s (snd (sub_delete K X s n))"
  unfolding sub_delete_def by (intro quiet_rules) simp_all

lemma kept_sub_create: "st_kept s (snd (sub_create K X s n tn t at now opts))"
proof (cases "sub_build_record n tn t now opts")
  case (Inr f)
  then have "sub_typed (f i)" for i by (rule sub_build_typed)
  then show ?thesis unfolding sub_create_def Inr with_r_simps Let_def by (intro quiet_rules kept_persist)
qed (simp add: sub_create_def kept.refl)

lemma kept_detach_all: "st_kept s (snd (detach_all K X is s))"
  by (induction "is" arbitrary: s) (auto intro: quiet_rules kept_sub_ops(1))

lemma kept_sub_sweep: "st_kept s (snd (sub_sweep_expired K X s now))"
proof -
  have "st_kept s (snd (sub_sweep_loop K X now s rs))" for rs s
    by (induction rs arbitrary: s) (auto intro!: quiet_rules simp: Let_def split: option.split)
  then show ?thesis by (simp add: sub_sweep_expired_def)
qed

lemma kept_snapshot_sweep:
  assumes "snapshot_sweep_expired fuel K X s project now = Some (r, s')"
  shows "st_kept s s'"
proof -
  have page: "st_kept s (snd (snapshot_sweep_page K now rs n s))" for rs n s
    by (induction rs arbitrary: n s) (auto intro!: quiet_rules kept_snapshot_ops(3))
  have "st_kept s s'" if "snapshot_sweep_pages fuel K X project now pg n s = Some (r, s')" for pg n s
    using that
  proof (induction fuel arbitrary: pg n s)
    case (Suc fuel)
    obtain rs tok where pg: "pg = (rs, tok)" by (cases pg)
    obtain x s1 where x: "snapshot_sweep_page K now rs n s = (x, s1)" by fastforce
    have s1: "st_kept s s1" using page [of s rs n] by (simp add: x)
    show ?case
      using Suc.prems Suc.IH s1 kept.trans [OF s1] by (auto simp: pg x split: sum.splits option.splits)
  qed simp
  then show ?thesis using assms by (auto simp: snapshot_sweep_expired_def kept.refl split: sum.splits)
qed

section \<open>The engine\<close>

lemma kept_same_store: "f y = f x \<Longrightarrow> kept K wf X f x y"
  by (simp add: kept_def)

lemma kept_stream_table: "eng_kept e (e\<lparr>eng_streams := R\<rparr>)"
  by (rule kept_same_store) simp

lemma kept_save_cursor [quiet_rules]: "eng_kept e (snd (on_kv e (\<lambda>s. save_cursor K X s i c)))"
  unfolding save_cursor_def by (intro quiet_rules)

lemma kept_lease_next [quiet_rules]: "eng_kept e (snd (lease_next K X e i t mx now secs))"
proof -
  obtain flt fs where cf: "compiled_filter K X e i = (flt, e\<lparr>eng_filters := fs\<rparr>)"
    using compiled_filter_state [of e i] by (cases "compiled_filter K X e i") auto
  have body: "eng_kept e (snd (bind_st (lease_scan K X i now secs flt n es (c, False, []) (e\<lparr>eng_filters := fs\<rparr>))
      (\<lambda>(c, ch, out) e. if ch then bind_st (on_kv e (\<lambda>s. save_cursor K X s i c)) (\<lambda>_ e. (Inr out, e)) else (Inr out, e))))" for n es c
  proof (rule kept.trans)
    show "eng_kept e (e\<lparr>eng_filters := fs\<rparr>)" by (rule kept_same_store) simp
    show "eng_kept (e\<lparr>eng_filters := fs\<rparr>) (snd (bind_st (lease_scan K X i now secs flt n es (c, False, []) (e\<lparr>eng_filters := fs\<rparr>))
      (\<lambda>(c, ch, out) e. if ch then bind_st (on_kv e (\<lambda>s. save_cursor K X s i c)) (\<lambda>_ e. (Inr out, e)) else (Inr out, e))))"
      by (intro quiet_rules eng_quiet_kept [OF quiet_lease_scan])
        (auto split: prod.split intro!: quiet_rules simp del: bind_st_simps)
  qed
  show ?thesis
    unfolding lease_next_def Let_def cf prod.case
    by (intro kept.if_frame kept.with_frame kept.pair_frame kept.refl body)
qed

lemma kept_acknowledge [quiet_rules]: "eng_kept e (snd (acknowledge K X e i ids))"
  unfolding acknowledge_def
  by (intro quiet_rules eng_quiet_kept [OF quiet_ack_loop]) (auto split: prod.split intro!: quiet_rules)

lemma kept_restore_cursor [quiet_rules]: "eng_kept e (snd (restore_cursor K X e i c))"
proof -
  obtain qs T where rm: "lease_remove_all_for_subscription (eng_leases e) i = (qs, T)" by fastforce
  have "eng_kept e (e\<lparr>eng_leases := T\<rparr>)" by (rule kept_same_store) simp
  then show ?thesis
    unfolding restore_cursor_def rm prod.case save_cursor_def
    by (rule kept.trans) (intro quiet_rules)
qed

section \<open>The service\<close>

lemma kept_svc_touch [quiet_rules]: "svc_kept v (svc_touch K X v i now)"
  unfolding svc_touch_def ignore_result_def by (intro quiet_rules)

lemma kept_publish: "svc_kept v (snd (svc_publish K X v now n ms))"
proof -
  have "svc_kept v (if b then v\<lparr>svc_engine := notify_published (svc_engine v) is\<rparr> else v)" for b v "is"
    by (auto simp: notify_published_def intro: kept_same_store)
  then show ?thesis unfolding svc_publish_def Let_def by (intro quiet_rules)
qed

lemma kept_pull: "svc_kept v (snd (svc_pull K X v now n mx))"
  unfolding svc_pull_def Let_def by (intro quiet_rules)

lemma kept_streams:
  "svc_kept v (snd (svc_lease_for_stream K X v now i))"
  "svc_kept v (snd (svc_stream_acknowledge K X v now i s ids))"
  "svc_kept v (snd (svc_stream_modify_ack_deadline K X v now i s ids secs))"
  "svc_kept v (svc_close_stream K v i)"
  "svc_kept v (snd (svc_open_stream K X v n secs mm mb))"
proof -
  have lease: "eng_kept e (snd (lease_for_stream K X e i now))" for e
    unfolding lease_for_stream_def Let_def
    by (auto intro!: quiet_rules kept_stream_table split: prod.split simp del: bind_st_simps)
  show "svc_kept v (snd (svc_lease_for_stream K X v now i))"
    unfolding svc_lease_for_stream_def by (intro quiet_rules lease)
  have ack: "eng_kept e (snd (stream_acknowledge K X e i s ids))" for e
    unfolding stream_acknowledge_def by (intro quiet_rules kept_stream_table)
  show "svc_kept v (snd (svc_stream_acknowledge K X v now i s ids))"
    unfolding svc_stream_acknowledge_def by (intro quiet_rules ack)
  show "svc_kept v (snd (svc_stream_modify_ack_deadline K X v now i s ids secs))"
    unfolding svc_stream_modify_ack_deadline_def by (intro quiet_rules eng_quiet_kept [OF quiet_stream_modify])
  show "svc_kept v (svc_close_stream K v i)"
    unfolding svc_close_stream_def by (intro kept_engine eng_quiet_kept quiet_stream_closed)
  show "svc_kept v (snd (svc_open_stream K X v n secs mm mb))"
    unfolding svc_open_stream_def open_stream_def by (auto intro!: quiet_rules kept_engine kept_stream_table split: prod.split)
qed

lemma kept_sweeps:
  "svc_kept v (snd (svc_sweep_subscription X v now i grace))"
  "svc_kept v (snd (svc_sweep_retention K X v now))"
  "svc_kept v (svc_exec K X (SweepSnapshots fuel now p) v)"
proof -
  show "svc_kept v (snd (svc_sweep_subscription X v now i grace))"
    using eng_quiet_kept [OF quiet_sweep [of "svc_engine v" i now grace]]
    by (auto simp: svc_sweep_subscription_def kept_def split: prod.split)
  obtain st s where sw: "sweep_expired_messages K X (svc_kv v) now = (st, s)" by fastforce
  have "st_kept (svc_kv v) (snd (sub_sweep_expired K X s now))"
    using kept.trans [OF quiet_kept [where f = "\<lambda>s. s", OF quiet_sweep_messages [of "svc_kv v" now]] kept_sub_sweep]
    by (simp add: sw)
  then show "svc_kept v (snd (svc_sweep_retention K X v now))"
    by (simp add: svc_sweep_retention_def sw kept_def ignore_result_def)
  show "svc_kept v (svc_exec K X (SweepSnapshots fuel now p) v)"
  proof (cases "snapshot_sweep_expired fuel K X (svc_kv v) p now")
    case (Some rs)
    then show ?thesis
      using kept_snapshot_sweep [of fuel "svc_kv v" p now "fst rs" "snd rs"]
      by (auto simp: svc_sweep_expired_snapshots_def kept_def split: prod.split)
  qed (simp add: svc_sweep_expired_snapshots_def kept.refl)
qed

lemma kept_waiter: "svc_kept v (v\<lparr>svc_engine := waiter (svc_engine v) i\<rparr>)"
  by (intro kept_engine eng_quiet_kept waiter_quiet)

lemma svc_exec_kept: "svc_kept v (svc_exec K X op v)"
proof (cases op)
  case (DeleteTopic n)
  then show ?thesis by (simp add: svc_delete_topic_def) (intro quiet_rules kept_detach_all)
next
  case (CreateSubscription now n t opts)
  then show ?thesis by (simp add: svc_create_subscription_def Let_def) (intro quiet_rules kept_sub_create)
next
  case (PullWaiter n)
  then show ?thesis by (simp add: svc_pull_waiter_def) (intro quiet_rules kept_waiter)
next
  case (CreateSnapshot now n sub l)
  then show ?thesis by (simp add: svc_create_snapshot_def) (intro quiet_rules kept_snapshot_ops)
next
  case (SeekToSnapshot n snap)
  then show ?thesis by (simp add: svc_seek_to_snapshot_def) (intro quiet_rules)
next
  case (SeekToTime n t)
  then show ?thesis by (simp add: svc_seek_to_time_def Let_def) (intro quiet_rules)
next
  case Restart
  then show ?thesis
    using recover_spec [of "svc_kv v"] by (auto simp: kept_def with_max_disk_bytes_def service_new_def)
next
  case (SweepSnapshots fuel now p)
  then show ?thesis using kept_sweeps(3) by simp
next
  case (UpdateStream i secs mm mb)
  then show ?thesis by (auto simp: svc_update_stream_def update_stream_def intro: kept_same_store)
qed (auto simp: svc_create_topic_full_def svc_update_topic_full_def svc_acknowledge_def svc_modify_ack_deadline_def
    svc_update_subscription_def svc_delete_subscription_def svc_detach_subscription_def svc_modify_push_config_def
    svc_stream_waiter_def svc_update_snapshot_labels_def svc_delete_snapshot_def
    intro!: quiet_rules kept_topic_create eng_quiet_kept [OF quiet_modify_ack_deadline] kept_sub_update kept_sub_ops
    kept_waiter kept_snapshot_ops kept_streams kept_pull kept_publish kept_sweeps(1,2) simp del: bind_st_simps)

lemma svc_reachable_typed:
  assumes "wf s" and "subs_typed X (V s)" and "svc_reachable K X s v"
  shows "wf (svc_kv v) \<and> subs_typed X (V (svc_kv v))"
  using assms(3)
proof induction
  case initial
  show ?case using recover_spec [OF assms(1)] assms by (simp add: service_new_def)
next
  case (step v op)
  then show ?case using svc_exec_kept [of v op] by (simp add: kept_def del: svc_exec.simps)
qed

end

section \<open>Every stored subscription is typed\<close>

text \<open>
  C14: the fields of a subscription. Starting from a store whose subscription records are within the
  limits, for example an empty one, every subscription the service ever looks up has an
  acknowledgement deadline of 10 to 600 seconds, a retention of 10 minutes to 7 days, a filter of
  at most 256 characters, retry delays of 0 to 600 seconds, a dead-letter limit that is unset or 5
  to 100, a well-formed name and topic, and the id it is stored under, whatever requests, sweeps
  and restarts came before and whether or not they failed.
\<close>

theorem subscription_fields_typed:
  assumes "store_env K good X" and "good s" and "subs_typed X (kv_view K s)" and "svc_reachable K X s v"
  shows "(\<forall>n r. sub_get K X (svc_kv v) n = Inr r \<longrightarrow> sub_typed r) \<and>
    (\<forall>i r. sub_get_by_id K X (svc_kv v) i = Inr r \<longrightarrow> sub_typed r \<and> sr_id r = i)"
proof -
  have typed: "subs_typed X (kv_view K (svc_kv v))"
    using store_env.svc_reachable_typed [OF assms] by blast
  show ?thesis
    using store_env.sub_get_typed [OF assms(1) typed] store_env.sub_load_typed [OF assms(1) typed]
    by (auto simp: sub_get_by_id_def)
qed

theorem subscription_fields_typed_witness:
  "sub_typed demo_sub \<and> sub_get mem_kv_ops demo (svc_kv (svc_exec mem_kv_ops demo Restart (service_new mem_kv_ops demo demo_kv))) demo_sub_name = Inr demo_sub"
proof -
  let ?v = "svc_exec mem_kv_ops demo Restart (service_new mem_kv_ops demo demo_kv)"
  have new: "svc_kv (service_new mem_kv_ops demo demo_kv) = demo_kv"
    using store_env.recover_spec [OF demo_store_env demo_kv_wf] by (simp add: service_new_def)
  then have kv: "svc_kv ?v = demo_kv" by (simp add: with_max_disk_bytes_def)
  have "subs_typed demo (kv_view mem_kv_ops demo_kv)"
    by (auto simp: subs_typed_def mem_view demo_sub_def sub_typed_def char_count_def split: if_splits)
  moreover have "svc_reachable mem_kv_ops demo demo_kv ?v" by (intro svc_reachable.intros)
  moreover have "sub_get mem_kv_ops demo (svc_kv ?v) demo_sub_name = Inr demo_sub"
    unfolding kv by (simp add: sub_get_def sub_load_def decode_id_def mem_get_map_of)
  ultimately show ?thesis
    using subscription_fields_typed [OF demo_store_env demo_kv_wf] by blast
qed

end
