(* ===== verification/Routes.thy ===== *)
theory Routes
  imports Grpc
begin

text \<open>
  The rest of the gRPC front end: the services that are registered, \<open>grpc/mod.rs\<close>, and the two
  that are not supported, \<open>grpc/schema.rs\<close> and \<open>grpc/iam.rs\<close>. A call of the latter leaves the
  service alone and answers that it is not implemented, whatever the request.
\<close>

section \<open>Unsupported services\<close>

datatype schema_method =
    Create_Schema | Get_Schema | List_Schemas | List_Schema_Revisions | Commit_Schema | Rollback_Schema
  | Delete_Schema_Revision | Delete_Schema | Validate_Schema | Validate_Message

datatype iam_method = Set_Iam_Policy | Get_Iam_Policy | Test_Iam_Permissions

definition grpc_unimplemented :: "grpc_code + 'a" where
  "grpc_unimplemented = Inl GUnimplemented"

definition schema_call :: "schema_method \<Rightarrow> 'req \<Rightarrow> 's service \<Rightarrow> ('s, 'a) reply" where
  "schema_call m req v = (grpc_unimplemented, v)"

definition iam_call :: "iam_method \<Rightarrow> 'req \<Rightarrow> 's service \<Rightarrow> ('s, 'a) reply" where
  "iam_call m req v = (grpc_unimplemented, v)"

section \<open>The routes\<close>

datatype grpc_service = Publisher | Subscriber | Schema_Service | Iam_Policy | Health | Reflection

text \<open>\<open>reflection_ok\<close> is whether the reflection service could be built from the descriptor set.\<close>

definition build_routes :: "bool \<Rightarrow> bool \<Rightarrow> grpc_service list" where
  "build_routes enable_reflection reflection_ok =
     [Publisher, Subscriber, Schema_Service, Iam_Policy, Health] @
     (if enable_reflection \<and> reflection_ok then [Reflection] else [])"

text \<open>No service is registered twice, and only reflection depends on the configuration.\<close>

lemma build_routes_services:
  "distinct (build_routes er ok)"
  "s \<in> set (build_routes er ok) \<longleftrightarrow> s \<noteq> Reflection \<or> er \<and> ok"
  by (simp_all add: build_routes_def) (cases s; auto)

end
