(* ===== verification/Metrics.thy ===== *)
theory Metrics
  imports Service
begin

text \<open>
  The clock, \<open>crates/open-pubusb-core/src/clock.rs\<close>, and the metrics, \<open>metrics.rs\<close>. A recording
  helper is the call it makes of the metrics facade, as a value of \<open>metric_op\<close>; an operation of the
  service that records metrics has, beside its definition in \<open>Service\<close>, one that says which calls
  it makes. Floating-point values are of a type \<open>'f\<close> left open, with the conversion from integers
  as an argument.
\<close>

section \<open>The clock\<close>

text \<open>
  \<open>SystemClock::now_ms\<close>; \<open>since_epoch\<close> is the number of milliseconds since the Unix epoch as an
  unsigned 128-bit integer, \<open>None\<close> before it.
\<close>

definition system_now_ms :: "nat option \<Rightarrow> int" where
  "system_now_ms since_epoch = (case since_epoch of Some d \<Rightarrow> wrap_i64 (int d) | None \<Rightarrow> 0)"

text \<open>
  \<open>MockClock\<close>: the atomic addition wraps around. The value \<open>advance\<close> returns is added up again,
  which with overflow checks panics (\<open>None\<close>) and without them wraps.
\<close>

definition mock_new :: "int \<Rightarrow> int" where
  "mock_new start_ms = start_ms"

definition mock_advance :: "bool \<Rightarrow> int \<Rightarrow> int \<Rightarrow> int option \<times> int" where
  "mock_advance checks clock ms =
     (if checks \<and> \<not> in_i64 (clock + ms) then None else Some (wrap_i64 (clock + ms)), wrap_i64 (clock + ms))"

definition mock_advance_secs :: "bool \<Rightarrow> int \<Rightarrow> int \<Rightarrow> int option \<times> int" where
  "mock_advance_secs checks clock secs = mock_advance checks clock (i64_sat_mul secs 1000)"

definition mock_now_ms :: "int \<Rightarrow> int" where
  "mock_now_ms clock = clock"

lemma wrap_i64_in_i64: "in_i64 (wrap_i64 x)"
  using pos_mod_sign [of "2 ^ 64 :: int" "x + 2 ^ 63"] pos_mod_bound [of "2 ^ 64 :: int" "x + 2 ^ 63"]
  by (simp add: wrap_i64_def in_i64_def i64_min_def i64_max_def)

lemma system_now_in_range: "in_i64 (system_now_ms d)"
  by (cases d) (simp_all add: system_now_ms_def wrap_i64_in_i64 in_i64_def [of 0] i64_min_def i64_max_def)

lemma mock_advance_ok:
  assumes "in_i64 (clock + ms)"
  shows "mock_advance checks clock ms = (Some (clock + ms), clock + ms)"
  using assms by (simp add: mock_advance_def wrap_i64_id)

section \<open>Recording\<close>

datatype 'f metric_op =
    Counter_Increment string "(string \<times> string) list"
  | Gauge_Set string "(string \<times> string) list" 'f
  | Histogram_Record string 'f

definition TOPICS :: string where "TOPICS = ''open_pubusb_topics''"
definition SUBSCRIPTIONS :: string where "SUBSCRIPTIONS = ''open_pubusb_subscriptions''"
definition MESSAGES_PUBLISHED_TOTAL :: string where "MESSAGES_PUBLISHED_TOTAL = ''open_pubusb_messages_published_total''"
definition MESSAGES_DELIVERED_TOTAL :: string where "MESSAGES_DELIVERED_TOTAL = ''open_pubusb_messages_delivered_total''"
definition MESSAGES_ACKED_TOTAL :: string where "MESSAGES_ACKED_TOTAL = ''open_pubusb_messages_acked_total''"
definition MESSAGES_EXPIRED_TOTAL :: string where "MESSAGES_EXPIRED_TOTAL = ''open_pubusb_messages_expired_total''"
definition MESSAGES_DEAD_LETTERED_TOTAL :: string where
  "MESSAGES_DEAD_LETTERED_TOTAL = ''open_pubusb_messages_dead_lettered_total''"
definition UNACKED_MESSAGES :: string where "UNACKED_MESSAGES = ''open_pubusb_unacked_messages''"
definition OLDEST_UNACKED_AGE_SECONDS :: string where
  "OLDEST_UNACKED_AGE_SECONDS = ''open_pubusb_oldest_unacked_age_seconds''"
definition PUBLISH_LATENCY_SECONDS :: string where "PUBLISH_LATENCY_SECONDS = ''open_pubusb_publish_latency_seconds''"
definition GRPC_REQUESTS_TOTAL :: string where "GRPC_REQUESTS_TOTAL = ''open_pubusb_grpc_requests_total''"
definition PUSH_REQUESTS_TOTAL :: string where "PUSH_REQUESTS_TOTAL = ''open_pubusb_push_requests_total''"
definition STORAGE_SYNC_DURATION_SECONDS :: string where
  "STORAGE_SYNC_DURATION_SECONDS = ''open_pubusb_storage_sync_duration_seconds''"
definition STORAGE_DISK_BYTES :: string where "STORAGE_DISK_BYTES = ''open_pubusb_storage_disk_bytes''"
definition STREAMING_PULL_STREAMS :: string where "STREAMING_PULL_STREAMS = ''open_pubusb_streaming_pull_streams''"
definition METRICS_TRUNCATED :: string where "METRICS_TRUNCATED = ''open_pubusb_metrics_truncated''"

lemmas metric_names =
  TOPICS_def SUBSCRIPTIONS_def MESSAGES_PUBLISHED_TOTAL_def MESSAGES_DELIVERED_TOTAL_def MESSAGES_ACKED_TOTAL_def
  MESSAGES_EXPIRED_TOTAL_def MESSAGES_DEAD_LETTERED_TOTAL_def UNACKED_MESSAGES_def OLDEST_UNACKED_AGE_SECONDS_def
  PUBLISH_LATENCY_SECONDS_def GRPC_REQUESTS_TOTAL_def PUSH_REQUESTS_TOTAL_def STORAGE_SYNC_DURATION_SECONDS_def
  STORAGE_DISK_BYTES_def STREAMING_PULL_STREAMS_def METRICS_TRUNCATED_def

datatype metric_kind = Counter | Gauge | Histogram

text \<open>The metrics \<open>describe_all\<close> registers, in its order, without their descriptions.\<close>

definition describe_all :: "(metric_kind \<times> string) list" where
  "describe_all =
     [(Gauge, TOPICS), (Gauge, SUBSCRIPTIONS), (Counter, MESSAGES_PUBLISHED_TOTAL), (Counter, MESSAGES_DELIVERED_TOTAL),
      (Counter, MESSAGES_ACKED_TOTAL), (Counter, MESSAGES_EXPIRED_TOTAL), (Counter, MESSAGES_DEAD_LETTERED_TOTAL),
      (Gauge, UNACKED_MESSAGES), (Gauge, OLDEST_UNACKED_AGE_SECONDS), (Histogram, PUBLISH_LATENCY_SECONDS),
      (Counter, GRPC_REQUESTS_TOTAL), (Counter, PUSH_REQUESTS_TOTAL), (Histogram, STORAGE_SYNC_DURATION_SECONDS),
      (Gauge, STORAGE_DISK_BYTES), (Gauge, STREAMING_PULL_STREAMS), (Gauge, METRICS_TRUNCATED)]"

definition CARDINALITY_LIMIT :: nat where "CARDINALITY_LIMIT = 1000"

definition should_label :: "nat \<Rightarrow> bool \<times> 'f::zero_neq_one metric_op" where
  "should_label resource_count =
     (let truncated = resource_count > CARDINALITY_LIMIT
      in (\<not> truncated, Gauge_Set METRICS_TRUNCATED [] (if truncated then 1 else 0)))"

definition record_published :: "string \<Rightarrow> 'f metric_op" where
  "record_published topic = Counter_Increment MESSAGES_PUBLISHED_TOTAL [(''topic'', topic)]"

definition record_delivered :: "string \<Rightarrow> string \<Rightarrow> 'f metric_op" where
  "record_delivered sub mode = Counter_Increment MESSAGES_DELIVERED_TOTAL [(''subscription'', sub), (''mode'', mode)]"

definition record_acked :: "string \<Rightarrow> 'f metric_op" where
  "record_acked sub = Counter_Increment MESSAGES_ACKED_TOTAL [(''subscription'', sub)]"

definition record_expired :: "string \<Rightarrow> 'f metric_op" where
  "record_expired sub = Counter_Increment MESSAGES_EXPIRED_TOTAL [(''subscription'', sub)]"

definition record_dead_lettered :: "string \<Rightarrow> 'f metric_op" where
  "record_dead_lettered sub = Counter_Increment MESSAGES_DEAD_LETTERED_TOTAL [(''subscription'', sub)]"

definition set_unacked :: "string \<Rightarrow> 'f \<Rightarrow> 'f metric_op" where
  "set_unacked sub x = Gauge_Set UNACKED_MESSAGES [(''subscription'', sub)] x"

definition set_oldest_unacked_age :: "string \<Rightarrow> 'f \<Rightarrow> 'f metric_op" where
  "set_oldest_unacked_age sub seconds = Gauge_Set OLDEST_UNACKED_AGE_SECONDS [(''subscription'', sub)] seconds"

definition record_publish_latency :: "'f \<Rightarrow> 'f metric_op" where
  "record_publish_latency seconds = Histogram_Record PUBLISH_LATENCY_SECONDS seconds"

definition record_grpc_request :: "string \<Rightarrow> string \<Rightarrow> 'f metric_op" where
  "record_grpc_request meth code = Counter_Increment GRPC_REQUESTS_TOTAL [(''method'', meth), (''code'', code)]"

definition record_push_request :: "string \<Rightarrow> string \<Rightarrow> 'f metric_op" where
  "record_push_request sub result = Counter_Increment PUSH_REQUESTS_TOTAL [(''subscription'', sub), (''result'', result)]"

definition record_storage_sync_duration :: "'f \<Rightarrow> 'f metric_op" where
  "record_storage_sync_duration seconds = Histogram_Record STORAGE_SYNC_DURATION_SECONDS seconds"

definition set_storage_disk_bytes :: "'f \<Rightarrow> 'f metric_op" where
  "set_storage_disk_bytes x = Gauge_Set STORAGE_DISK_BYTES [] x"

definition set_streaming_pull_streams :: "'f \<Rightarrow> 'f metric_op" where
  "set_streaming_pull_streams x = Gauge_Set STREAMING_PULL_STREAMS [] x"

definition set_topics :: "'f \<Rightarrow> 'f metric_op" where
  "set_topics x = Gauge_Set TOPICS [] x"

definition set_subscriptions :: "'f \<Rightarrow> 'f metric_op" where
  "set_subscriptions x = Gauge_Set SUBSCRIPTIONS [] x"

text \<open>The metric a call is about, with its kind: each helper uses a metric as it is described.\<close>

fun metric_of :: "'f metric_op \<Rightarrow> metric_kind \<times> string" where
  "metric_of (Counter_Increment n l) = (Counter, n)"
| "metric_of (Gauge_Set n l x) = (Gauge, n)"
| "metric_of (Histogram_Record n x) = (Histogram, n)"

lemma describe_all_distinct: "distinct (map snd describe_all)"
  by (simp add: describe_all_def metric_names)

lemma helpers_described:
  "metric_of (record_published t) \<in> set describe_all" "metric_of (record_delivered s m) \<in> set describe_all"
  "metric_of (record_acked s) \<in> set describe_all" "metric_of (record_expired s) \<in> set describe_all"
  "metric_of (record_dead_lettered s) \<in> set describe_all" "metric_of (set_unacked s x) \<in> set describe_all"
  "metric_of (set_oldest_unacked_age s x) \<in> set describe_all" "metric_of (record_publish_latency x) \<in> set describe_all"
  "metric_of (record_grpc_request m c) \<in> set describe_all" "metric_of (record_push_request s r) \<in> set describe_all"
  "metric_of (record_storage_sync_duration x) \<in> set describe_all" "metric_of (set_storage_disk_bytes x) \<in> set describe_all"
  "metric_of (set_streaming_pull_streams x) \<in> set describe_all" "metric_of (set_topics x) \<in> set describe_all"
  "metric_of (set_subscriptions x) \<in> set describe_all" "metric_of (snd (should_label n)) \<in> set describe_all"
  by (simp_all add: describe_all_def record_published_def record_delivered_def record_acked_def record_expired_def
      record_dead_lettered_def set_unacked_def set_oldest_unacked_age_def record_publish_latency_def
      record_grpc_request_def record_push_request_def record_storage_sync_duration_def set_storage_disk_bytes_def
      set_streaming_pull_streams_def set_topics_def set_subscriptions_def should_label_def Let_def)

section \<open>What the service records\<close>

text \<open>
  The calls an operation of \<open>service.rs\<close> makes itself, and those of the turns of the background
  loops; \<open>elapsed\<close> is the measured duration.
\<close>

definition publish_metrics :: "string list result \<Rightarrow> string \<Rightarrow> 'f \<Rightarrow> 'f metric_op list" where
  "publish_metrics res topic elapsed =
     (case res of Inr _ \<Rightarrow> [record_published topic, record_publish_latency elapsed] | Inl _ \<Rightarrow> [])"

definition pull_metrics :: "(nat \<Rightarrow> 'f) \<Rightarrow> ('s service, pulled_message list) st_result \<Rightarrow> string \<Rightarrow> 'f metric_op list" where
  "pull_metrics as_f64 res sub =
     (case res of
        (Inr delivered, v) \<Rightarrow>
          set_unacked sub (as_f64 (lease_count (svc_engine v))) #
          (if delivered \<noteq> [] then [record_delivered sub ''pull''] else [])
      | (Inl _, _) \<Rightarrow> [])"

definition acknowledge_metrics :: "unit result \<Rightarrow> string \<Rightarrow> 'f metric_op list" where
  "acknowledge_metrics res sub = (case res of Inr _ \<Rightarrow> [record_acked sub] | Inl _ \<Rightarrow> [])"

definition stream_acknowledge_metrics ::
    "'s kv_ops \<Rightarrow> ext \<Rightarrow> ('s service, unit) st_result \<Rightarrow> u64 \<Rightarrow> 'f metric_op list" where
  "stream_acknowledge_metrics K X res sub_id =
     (case res of
        (Inr _, v) \<Rightarrow> (case sub_get_by_id K X (svc_kv v) sub_id of Inr r \<Rightarrow> [record_acked (sr_name r)] | Inl _ \<Rightarrow> [])
      | (Inl _, _) \<Rightarrow> [])"

definition storage_sync_metrics :: "(nat \<Rightarrow> 'f) \<Rightarrow> 'f \<Rightarrow> nat \<Rightarrow> 'f metric_op list" where
  "storage_sync_metrics as_f64 elapsed disk_bytes =
     [record_storage_sync_duration elapsed, set_storage_disk_bytes (as_f64 disk_bytes)]"

definition retention_loop_metrics ::
    "(nat \<Rightarrow> 'f) \<Rightarrow> subscription_record list \<Rightarrow> topic_record list \<Rightarrow> 'f metric_op list" where
  "retention_loop_metrics as_f64 subs topics =
     [set_subscriptions (as_f64 (length subs)), set_topics (as_f64 (length topics))]"

text \<open>The value of a counter after a sequence of calls.\<close>

definition counted :: "string \<Rightarrow> (string \<times> string) list \<Rightarrow> 'f metric_op list \<Rightarrow> nat" where
  "counted n l ops = length (filter (\<lambda>x. x = Counter_Increment n l) ops)"

text \<open>
  The counters count requests, whatever number of messages a request is about, and the gauge of a
  subscription is set to the number of leases of all subscriptions.
\<close>

lemma publish_counted:
  "counted MESSAGES_PUBLISHED_TOTAL [(''topic'', t)] (publish_metrics res t el) = (if is_ok res then 1 else 0)"
  by (cases res) (simp_all add: publish_metrics_def counted_def record_published_def record_publish_latency_def)

lemma pull_counted:
  "counted MESSAGES_DELIVERED_TOTAL [(''subscription'', sub), (''mode'', ''pull'')] (pull_metrics as_f64 (Inr ms, v) sub) =
     (if ms = [] then 0 else 1)"
  by (simp add: pull_metrics_def counted_def record_delivered_def set_unacked_def)

lemma acknowledge_counted:
  "counted MESSAGES_ACKED_TOTAL [(''subscription'', sub)] (acknowledge_metrics res sub) = (if is_ok res then 1 else 0)"
  by (cases res) (simp_all add: acknowledge_metrics_def counted_def record_acked_def)

lemma lease_len_dom:
  assumes "lease_table_wf T"
  shows "lease_len T = card (dom (lease_abs T))"
proof -
  have "distinct (map fst (by_key T))" using assms by (simp add: lease_table_wf_def)
  then have "card (set (map fst (by_key T))) = length (by_key T)" by (simp only: distinct_card length_map)
  then show ?thesis by (simp add: lease_len_def dom_map_of_conv_image_fst)
qed

lemma unacked_of_all:
  assumes "lease_table_wf (eng_leases (svc_engine v))"
  shows "Gauge_Set UNACKED_MESSAGES [(''subscription'', sub)] (as_f64 (card (dom (lease_abs (eng_leases (svc_engine v)))))) \<in>
    set (pull_metrics as_f64 (Inr ms, v) sub)"
  using assms by (simp add: pull_metrics_def set_unacked_def lease_count_def lease_len_dom)

end
