(* ===== verification/Spec2Isabelle.thy ===== *)
theory Spec2Isabelle
  imports Liveness Push_Claims Config Streaming_Claims Rest_Claims Process_Claims Log_Claims Dead_Letter_Claims
    Record_Types Routes Metrics
begin

text \<open>
  Verification of open-pubusb, a Pub/Sub message broker: its core library
  (\<open>src/crates/open-pubusb-core\<close>) and its server (\<open>src/crates/open-pubusb\<close>).

  \<^bold>\<open>The program.\<close> Publishers append messages to the log of a topic; each subscription of the topic
  has a cursor, the set of sequence numbers it is done with. A pull scans the log past the
  cursor and leases messages out: for each it records a lease with a deadline in memory and a
  delivery row in the store, and hands the client an acknowledgement id that names subscription,
  sequence number and generation. Acknowledging marks the message done and drops lease and row; a
  lease that runs out is delivered again, after a backoff, or forwarded to a dead-letter topic
  once it was tried too often. After a restart the leases are rebuilt from the rows. Everything
  durable is in one key/value store with a handful of keyspaces. Pull, streaming pull, push and
  REST are ways to the same service object.

  \<^bold>\<open>What the theories model.\<close>
  \<^item> \<open>Prelude\<close>: integers, strings, maps and the result types (see there).
  \<^item> \<open>Errors\<close> (\<open>error.rs\<close>), \<open>Limits\<close> (\<open>limits.rs\<close>), \<open>Names\<close> (\<open>names.rs\<close>), \<open>Keys\<close>
    (\<open>store/keys.rs\<close>), \<open>Sub_Filter\<close> (\<open>filter/\<close>), \<open>Codec\<close> (\<open>store/codec.rs\<close> and the records of
    \<open>topic.rs\<close> and \<open>subscription.rs\<close>): the values, their validation and their bytes.
  \<^item> \<open>Kv\<close> (\<open>store/kv.rs\<close>) and \<open>Fjall\<close> (\<open>store/fjall.rs\<close>): the store. The trait \<open>KvStore\<close> is the
    record \<open>kv_ops\<close>, its contract the locale \<open>kv_store\<close>, and \<open>kv_reliable\<close> adds that writes
    succeed. Everything above is generic in the record, as the source is in the trait.
  \<^item> \<open>Registry\<close>, \<open>Topic\<close> (\<open>topic.rs\<close>), \<open>Subscription\<close> (\<open>subscription.rs\<close>), \<open>Snapshot\<close>
    (\<open>delivery/snapshot.rs\<close>): the three stores of named resources and the message log. What they
    share, a row per id and an index row per name, is the locale \<open>registry\<close>.
  \<^item> \<open>Lease\<close> (\<open>delivery/lease.rs\<close>), \<open>Retry\<close> (\<open>delivery/retry.rs\<close>, \<open>dead_letter.rs\<close>),
    \<open>Stream_Registry\<close> (\<open>delivery/stream.rs\<close>), \<open>Engine\<close> (\<open>delivery/engine.rs\<close>), \<open>Retention\<close>
    (\<open>delivery/retention.rs\<close>), \<open>Service\<close> (\<open>service.rs\<close>): delivery and the facade; a method of
    \<open>PubSubService\<close> is the definition of its name with the prefix \<open>svc_\<close>.
  \<^item> \<open>Metrics\<close> (\<open>clock.rs\<close>, \<open>metrics.rs\<close>): the clocks, the metrics, and what each operation records.
  \<^item> \<open>Push\<close> (\<open>push/\<close>), \<open>Grpc\<close>, \<open>Streaming\<close> and \<open>Routes\<close> (\<open>grpc/\<close>), \<open>Rest\<close> (\<open>rest/\<close>, the router of
    \<open>server.rs\<close>): what talks to the service. Handlers have the prefixes \<open>grpc_\<close> and \<open>rest_\<close>.
  \<^item> \<open>Config\<close> (\<open>config.rs\<close>), \<open>Telemetry\<close> (\<open>telemetry.rs\<close>, \<open>systemd.rs\<close>) and \<open>Process\<close> (\<open>main.rs\<close>,
    \<open>shutdown.rs\<close>, \<open>admin.rs\<close>): the program from the command line to its exit code.

  \<^bold>\<open>How.\<close> An operation takes the state and returns the result, an error or a value, with the state
  it leaves; an error part-way leaves what was written before it. A lock is the sequential
  semantics of the section it guards. Where the source runs tasks concurrently (a stream's two
  tasks, a push dispatcher and its deliveries, the tasks of the server) the model is an
  \<open>inductive\<close> step relation whose steps are what a task does between two points where it may be
  suspended, and other users of the service may act between any two. The clock is an argument.
  Code that is not in the repository is a parameter: \<open>ext\<close> (serde, base64, the generated filter
  parser) with the laws \<open>ext_laws\<close>, \<open>fjall_ops\<close> (the storage engine) with \<open>fjall_laws\<close>,
  \<open>push_ext\<close>, \<open>rest_ext\<close>, \<open>cfg_ext\<close>, \<open>log_env\<close> and \<open>serve_env\<close> (what the tracing libraries and the
  operating system answer at start-up). \<open>Demo_Codec\<close> and \<open>Demo_State\<close> hold a computable instance of these and a small
  broker on it, on which the concrete instances of the properties are evaluated.

  \<^bold>\<open>What the lemmas show.\<close>
  \<^item> \<open>Cursor_Facts\<close>, \<open>Lease_Next\<close>, \<open>Engine_Acks\<close>, \<open>Engine_Recovery\<close>: what each operation of the
    engine does to cursors, leases and delivery rows, exactly; \<open>Liveness\<close>: a pull returns and
    leaves out nothing that may be delivered.
  \<^item> \<open>Quiet\<close>, \<open>Progress\<close>, \<open>Service_Steps\<close>: frames and an invariant that hold whatever an operation
    returns, collected over all operations of the service and restarts into reachability
    (\<open>svc_reachable\<close>, \<open>svc_run\<close>). The rules of the frames are the locale \<open>step_frame\<close>.
  \<^item> \<open>Publish\<close>, \<open>Publish_Claims\<close>: the exact effect of a publish, and that the next pull of every
    subscription of the topic has its messages.
  \<^item> \<open>Dead_Letter\<close>, \<open>Dead_Letter_Claims\<close>: what a pull gives up was filtered out, or is in the log of
    the dead-letter topic.
  \<^item> \<open>Seek\<close>, \<open>Retention_Facts\<close>, \<open>Log_Claims\<close>: the exact effects of the retention sweep and of the
    seeks to a time and to a snapshot.
  \<^item> \<open>Catalog\<close>, \<open>Listing\<close>, \<open>Snapshot_Sweep\<close>, \<open>Catalog_Claims\<close>: the stores of named resources
    refine finite maps, their listings are complete whatever the page size, and the loop that
    removes expired snapshots ends.
  \<^item> \<open>Record_Types\<close>: the fields of every stored subscription stay within their limits.
  \<^item> \<open>Push_Claims\<close>, \<open>Grpc_Claims\<close>, \<open>Streaming_Claims\<close>, \<open>Rest_Claims\<close>, \<open>Fjall_Claims\<close>,
    \<open>Process_Claims\<close>: what the outer layers promise; every gRPC call is a sequence of service
    operations, REST agrees with gRPC, the on-disk store keeps the contract, and the server starts
    and stops in order.
  \<^item> This theory: the properties of delivery and of the running service.

  \<^bold>\<open>Bounds.\<close> \<open>u32\<close> and \<open>u64\<close> are words; \<open>i64\<close> and \<open>i32\<close> are integers with the saturation and the
  wrap-around of the source written out. The only fuel is the number of pages in
  \<open>snapshot_sweep_expired\<close>, whose loop asks for pages of unlimited size: one is enough, as
  \<open>Catalog_Claims\<close> shows. All other loops are structural or have a termination proof.

  \<^bold>\<open>Not modelled.\<close> What is logged; the counters that dead-lettering, pushes and the retention
  sweep record on the way; the flushing of the on-disk store; timeouts, intervals and other
  durations, in whose place a timed step may be taken at any time; the texts of error messages; the
  generated protocol code and the benchmark program.
\<close>

section \<open>The delivery engine\<close>

text \<open>
  C3: what a pull returns. When a pull succeeds it returns at most \<open>max_messages\<close> deliveries in
  strictly increasing sequence order; each is a stored message of the topic that passes the
  filter, is not done, has no unexpired lease, carries the number of earlier attempts plus one
  and an acknowledgement id of that attempt, and is covered afterwards by a lease and a delivery
  row with the deadline \<open>now + ack_deadline\<close>. The cursor only gains done messages, none of them
  delivered, and the cursors of other subscriptions do not change.
\<close>

theorem lease_next_sound:
  assumes "store_env K good X" and "good (eng_kv e)" and "lease_table_wf (eng_leases e)"
    and "load_cursor K X (eng_kv e) sub = Inr c" and "cursor_ok c"
    and "lease_next K X e sub t mx now secs = (Inr out, e')"
  shows "length out \<le> nat (max mx 0) \<and> sorted_wrt (<) (map d_seq out) \<and>
    (\<forall>d \<in> set out. d_seq d \<notin> done_seqs c \<and>
       (\<exists>b. kv_get K (eng_kv e) ''msg'' (msg_key t (d_seq d)) = Some b \<and>
          sound_delivery K X sub now (fst (compiled_filter K X e sub)) b e d) \<and>
       granted K X sub (i64_sat_add now (max secs 0 * 1000)) d e') \<and>
    (\<exists>c'. load_cursor K X (eng_kv e') sub = Inr c' \<and> cursor_ok c' \<and> done_seqs c \<subseteq> done_seqs c' \<and>
       (\<forall>d \<in> set out. d_seq d \<notin> done_seqs c')) \<and>
    (\<forall>s. s \<noteq> sub \<longrightarrow> load_cursor K X (eng_kv e') s = load_cursor K X (eng_kv e) s) \<and>
    good (eng_kv e') \<and> lease_table_wf (eng_leases e')"
  using store_env.lease_next_spec [OF assms(1) _ assms(4-6)] assms(2,3)
  by (simp add: kv_get_view)

theorem lease_next_sound_witness:
  "lease_next mem_kv_ops demo demo_engine 2 1 10 7 10 = (Inr [demo_delivery], demo_leased) \<and>
   granted mem_kv_ops demo 2 10007 demo_delivery demo_leased"
  using lease_next_sound [OF demo_store_env demo_engine_wf _ demo_cursor_ok demo_pull] demo_load demo_pull
  by (simp add: demo_engine_def engine_new_def i64_sat_add_def sat_i64_def i64_max_def i64_min_def)

text \<open>
  C4: a pull delivers. On a store whose writes succeed, a pull for at least one message on a
  subscription that has a cursor and no dead-letter topic returns, and every stored message of
  the topic that is decodable, passes the filter, is not done, holds no unexpired lease and is
  not waiting for its retry is among the deliveries, unless the pull is full with messages that
  come before it.
\<close>

theorem pull_delivers:
  assumes "store_env_reliable K good X" and "good (eng_kv e)" and "no_dead_letter K X (eng_kv e) sub"
    and "load_cursor K X (eng_kv e) sub = Inr c" and "cursor_ok c" and "0 < mx"
  shows "\<exists>out e'. lease_next K X e sub t mx now secs = (Inr out, e') \<and>
    (\<forall>q b. kv_get K (eng_kv e) ''msg'' (msg_key t q) = Some b \<and>
       pending X (fst (compiled_filter K X e sub)) c q b \<and> deliverable_now K X e sub now q \<longrightarrow>
         q \<in> d_seq ` set out \<or> nat mx \<le> length out \<and> (\<forall>d \<in> set out. d_seq d < q))"
  using store_env_reliable.lease_next_live [OF assms] by (simp add: kv_get_view)

theorem pull_delivers_witness:
  "\<exists>out e'. lease_next mem_kv_ops demo demo_engine 2 1 10 7 10 = (Inr out, e') \<and> 1 \<in> d_seq ` set out"
proof -
  have kv: "eng_kv demo_engine = demo_kv" by (simp add: demo_engine_def engine_new_def)
  have plain: "no_dead_letter mem_kv_ops demo (eng_kv demo_engine) 2"
    by (simp add: no_dead_letter_def sub_record_of_def kv mem_get_map_of demo_sub_def)
  have "pending demo (fst (compiled_filter mem_kv_ops demo demo_engine 2)) demo_cursor 1 (message_encode demo demo_message)"
    by (simp add: pending_def done_seqs_def demo_cursor_def compiled_filter_def sub_record_of_def demo_engine_def
        engine_new_def mem_get_map_of demo_sub_def filter_passes_def Let_def)
  moreover have "deliverable_now mem_kv_ops demo demo_engine 2 7 1"
    by (simp add: deliverable_now_def demo_engine_def engine_new_def lease_table_new_def persisted_delivery_record_def
        mem_get_map_of Let_def)
  moreover have "kv_get mem_kv_ops (eng_kv demo_engine) ''msg'' (msg_key 1 1) = Some (message_encode demo demo_message)"
    by (simp add: kv mem_get_map_of)
  moreover obtain out e' where run: "lease_next mem_kv_ops demo demo_engine 2 1 10 7 10 = (Inr out, e')"
      and all: "\<forall>q b. kv_get mem_kv_ops (eng_kv demo_engine) ''msg'' (msg_key 1 q) = Some b \<and>
       pending demo (fst (compiled_filter mem_kv_ops demo demo_engine 2)) demo_cursor q b \<and>
       deliverable_now mem_kv_ops demo demo_engine 2 7 q \<longrightarrow>
         q \<in> d_seq ` set out \<or> nat 10 \<le> length out \<and> (\<forall>d \<in> set out. d_seq d < q)"
    using pull_delivers [OF demo_store_env_reliable demo_engine_wf(1) plain _ demo_cursor_ok, of 10 1 7 10] demo_load
    by (auto simp: kv)
  ultimately have "1 \<in> d_seq ` set out \<or> nat 10 \<le> length out \<and> (\<forall>d \<in> set out. d_seq d < 1)" by blast
  moreover have "length out = 1" using run demo_pull by auto
  ultimately show ?thesis using run by simp
qed

text \<open>
  C7: what an acknowledgement does. After a successful acknowledge the done set of the
  subscription's cursor has grown by exactly the sequence numbers of the leases that the given
  ids name at their current generation, exactly those leases are gone, the delivery rows of those
  sequence numbers are gone, and nothing else in the store changed; malformed, unknown and stale
  ids have no effect.
\<close>

theorem acknowledge_exact:
  assumes "store_env K good X" and "good (eng_kv e)" and "lease_table_wf (eng_leases e)"
    and "load_cursor K X (eng_kv e) sub = Inr c" and "cursor_ok c"
    and "acknowledge K X e sub ids = (Inr (), e')"
  shows "(\<exists>c'. load_cursor K X (eng_kv e') sub = Inr c' \<and> cursor_ok c' \<and>
      done_seqs c' = done_seqs c \<union> snd ` ack_hits X (eng_leases e) ids) \<and>
    lease_abs (eng_leases e') =
      (\<lambda>k. if k \<in> ack_hits X (eng_leases e) ids then None else lease_abs (eng_leases e) k) \<and>
    (\<forall>ks k. (ks, k) \<noteq> (''sub'', cursor_key sub) \<longrightarrow>
       kv_get K (eng_kv e') ks k =
         (if \<exists>q \<in> snd ` ack_hits X (eng_leases e) ids. (ks, k) = (''dlv'', delivery_key sub q) then None
          else kv_get K (eng_kv e) ks k)) \<and>
    good (eng_kv e') \<and> lease_table_wf (eng_leases e')"
proof -
  let ?H = "ack_hits X (eng_leases e) ids"
  note spec = store_env.acknowledge_spec [OF assms(1) _ assms(4-6)]
  have "kv_get K (eng_kv e') ks k = without_rows sub (snd ` ?H) (kv_view K (eng_kv e)) (ks, k)"
    if "(ks, k) \<noteq> (''sub'', cursor_key sub)" for ks k
    using spec assms(2,3) that by (simp add: kv_get_view)
  then have "\<forall>ks k. (ks, k) \<noteq> (''sub'', cursor_key sub) \<longrightarrow>
       kv_get K (eng_kv e') ks k =
         (if \<exists>q \<in> snd ` ?H. (ks, k) = (''dlv'', delivery_key sub q) then None else kv_get K (eng_kv e) ks k)"
    by (auto simp: without_rows_def kv_get_view image_iff)
  then show ?thesis
    using spec assms(2,3) by simp
qed

theorem acknowledge_exact_witness:
  "acknowledge mem_kv_ops demo demo_leased 2 [d_ack_id demo_delivery, ''junk''] = (Inr (), demo_acked) \<and>
   (\<exists>c'. load_cursor mem_kv_ops demo (eng_kv demo_acked) 2 = Inr c' \<and>
      done_seqs c' = done_seqs demo_cursor \<union> {1})"
  using acknowledge_exact [OF demo_store_env demo_leased_wf demo_leased_load demo_cursor_ok demo_ack]
    demo_ack demo_hits by auto

text \<open>
  C9: what a deadline change does. When every id that hits a lease hits one of this
  subscription, exactly the leases the ids name at their current generation get the deadline
  \<open>now + seconds\<close>, or \<open>now\<close> when \<open>seconds\<close> is not positive (a nack), with attempts and generation
  unchanged; their delivery rows are rewritten to match, and nothing else changes.
\<close>

theorem modify_ack_deadline_exact:
  assumes "store_env K good X" and "good (eng_kv e)" and "lease_table_wf (eng_leases e)"
    and "fst ` ack_hits X (eng_leases e) ids \<subseteq> {sub}"
    and "modify_ack_deadline K X e sub ids now secs = (Inr u, e')"
  shows "lease_abs (eng_leases e') =
      moved (ack_hits X (eng_leases e) ids) (if secs \<le> 0 then now else wrap_i64 (now + secs * 1000)) (eng_leases e) \<and>
    rows_moved X sub (ack_hits X (eng_leases e) ids) (if secs \<le> 0 then now else wrap_i64 (now + secs * 1000))
      (eng_leases e) (kv_view K (eng_kv e)) (kv_view K (eng_kv e')) \<and>
    good (eng_kv e') \<and> lease_table_wf (eng_leases e')"
  using store_env.modify_ack_deadline_spec [OF assms(1) _ assms(4,5)] assms(2,3)
  by (simp add: new_deadline_def)

theorem modify_ack_deadline_exact_witness:
  "lease_abs (eng_leases demo_extended) (2, 1) = Some (demo_lease\<lparr>l_deadline_ms := 20100\<rparr>)"
proof -
  let ?H = "ack_hits demo (eng_leases demo_leased) [d_ack_id demo_delivery, ''junk'']"
  have "fst ` ?H \<subseteq> {2}" by (simp add: demo_hits)
  from modify_ack_deadline_exact [OF demo_store_env demo_leased_wf this demo_extend]
  have "lease_abs (eng_leases demo_extended) = moved {(2, 1)} (wrap_i64 20100) (eng_leases demo_leased)"
    by (simp add: demo_hits)
  then show ?thesis
    by (simp add: moved_def demo_leased_def wrap_i64_id in_i64_def i64_min_def i64_max_def)
qed

text \<open>
  After a restart the lease table mirrors the persisted delivery rows: there is a lease for
  a message exactly when a readable delivery row exists for it, with the deadline, attempts and
  generation of that row, and the store is left as it was.
\<close>

theorem recover_mirrors_rows:
  assumes "store_env K good X" and "good s"
  shows "lease_abs (eng_leases (recover K X (engine_new s))) (sub, q) =
      map_option (\<lambda>r. \<lparr>l_sub_id = sub, l_seq = q, l_deadline_ms = dr_deadline_ms r,
          l_attempts = dr_attempts r, l_generation = dr_generation r\<rparr>)
        (persisted_delivery_record K X s sub q) \<and>
    lease_table_wf (eng_leases (recover K X (engine_new s))) \<and> eng_kv (recover K X (engine_new s)) = s"
  using store_env.recover_spec [OF assms, of sub q] by (simp add: lease_of_row_def [abs_def])

theorem recover_mirrors_rows_witness:
  "lease_abs (eng_leases (recover mem_kv_ops demo (engine_new (eng_kv demo_leased)))) (2, 1) = Some demo_lease"
  using recover_mirrors_rows [OF demo_store_env demo_leased_wf(1), of 2 1]
  by (simp add: persisted_delivery_record_def mem_get_map_of demo_leased_def row_of_lease_def demo_lease_def)

text \<open>
  C8: a delivery survives a crash. For every message a pull returned, the engine rebuilt from
  the store alone has the same lease as the engine that served the pull, so the acknowledgement
  id the client holds still names it.
\<close>

theorem delivery_survives_restart:
  assumes "store_env K good X" and "good (eng_kv e)" and "lease_table_wf (eng_leases e)"
    and "load_cursor K X (eng_kv e) sub = Inr c" and "cursor_ok c"
    and "lease_next K X e sub t mx now secs = (Inr out, e')" and "d \<in> set out"
  shows "lease_abs (eng_leases (recover K X (engine_new (eng_kv e')))) (sub, d_seq d) =
      lease_abs (eng_leases e') (sub, d_seq d) \<and>
    ack_hits X (eng_leases (recover K X (engine_new (eng_kv e')))) [d_ack_id d] = {(sub, d_seq d)}"
  using store_env.lease_next_restart [OF assms(1) _ assms(4-7)] assms(2,3) by simp

theorem delivery_survives_restart_witness:
  "ack_hits demo (eng_leases (recover mem_kv_ops demo (engine_new (eng_kv demo_leased)))) [d_ack_id demo_delivery]
     = {(2, 1)}"
proof -
  have "demo_delivery \<in> set [demo_delivery]" by simp
  from delivery_survives_restart [OF demo_store_env demo_engine_wf _ demo_cursor_ok demo_pull this]
  show ?thesis using demo_load by (simp add: demo_engine_def engine_new_def demo_delivery_def)
qed

text \<open>
  Rewinding a subscription (the seeks) installs the given cursor, forgets every lease and
  every delivery row of the subscription, and leaves the leases of other subscriptions and the
  rest of the store alone, so the pulls after it start from the cursor with attempts at zero.
\<close>

theorem restore_cursor_exact:
  assumes "store_env K good X" and "good (eng_kv e)" and "lease_table_wf (eng_leases e)"
    and "restore_cursor K X e sub c = (Inr u, e')"
  shows "load_cursor K X (eng_kv e') sub = Inr c \<and>
    (\<forall>s q. lease_abs (eng_leases e') (s, q) = (if s = sub then None else lease_abs (eng_leases e) (s, q))) \<and>
    (\<forall>q. prior_attempts K X e' sub q = 0) \<and>
    (\<forall>ks k. (ks, k) \<noteq> (''sub'', cursor_key sub) \<longrightarrow> \<not> (ks = ''dlv'' \<and> prefix (delivery_key_prefix sub) k) \<longrightarrow>
       kv_get K (eng_kv e') ks k = kv_get K (eng_kv e) ks k) \<and>
    good (eng_kv e') \<and> lease_table_wf (eng_leases e')"
  using store_env.restore_cursor_spec [OF assms(1) _ assms(4)] assms(2,3)
  by (simp add: kv_get_view prior_attempts_def persisted_delivery_record_def)

theorem restore_cursor_exact_witness:
  "load_cursor mem_kv_ops demo (eng_kv demo_rewound) 2 = Inr demo_cursor \<and>
   prior_attempts mem_kv_ops demo demo_rewound 2 1 = 0"
  using restore_cursor_exact [OF demo_store_env demo_leased_wf demo_rewind] by blast

section \<open>The running service\<close>

text \<open>
  C2: the invariant of the running broker. Starting on a store that satisfies it, such as an
  empty one, after any sequence of requests, background sweeps and restarts, whatever each of
  them returned, the store is well-formed, its id counter bounds the id of every subscription and
  every cursor, every cursor and every cursor kept in a snapshot is canonical, and the lease table
  and its deadline index agree.
\<close>

theorem service_invariant:
  assumes "store_env K good X" and "good s" and "store_inv X (kv_view K s)" and "svc_reachable K X s v"
  shows "good (svc_kv v) \<and> store_inv X (kv_view K (svc_kv v)) \<and> lease_table_wf (eng_leases (svc_engine v))"
  using store_env.svc_reachable_inv [OF assms] .

theorem service_invariant_witness:
  "store_inv demo (kv_view mem_kv_ops (svc_kv (svc_exec mem_kv_ops demo Restart (service_new mem_kv_ops demo []))))"
proof -
  have "store_inv demo (kv_view mem_kv_ops [])" by (simp add: store_inv_def mem_view)
  moreover have "svc_reachable mem_kv_ops demo [] (svc_exec mem_kv_ops demo Restart (service_new mem_kv_ops demo []))"
    by (intro svc_reachable.intros)
  ultimately show ?thesis
    using service_invariant [OF demo_store_env, of "[]"] by (simp del: svc_exec.simps)
qed



end
